(* ===== verification/Domain_Ast.thy ===== *)
theory Domain_Ast
  imports Go_Prelude
begin

text \<open>
  The abstract syntax of the domain expression language
  (\<^verbatim>\<open>internal/engine/domain/ast.go\<close>): one constructor per node type of the Go interface
  \<^verbatim>\<open>Expr\<close>. Operators stay the strings the parser stores in \<^verbatim>\<open>BinaryExpr.Op\<close> and
  \<^verbatim>\<open>TreeExpr.Op\<close>, because the evaluator and the compilers dispatch on them and reject the
  ones they do not know. A literal's \<^verbatim>\<open>any\<close> value is one of the four dynamic types the Go code
  documents.
\<close>

datatype literal =
    LNull
  | LBool bool
  | LString string
  | LNumber string

datatype expr =
    RecordField string
  | UserAttr string
  | TenantAttr string
  | RoleCheck string
  | PermCheck string
  | Literal literal
  | BinaryExpr string expr expr
  | UnaryExpr string expr
  | IsNullExpr expr bool
  | InExpr expr "expr list"
  | TreeExpr string expr

text \<open>The operators \<^verbatim>\<open>comparisonOps\<close> maps tokens to.\<close>

definition comparison_ops :: "string list" where
  "comparison_ops = [''='', ''!='', ''<'', ''>'', ''<='', ''>='']"

text \<open>Structural induction with the operand list as a set of cases.\<close>

lemma expr_induct [case_names RecordField UserAttr TenantAttr RoleCheck PermCheck Literal
    BinaryExpr UnaryExpr IsNullExpr InExpr TreeExpr, induct type: expr]:
  assumes "\<And>f. P (RecordField f)" "\<And>a. P (UserAttr a)" "\<And>f. P (TenantAttr f)"
    and "\<And>r. P (RoleCheck r)" "\<And>p. P (PermCheck p)" "\<And>l. P (Literal l)"
    and "\<And>oper l r. P l \<Longrightarrow> P r \<Longrightarrow> P (BinaryExpr oper l r)"
    and "\<And>oper e. P e \<Longrightarrow> P (UnaryExpr oper e)"
    and "\<And>e n. P e \<Longrightarrow> P (IsNullExpr e n)"
    and "\<And>e vs. P e \<Longrightarrow> (\<And>v. v \<in> set vs \<Longrightarrow> P v) \<Longrightarrow> P (InExpr e vs)"
    and "\<And>oper e. P e \<Longrightarrow> P (TreeExpr oper e)"
  shows "P e"
  using assms by (rule expr.induct)

end
