(* ===== verification/Domain_Lexer.thy ===== *)
theory Domain_Lexer
  imports Domain_Ast
begin

text \<open>
  The lexer of the domain language (\<^verbatim>\<open>internal/engine/domain/lexer.go\<close>). The Go lexer keeps the
  whole source and a byte offset; here its state is that offset together with the unread
  suffix \<^verbatim>\<open>src[pos:]\<close>, which is all its methods look at. Every method is one definition, and
  \<^verbatim>\<open>tokenize\<close> is total: each token that is not the end marker consumes at least one byte.

  The last section gives lexemes a rendering and shows that lexing it returns them, the lexical
  half of the parser's round trip.
\<close>

datatype token_kind =
    tokEOF | tokIdent | tokString | tokNumber | tokDot | tokLParen | tokRParen | tokComma
  | tokEq | tokNeq | tokLt | tokGt | tokLte | tokGte
  | tokAnd | tokOr | tokNot | tokIn | tokIs | tokNull | tokTrue | tokFalse
  | tokLike | tokIlike | tokChildOf | tokParentOf

definition keyword_table :: "(string \<times> token_kind) list" where
  "keyword_table =
     [(''and'', tokAnd), (''or'', tokOr), (''not'', tokNot), (''in'', tokIn), (''is'', tokIs),
      (''null'', tokNull), (''true'', tokTrue), (''false'', tokFalse), (''like'', tokLike),
      (''ilike'', tokIlike), (''child_of'', tokChildOf), (''parent_of'', tokParentOf)]"

record token =
  t_kind :: token_kind
  t_text :: string
  t_pos :: nat

datatype lex_error =
    UnexpectedChar char nat
  | UnterminatedString nat

section \<open>Characters\<close>

definition isIdentStart :: "char \<Rightarrow> bool" where
  "isIdentStart c \<longleftrightarrow>
     c = CHR ''_'' \<or> (CHR ''a'' \<le> c \<and> c \<le> CHR ''z'') \<or> (CHR ''A'' \<le> c \<and> c \<le> CHR ''Z'')"

definition isIdentPart :: "char \<Rightarrow> bool" where
  "isIdentPart c \<longleftrightarrow> isIdentStart c \<or> isDigit c"

text \<open>\<^verbatim>\<open>unicode.IsSpace\<close> on a byte read as a rune: the Latin-1 white space.\<close>

definition isSpace :: "char \<Rightarrow> bool" where
  "isSpace c \<longleftrightarrow> (of_char c :: nat) \<in> {9, 10, 11, 12, 13, 32, 133, 160}"

abbreviation quote :: char where
  "quote \<equiv> CHR 0x27"

section \<open>Lexer methods\<close>

type_synonym lex_state = "nat \<times> string"

definition skipSpace :: "lex_state \<Rightarrow> lex_state" where
  "skipSpace = (\<lambda>(pos, rest).
     (pos + length (takeWhile isSpace rest), dropWhile isSpace rest))"

text \<open>\<^verbatim>\<open>peekAt(1)\<close>: the byte after the current one, 0 past the end.\<close>

definition peek1 :: "string \<Rightarrow> char" where
  "peek1 rest = (case rest of _ # c # _ \<Rightarrow> c | _ \<Rightarrow> CHR 0x00)"

fun lexString_loop :: "nat \<Rightarrow> string \<Rightarrow> nat \<Rightarrow> string \<Rightarrow> (lex_error, token \<times> lex_state) result" where
  "lexString_loop start acc pos [] = Inl (UnterminatedString start)"
| "lexString_loop start acc pos [c] =
     (if c = quote
      then Inr (\<lparr>t_kind = tokString, t_text = acc, t_pos = start\<rparr>, pos + 1, [])
      else Inl (UnterminatedString start))"
| "lexString_loop start acc pos (c # d # cs) =
     (if c = quote
      then (if d = quote then lexString_loop start (acc @ [quote]) (pos + 2) cs
            else Inr (\<lparr>t_kind = tokString, t_text = acc, t_pos = start\<rparr>, pos + 1, d # cs))
      else lexString_loop start (acc @ [c]) (pos + 1) (d # cs))"

definition lexString :: "lex_state \<Rightarrow> (lex_error, token \<times> lex_state) result" where
  "lexString = (\<lambda>(pos, rest). lexString_loop pos [] (pos + 1) (tl rest))"

definition lexNumber :: "lex_state \<Rightarrow> (lex_error, token \<times> lex_state) result" where
  "lexNumber = (\<lambda>(pos, rest).
     let num = takeWhile (\<lambda>c. isDigit c \<or> c = CHR ''.'') rest
     in Inr (\<lparr>t_kind = tokNumber, t_text = num, t_pos = pos\<rparr>,
             pos + length num, dropWhile (\<lambda>c. isDigit c \<or> c = CHR ''.'') rest))"

definition keyword_kind :: "string \<Rightarrow> token_kind" where
  "keyword_kind s =
     (case map_of keyword_table (to_lower s) of Some k \<Rightarrow> k | None \<Rightarrow> tokIdent)"

definition lexIdent :: "lex_state \<Rightarrow> (lex_error, token \<times> lex_state) result" where
  "lexIdent = (\<lambda>(pos, rest).
     let word = takeWhile isIdentPart rest
     in Inr (\<lparr>t_kind = keyword_kind word, t_text = word, t_pos = pos\<rparr>,
             pos + length word, dropWhile isIdentPart rest))"

definition tok1 :: "token_kind \<Rightarrow> lex_state \<Rightarrow> (lex_error, token \<times> lex_state) result" where
  "tok1 k = (\<lambda>(pos, rest).
     Inr (\<lparr>t_kind = k, t_text = take 1 rest, t_pos = pos\<rparr>, pos + 1, drop 1 rest))"

definition tok2 :: "token_kind \<Rightarrow> lex_state \<Rightarrow> (lex_error, token \<times> lex_state) result" where
  "tok2 k = (\<lambda>(pos, rest).
     Inr (\<lparr>t_kind = k, t_text = take 2 rest, t_pos = pos\<rparr>, pos + 2, drop 2 rest))"

definition lex_next :: "lex_state \<Rightarrow> (lex_error, token \<times> lex_state) result" where
  "lex_next st0 =
     (let st = skipSpace st0; pos = fst st; rest = snd st in
      case rest of
        [] \<Rightarrow> Inr (\<lparr>t_kind = tokEOF, t_text = [], t_pos = pos\<rparr>, pos, [])
      | c # _ \<Rightarrow>
          if c = quote then lexString st
          else if c = CHR ''.'' then tok1 tokDot st
          else if c = CHR ''('' then tok1 tokLParen st
          else if c = CHR '')'' then tok1 tokRParen st
          else if c = CHR '','' then tok1 tokComma st
          else if c = CHR ''='' then tok1 tokEq st
          else if c = CHR ''!'' then
            (if peek1 rest = CHR ''='' then tok2 tokNeq st else Inl (UnexpectedChar c pos))
          else if c = CHR ''<'' then
            (if peek1 rest = CHR ''='' then tok2 tokLte st else tok1 tokLt st)
          else if c = CHR ''>'' then
            (if peek1 rest = CHR ''='' then tok2 tokGte st else tok1 tokGt st)
          else if isDigit c then lexNumber st
          else if isIdentStart c then lexIdent st
          else Inl (UnexpectedChar c pos))"

section \<open>Progress\<close>

lemma lexString_loop_shorter:
  "lexString_loop start acc pos rest = Inr (tok, pos', rest') \<Longrightarrow> length rest' < length rest"
  by (induction start acc pos rest rule: lexString_loop.induct) (fastforce split: if_splits)+

lemma lexString_loop_kind:
  "lexString_loop start acc pos rest = Inr (tok, st) \<Longrightarrow> t_kind tok = tokString"
  by (induction start acc pos rest rule: lexString_loop.induct) (auto split: if_splits)

lemma lexString_shorter:
  "lexString (pos, c # cs) = Inr (tok, pos', rest') \<Longrightarrow> length rest' < length (c # cs)"
  by (auto simp: lexString_def dest: lexString_loop_shorter)

lemma length_dropWhile_hd: "P c \<Longrightarrow> length (dropWhile P (c # cs)) < length (c # cs)"
  by (simp add: le_imp_less_Suc length_dropWhile_le)

lemma lexNumber_shorter:
  "isDigit c \<Longrightarrow> lexNumber (pos, c # cs) = Inr (tok, pos', rest') \<Longrightarrow>
     length rest' < length (c # cs)"
  using length_dropWhile_hd[of "\<lambda>c. isDigit c \<or> c = CHR ''.''" c cs]
  by (auto simp: lexNumber_def Let_def)

lemma lexIdent_shorter:
  "isIdentStart c \<Longrightarrow> lexIdent (pos, c # cs) = Inr (tok, pos', rest') \<Longrightarrow>
     length rest' < length (c # cs)"
  using length_dropWhile_hd[of isIdentPart c cs]
  by (auto simp: lexIdent_def isIdentPart_def Let_def)

lemma snd_skipSpace: "length (snd (skipSpace st)) \<le> length (snd st)"
  by (cases st) (simp add: skipSpace_def length_dropWhile_le)

text \<open>Every token but the end marker consumes input.\<close>

lemma lex_next_shorter:
  assumes "lex_next st = Inr (tok, pos', rest')" and "t_kind tok \<noteq> tokEOF"
  shows "length rest' < length (snd st)"
proof -
  obtain pos rest where st: "skipSpace st = (pos, rest)" by force
  show ?thesis
  proof (cases rest)
    case Nil
    with assms st show ?thesis by (auto simp: lex_next_def Let_def)
  next
    case (Cons c cs)
    have "length rest' < length (c # cs)"
      using assms st Cons lexString_shorter[of pos c cs tok pos' rest']
        lexNumber_shorter[of c pos cs tok pos' rest'] lexIdent_shorter[of c pos cs tok pos' rest']
      by (auto simp: lex_next_def Let_def tok1_def tok2_def split: if_splits)
    with Cons st snd_skipSpace[of st] show ?thesis by simp
  qed
qed

function tokenize :: "lex_state \<Rightarrow> (lex_error, token list) result" where
  "tokenize st =
     (case lex_next st of
        Inl e \<Rightarrow> Inl e
      | Inr (tok, st') \<Rightarrow>
          if t_kind tok = tokEOF then Inr [tok]
          else (case tokenize st' of Inl e \<Rightarrow> Inl e | Inr toks \<Rightarrow> Inr (tok # toks)))"
  by pat_completeness auto
termination
  by (relation "measure (\<lambda>st. length (snd st))") (auto dest: lex_next_shorter)

declare tokenize.simps [simp del]

text \<open>\<^verbatim>\<open>newLexer(src).tokenize()\<close>\<close>

definition lex :: "string \<Rightarrow> (lex_error, token list) result" where
  "lex src = tokenize (0, src)"

section \<open>The token stream\<close>

text \<open>A stream the parser can walk: an end marker, and only at the end.\<close>

definition stream :: "token list \<Rightarrow> bool" where
  "stream toks \<longleftrightarrow>
     toks \<noteq> [] \<and> t_kind (last toks) = tokEOF \<and> (\<forall>t \<in> set (butlast toks). t_kind t \<noteq> tokEOF)"

lemma stream_Cons:
  "stream (t # toks) \<longleftrightarrow>
     (if t_kind t = tokEOF then toks = [] else stream toks)"
  by (auto simp: stream_def)

lemma tokenize_stream: "tokenize st = Inr toks \<Longrightarrow> stream toks"
proof (induction st arbitrary: toks rule: tokenize.induct)
  case (1 st)
  from "1.prems" show ?case
    by (subst (asm) tokenize.simps)
       (auto simp: stream_Cons "1.IH" split: sum.splits prod.splits if_splits)
qed

section \<open>Lexing what was rendered\<close>

type_synonym lexeme = "token_kind \<times> string"

definition lexeme_of :: "token \<Rightarrow> lexeme" where
  "lexeme_of t = (t_kind t, t_text t)"

definition is_ident :: "string \<Rightarrow> bool" where
  "is_ident s \<longleftrightarrow> s \<noteq> [] \<and> isIdentStart (hd s) \<and> list_all isIdentPart s"

definition numeral_text :: "string \<Rightarrow> bool" where
  "numeral_text s \<longleftrightarrow> s \<noteq> [] \<and> isDigit (hd s) \<and> list_all (\<lambda>c. isDigit c \<or> c = CHR ''.'') s"

definition symbols :: "lexeme list" where
  "symbols =
     [(tokDot, ''.''), (tokLParen, ''(''), (tokRParen, '')''), (tokComma, '',''), (tokEq, ''=''),
      (tokNeq, ''!=''), (tokLt, ''<''), (tokGt, ''>''), (tokLte, ''<=''), (tokGte, ''>='')]"

fun valid_lexeme :: "lexeme \<Rightarrow> bool" where
  "valid_lexeme (k, s) \<longleftrightarrow>
     k = tokString \<or> (k = tokNumber \<and> numeral_text s) \<or> (k, s) \<in> set symbols \<or>
     (is_ident s \<and> keyword_kind s = k)"

fun render1 :: "lexeme \<Rightarrow> string" where
  "render1 (k, s) =
     (if k = tokString then quote # replace_char quote [quote, quote] s @ [quote] else s)"

definition render :: "lexeme list \<Rightarrow> string" where
  "render ls = concat (map (\<lambda>l. render1 l @ '' '') ls)"

lemma render_simps [simp]:
  "render [] = []"
  "render (l # ls) = render1 l @ CHR '' '' # render ls"
  by (simp_all add: render_def)

lemma keyword_kind_not_symbolic:
  "keyword_kind s \<noteq> tokEOF" "keyword_kind s \<noteq> tokString" "keyword_kind s \<noteq> tokNumber"
  by (auto simp: keyword_kind_def keyword_table_def split: option.splits if_splits)

text \<open>
  Quoting with doubled quotes is inverted by the string lexer, whatever follows the closing quote
  short of another quote.
\<close>

lemma lexString_loop_escaped:
  assumes "rest = [] \<or> hd rest \<noteq> quote"
  shows "\<exists>p. lexString_loop start acc pos (replace_char quote [quote, quote] s @ quote # rest) =
           Inr (\<lparr>t_kind = tokString, t_text = acc @ s, t_pos = start\<rparr>, p, rest)"
proof (induction s arbitrary: acc pos)
  case Nil
  with assms show ?case by (cases rest) auto
next
  case (Cons c s)
  let ?tail = "replace_char quote [quote, quote] s @ quote # rest"
  obtain d cs where tail: "?tail = d # cs" by (cases ?tail) auto
  show ?case
  proof (cases "c = quote")
    case True
    then show ?thesis using Cons.IH[of "acc @ [quote]" "pos + 2"] by simp
  next
    case False
    then show ?thesis using Cons.IH[of "acc @ [c]" "pos + 1"] tail by simp
  qed
qed

lemma lex_next_skip: "isSpace c \<Longrightarrow> lex_next (pos, c # rest) = lex_next (Suc pos, rest)"
  by (simp add: lex_next_def skipSpace_def Let_def)

lemma skipSpace_id: "\<not> isSpace c \<Longrightarrow> skipSpace (pos, c # cs) = (pos, c # cs)"
  by (simp add: skipSpace_def)

lemma isSpace_space: "isSpace CHR '' ''"
  by (simp add: isSpace_def)

lemma char_le_of_char: "c \<le> d \<longleftrightarrow> (of_char c :: nat) \<le> of_char d"
  by (simp add: less_eq_char_def)

lemma isIdentStart_facts:
  assumes "isIdentStart c"
  shows "\<not> isSpace c" "c \<noteq> quote" "c \<notin> set ''.(),=!<>''" "\<not> isDigit c"
  using assms by (auto simp: isIdentStart_def isSpace_def isDigit_def char_le_of_char)

lemma isDigit_facts:
  assumes "isDigit c"
  shows "\<not> isSpace c" "c \<noteq> quote" "c \<notin> set ''.(),=!<>''"
  using assms by (auto simp: isDigit_def isSpace_def char_le_of_char)

lemma not_part_space: "\<not> isIdentPart CHR '' ''" "\<not> (isDigit CHR '' '' \<or> CHR '' '' = CHR ''.'')"
  by (simp_all add: isIdentPart_def isIdentStart_def isDigit_def)

lemma takeWhile_run:
  "list_all P s \<Longrightarrow> \<not> P c \<Longrightarrow> takeWhile P (s @ c # rest) = s"
  "list_all P s \<Longrightarrow> \<not> P c \<Longrightarrow> dropWhile P (s @ c # rest) = c # rest"
  by (induction s) auto

lemma lex_next_ident:
  assumes "is_ident s"
  shows "\<exists>tok p. lex_next (pos, s @ CHR '' '' # rest) = Inr (tok, p, CHR '' '' # rest) \<and>
           lexeme_of tok = (keyword_kind s, s)"
proof -
  from assms obtain c cs where s: "s = c # cs" and c: "isIdentStart c"
    and parts: "list_all isIdentPart s"
    by (cases s) (auto simp: is_ident_def)
  have run: "takeWhile isIdentPart (s @ CHR '' '' # rest) = s"
    "dropWhile isIdentPart (s @ CHR '' '' # rest) = CHR '' '' # rest"
    using takeWhile_run[OF parts not_part_space(1)] by auto
  have "lex_next (pos, s @ CHR '' '' # rest) = lexIdent (pos, s @ CHR '' '' # rest)"
    using s c isIdentStart_facts[OF c] by (simp add: lex_next_def Let_def skipSpace_id)
  with run show ?thesis by (simp add: lexIdent_def Let_def lexeme_of_def)
qed

lemma lex_next_number:
  assumes "numeral_text s"
  shows "\<exists>tok p. lex_next (pos, s @ CHR '' '' # rest) = Inr (tok, p, CHR '' '' # rest) \<and>
           lexeme_of tok = (tokNumber, s)"
proof -
  let ?P = "\<lambda>c. isDigit c \<or> c = CHR ''.''"
  from assms obtain c cs where s: "s = c # cs" and c: "isDigit c" and parts: "list_all ?P s"
    by (cases s) (auto simp: numeral_text_def)
  have run: "takeWhile ?P (s @ CHR '' '' # rest) = s"
    "dropWhile ?P (s @ CHR '' '' # rest) = CHR '' '' # rest"
    using takeWhile_run[OF parts not_part_space(2)] by auto
  have "lex_next (pos, s @ CHR '' '' # rest) = lexNumber (pos, s @ CHR '' '' # rest)"
    using s c isDigit_facts[OF c] by (simp add: lex_next_def Let_def skipSpace_id)
  with run show ?thesis by (simp add: lexNumber_def Let_def lexeme_of_def)
qed

lemma lex_next_string:
  "\<exists>tok p. lex_next (pos, render1 (tokString, s) @ CHR '' '' # rest) = Inr (tok, p, CHR '' '' # rest) \<and>
     lexeme_of tok = (tokString, s)"
proof -
  obtain p where "lexString_loop pos [] (pos + 1)
      (replace_char quote [quote, quote] s @ quote # CHR '' '' # rest) =
      Inr (\<lparr>t_kind = tokString, t_text = [] @ s, t_pos = pos\<rparr>, p, CHR '' '' # rest)"
    using lexString_loop_escaped[of "CHR '' '' # rest" pos "[]" "pos + 1" s] by auto
  moreover have "\<not> isSpace quote" by (simp add: isSpace_def)
  ultimately show ?thesis
    by (simp add: lex_next_def Let_def skipSpace_id lexString_def lexeme_of_def)
qed

lemma lex_next_symbol:
  "(k, s) \<in> set symbols \<Longrightarrow>
     \<exists>tok p. lex_next (pos, s @ CHR '' '' # rest) = Inr (tok, p, CHR '' '' # rest) \<and>
       lexeme_of tok = (k, s)"
  by (auto simp: symbols_def lex_next_def Let_def skipSpace_def isSpace_def tok1_def tok2_def
      peek1_def lexeme_of_def)

lemma lex_next_lexeme:
  assumes "valid_lexeme l"
  shows "\<exists>tok p. lex_next (pos, render1 l @ CHR '' '' # rest) = Inr (tok, p, CHR '' '' # rest) \<and>
           lexeme_of tok = l"
proof (cases l)
  case (Pair k s)
  consider "k = tokString" | "k = tokNumber" "numeral_text s" | "k \<noteq> tokString" "(k, s) \<in> set symbols"
    | "k \<noteq> tokString" "is_ident s" "keyword_kind s = k"
    using assms Pair by (cases "k = tokString") auto
  then show ?thesis
  proof cases
    case 1
    then show ?thesis using Pair lex_next_string by simp
  next
    case 2
    then show ?thesis using Pair lex_next_number[of s pos rest] by simp
  next
    case 3
    then show ?thesis using Pair lex_next_symbol[of k s pos rest] by simp
  next
    case 4
    then show ?thesis using Pair lex_next_ident[of s pos rest] by simp
  qed
qed

lemma valid_lexeme_not_EOF: "valid_lexeme l \<Longrightarrow> fst l \<noteq> tokEOF"
  by (cases l) (use keyword_kind_not_symbolic in \<open>auto simp: symbols_def\<close>)

lemma tokenize_skip: "isSpace c \<Longrightarrow> tokenize (pos, c # rest) = tokenize (Suc pos, rest)"
  by (subst (1 2) tokenize.simps) (simp add: lex_next_skip)

lemma tokenize_render:
  "list_all valid_lexeme ls \<Longrightarrow>
     \<exists>toks. tokenize (pos, render ls) = Inr toks \<and> map lexeme_of toks = ls @ [(tokEOF, [])]"
proof (induction ls arbitrary: pos)
  case Nil
  have "lex_next (pos, []) = Inr (\<lparr>t_kind = tokEOF, t_text = [], t_pos = pos\<rparr>, pos, [])"
    by (simp add: lex_next_def skipSpace_def)
  then show ?case
    by (subst tokenize.simps) (simp add: lexeme_of_def)
next
  case (Cons l ls)
  then have l: "valid_lexeme l" and ls: "list_all valid_lexeme ls" by simp_all
  obtain tok p where tok: "lexeme_of tok = l"
    and step: "lex_next (pos, render (l # ls)) = Inr (tok, p, CHR '' '' # render ls)"
    using lex_next_lexeme[OF l, of pos "render ls"] by auto
  from tok valid_lexeme_not_EOF[OF l] have "t_kind tok \<noteq> tokEOF"
    by (auto simp: lexeme_of_def)
  moreover obtain toks where "tokenize (Suc p, render ls) = Inr toks"
    and "map lexeme_of toks = ls @ [(tokEOF, [])]"
    using Cons.IH[OF ls] by blast
  ultimately show ?case
    using step tok by (subst tokenize.simps) (simp add: tokenize_skip isSpace_space)
qed

end
