(* ===== verification/Domain_Parser.thy ===== *)
theory Domain_Parser
  imports Domain_Lexer
begin

text \<open>
  The recursive-descent parser of the domain language
  (\<^verbatim>\<open>internal/engine/domain/parser.go\<close>), one definition per method. The Go parser holds the token
  slice and an index; here a parsing function takes the unread tokens \<^verbatim>\<open>toks[pos:]\<close> and returns
  the tokens left over. The slice always ends in the end marker and \<^verbatim>\<open>advance\<close> never moves past
  it.

  The methods call each other in a cycle through \<^verbatim>\<open>parsePrimary\<close>, which calls \<^verbatim>\<open>parseOr\<close> on a
  parenthesis. Every method below \<^verbatim>\<open>parseOr\<close> takes that recursive call as its argument \<^verbatim>\<open>rec\<close>, and
  \<^verbatim>\<open>parseOr\<close> ties the knot over a nesting bound; each \<^verbatim>\<open>for\<close> loop is bounded by the number of
  tokens left. The locale \<open>sub_parser\<close> states what a method may assume of \<^verbatim>\<open>rec\<close> (it consumes
  tokens, and it does not exhaust its bound on short enough input); its interpretation on
  \<^verbatim>\<open>parseOr\<close> shows that the bounds \<^verbatim>\<open>Parse\<close> uses are always enough.
\<close>

datatype parse_error =
    LexError lex_error
  | UnexpectedToken string nat
  | ExpectedToken string nat string
  | TreeNeedsRecord string nat
  | BareRecord nat string
  | UnknownIdentifier string nat
  | OutOfFuel

type_synonym tokens = "token list"
type_synonym presult = "(parse_error, expr \<times> tokens) result"

section \<open>Parser methods\<close>

definition cur :: "tokens \<Rightarrow> token" where
  "cur toks =
     (case toks of t # _ \<Rightarrow> t | [] \<Rightarrow> \<lparr>t_kind = tokEOF, t_text = [], t_pos = 0\<rparr>)"

definition advance :: "tokens \<Rightarrow> tokens" where
  "advance toks = (case toks of _ # u # ts \<Rightarrow> u # ts | _ \<Rightarrow> toks)"

abbreviation kind :: "tokens \<Rightarrow> token_kind" where
  "kind toks \<equiv> t_kind (cur toks)"

definition expect :: "token_kind \<Rightarrow> string \<Rightarrow> tokens \<Rightarrow> (parse_error, token \<times> tokens) result" where
  "expect k what toks =
     (if kind toks \<noteq> k then Inl (ExpectedToken what (t_pos (cur toks)) (t_text (cur toks)))
      else Inr (cur toks, advance toks))"

definition quoted :: "string \<Rightarrow> string" where
  "quoted s = quote # s @ [quote]"

definition isBareRecord :: "expr \<Rightarrow> bool" where
  "isBareRecord e \<longleftrightarrow> e = RecordField []"

definition parseCall :: "(string \<Rightarrow> expr) \<Rightarrow> tokens \<Rightarrow> presult" where
  "parseCall build toks =
     and_then (expect tokLParen (quoted ''('') toks) (\<lambda>(_, toks1).
     and_then (expect tokString ''string literal argument'' toks1) (\<lambda>(arg, toks2).
     and_then (expect tokRParen (quoted '')'') toks2) (\<lambda>(_, toks3).
     Inr (build (t_text arg), toks3))))"

text \<open>\<^verbatim>\<open>current_user.x\<close>, \<^verbatim>\<open>user.x\<close> and \<^verbatim>\<open>tenant.x\<close>: a dot and a name.\<close>

definition parseAttr :: "(string \<Rightarrow> expr) \<Rightarrow> string \<Rightarrow> tokens \<Rightarrow> presult" where
  "parseAttr build what toks =
     and_then (expect tokDot (quoted ''.'') toks) (\<lambda>(_, toks1).
     and_then (expect tokIdent what toks1) (\<lambda>(name, toks2).
     Inr (build (t_text name), toks2)))"

definition parseIdentExpr :: "tokens \<Rightarrow> presult" where
  "parseIdentExpr toks0 =
     (let name = t_text (cur toks0); toks = advance toks0 in
      if name = ''record'' then
        (if kind toks = tokDot then
           and_then (expect tokIdent ''field name'' (advance toks)) (\<lambda>(field, toks1).
             Inr (RecordField (t_text field), toks1))
         else if kind toks \<noteq> tokChildOf \<and> kind toks \<noteq> tokParentOf then
           Inl (BareRecord (t_pos (cur toks)) (t_text (cur toks)))
         else Inr (RecordField [], toks))
      else if name = ''current_user'' \<or> name = ''user'' then
        parseAttr UserAttr ''attribute name'' toks
      else if name = ''tenant'' then parseAttr TenantAttr ''field name'' toks
      else if name = ''user_has_role'' then parseCall RoleCheck toks
      else if name = ''user_has_permission'' then parseCall PermCheck toks
      else Inl (UnknownIdentifier name (t_pos (cur toks0))))"

definition parsePrimary :: "(tokens \<Rightarrow> presult) \<Rightarrow> tokens \<Rightarrow> presult" where
  "parsePrimary rec toks =
     (case kind toks of
        tokLParen \<Rightarrow>
          and_then (rec (advance toks)) (\<lambda>(e, toks1).
          and_then (expect tokRParen (quoted '')'') toks1) (\<lambda>(_, toks2). Inr (e, toks2)))
      | tokTrue \<Rightarrow> Inr (Literal (LBool True), advance toks)
      | tokFalse \<Rightarrow> Inr (Literal (LBool False), advance toks)
      | tokNull \<Rightarrow> Inr (Literal LNull, advance toks)
      | tokString \<Rightarrow> Inr (Literal (LString (t_text (cur toks))), advance toks)
      | tokNumber \<Rightarrow> Inr (Literal (LNumber (t_text (cur toks))), advance toks)
      | tokIdent \<Rightarrow> parseIdentExpr toks
      | _ \<Rightarrow> Inl (UnexpectedToken (t_text (cur toks)) (t_pos (cur toks))))"

text \<open>
  The \<^verbatim>\<open>for\<close> loops of the operator levels: while the step applies to the current token, the
  operand built so far is replaced. The step returns \<^const>\<open>None\<close> when the loop ends.
\<close>

fun op_loop :: "(expr \<Rightarrow> tokens \<Rightarrow> presult option) \<Rightarrow> nat \<Rightarrow> expr \<Rightarrow> tokens \<Rightarrow> presult" where
  "op_loop step 0 left toks =
     (case step left toks of None \<Rightarrow> Inr (left, toks) | Some _ \<Rightarrow> Inl OutOfFuel)"
| "op_loop step (Suc n) left toks =
     (case step left toks of
        None \<Rightarrow> Inr (left, toks)
      | Some r \<Rightarrow> and_then r (\<lambda>(left', toks'). op_loop step n left' toks'))"

definition loop_after :: "(tokens \<Rightarrow> presult) \<Rightarrow> (expr \<Rightarrow> tokens \<Rightarrow> presult option) \<Rightarrow> tokens \<Rightarrow> presult" where
  "loop_after operand step toks =
     and_then (operand toks) (\<lambda>(left, rest). op_loop step (length rest) left rest)"

definition infix_step :: "(tokens \<Rightarrow> presult) \<Rightarrow> string \<Rightarrow> expr \<Rightarrow> tokens \<Rightarrow> presult" where
  "infix_step operand oper left toks =
     and_then (operand (advance toks)) (\<lambda>(right, rest). Inr (BinaryExpr oper left right, rest))"

definition comparisonOps :: "token_kind \<Rightarrow> string option" where
  "comparisonOps k = map_of
     [(tokEq, ''=''), (tokNeq, ''!=''), (tokLt, ''<''), (tokGt, ''>''), (tokLte, ''<=''),
      (tokGte, ''>='')] k"

definition comparison_step :: "(tokens \<Rightarrow> presult) \<Rightarrow> expr \<Rightarrow> tokens \<Rightarrow> presult option" where
  "comparison_step rec left toks =
     map_option (\<lambda>oper. infix_step (parsePrimary rec) oper left toks) (comparisonOps (kind toks))"

definition parseComparison :: "(tokens \<Rightarrow> presult) \<Rightarrow> tokens \<Rightarrow> presult" where
  "parseComparison rec = loop_after (parsePrimary rec) (comparison_step rec)"

definition like_step :: "(tokens \<Rightarrow> presult) \<Rightarrow> expr \<Rightarrow> tokens \<Rightarrow> presult option" where
  "like_step rec left toks =
     (if kind toks = tokLike then Some (infix_step (parseComparison rec) ''LIKE'' left toks)
      else if kind toks = tokIlike then Some (infix_step (parseComparison rec) ''ILIKE'' left toks)
      else None)"

definition parseLikeIlike :: "(tokens \<Rightarrow> presult) \<Rightarrow> tokens \<Rightarrow> presult" where
  "parseLikeIlike rec = loop_after (parseComparison rec) (like_step rec)"

definition isnull_step :: "expr \<Rightarrow> tokens \<Rightarrow> presult option" where
  "isnull_step left toks =
     (if kind toks \<noteq> tokIs then None
      else Some
        (let toks1 = advance toks; neg = (kind toks1 = tokNot);
             toks2 = (if neg then advance toks1 else toks1)
         in and_then (expect tokNull (quoted ''NULL'') toks2) (\<lambda>(_, toks3).
              Inr (IsNullExpr left neg, toks3))))"

definition parseIsNull :: "(tokens \<Rightarrow> presult) \<Rightarrow> tokens \<Rightarrow> presult" where
  "parseIsNull rec = loop_after (parseLikeIlike rec) isnull_step"

text \<open>The value list of \<^verbatim>\<open>IN\<close>: values separated by commas, at least one.\<close>

fun in_values :: "(tokens \<Rightarrow> presult) \<Rightarrow> nat \<Rightarrow> tokens \<Rightarrow> (parse_error, expr list \<times> tokens) result" where
  "in_values rec 0 toks = Inl OutOfFuel"
| "in_values rec (Suc n) toks =
     and_then (parseIsNull rec toks) (\<lambda>(v, toks1).
       if kind toks1 = tokComma then
         and_then (in_values rec n (advance toks1)) (\<lambda>(vs, toks2). Inr (v # vs, toks2))
       else Inr ([v], toks1))"

definition in_step :: "(tokens \<Rightarrow> presult) \<Rightarrow> expr \<Rightarrow> tokens \<Rightarrow> presult option" where
  "in_step rec left toks =
     (if kind toks \<noteq> tokIn then None
      else Some
        (and_then (expect tokLParen (quoted ''('') (advance toks)) (\<lambda>(_, toks1).
         and_then (in_values rec (length toks1) toks1) (\<lambda>(vs, toks2).
         and_then (expect tokRParen (quoted '')'') toks2) (\<lambda>(_, toks3).
         Inr (InExpr left vs, toks3))))))"

definition parseIn :: "(tokens \<Rightarrow> presult) \<Rightarrow> tokens \<Rightarrow> presult" where
  "parseIn rec = loop_after (parseIsNull rec) (in_step rec)"

definition childof_step :: "(tokens \<Rightarrow> presult) \<Rightarrow> expr \<Rightarrow> tokens \<Rightarrow> presult option" where
  "childof_step rec left toks =
     (if kind toks \<noteq> tokChildOf \<and> kind toks \<noteq> tokParentOf then None
      else if \<not> isBareRecord left then
        Some (Inl (TreeNeedsRecord (t_text (cur toks)) (t_pos (cur toks))))
      else
        (let oper = (if kind toks = tokParentOf then ''parent_of'' else ''child_of'') in
         Some (and_then (parseIn rec (advance toks)) (\<lambda>(target, rest).
           Inr (TreeExpr oper target, rest)))))"

definition parseChildOf :: "(tokens \<Rightarrow> presult) \<Rightarrow> tokens \<Rightarrow> presult" where
  "parseChildOf rec = loop_after (parseIn rec) (childof_step rec)"

fun not_chain :: "(tokens \<Rightarrow> presult) \<Rightarrow> nat \<Rightarrow> tokens \<Rightarrow> presult" where
  "not_chain rec 0 toks = (if kind toks \<noteq> tokNot then parseChildOf rec toks else Inl OutOfFuel)"
| "not_chain rec (Suc n) toks =
     (if kind toks \<noteq> tokNot then parseChildOf rec toks
      else and_then (not_chain rec n (advance toks)) (\<lambda>(operand, rest).
        Inr (UnaryExpr ''NOT'' operand, rest)))"

definition parseNot :: "(tokens \<Rightarrow> presult) \<Rightarrow> tokens \<Rightarrow> presult" where
  "parseNot rec toks = not_chain rec (length toks) toks"

definition and_step :: "(tokens \<Rightarrow> presult) \<Rightarrow> expr \<Rightarrow> tokens \<Rightarrow> presult option" where
  "and_step rec left toks =
     (if kind toks = tokAnd then Some (infix_step (parseNot rec) ''AND'' left toks) else None)"

definition parseAnd :: "(tokens \<Rightarrow> presult) \<Rightarrow> tokens \<Rightarrow> presult" where
  "parseAnd rec = loop_after (parseNot rec) (and_step rec)"

definition or_step :: "(tokens \<Rightarrow> presult) \<Rightarrow> expr \<Rightarrow> tokens \<Rightarrow> presult option" where
  "or_step rec left toks =
     (if kind toks = tokOr then Some (infix_step (parseAnd rec) ''OR'' left toks) else None)"

fun parseOr :: "nat \<Rightarrow> tokens \<Rightarrow> presult" where
  "parseOr 0 toks = Inl OutOfFuel"
| "parseOr (Suc n) toks = loop_after (parseAnd (parseOr n)) (or_step (parseOr n)) toks"

definition parse_tokens :: "tokens \<Rightarrow> (parse_error, expr) result" where
  "parse_tokens toks =
     and_then (parseOr (length toks) toks) (\<lambda>(e, rest).
       if kind rest \<noteq> tokEOF then Inl (UnexpectedToken (t_text (cur rest)) (t_pos (cur rest)))
       else Inr e)"

definition Parse :: "string \<Rightarrow> (parse_error, expr) result" where
  "Parse src =
     (case lex src of Inl e \<Rightarrow> Inl (LexError e) | Inr toks \<Rightarrow> parse_tokens toks)"

section \<open>Token streams under the primitive steps\<close>

lemma cur_Cons [simp]: "cur (t # ts) = t"
  by (simp add: cur_def)

lemma advance_stream:
  "stream toks \<Longrightarrow> kind toks \<noteq> tokEOF \<Longrightarrow> stream (advance toks) \<and> length (advance toks) < length toks"
  by (cases toks) (auto simp: advance_def stream_Cons split: list.splits, auto simp: stream_def)

lemma expect_Inr:
  "expect k what toks = Inr (t, rest) \<longleftrightarrow> kind toks = k \<and> t = cur toks \<and> rest = advance toks"
  by (auto simp: expect_def)

lemma expect_fuel [simp]: "expect k what toks \<noteq> Inl OutOfFuel"
  by (simp add: expect_def)

lemma expect_stream:
  "stream toks \<Longrightarrow> k \<noteq> tokEOF \<Longrightarrow> expect k what toks = Inr (t, rest) \<Longrightarrow>
     stream rest \<and> length rest < length toks"
  using advance_stream by (auto simp: expect_Inr)

text \<open>What a parsing function promises: it returns a shorter stream.\<close>

definition consumes :: "(tokens \<Rightarrow> presult) \<Rightarrow> bool" where
  "consumes p \<longleftrightarrow>
     (\<forall>toks e rest. stream toks \<longrightarrow> p toks = Inr (e, rest) \<longrightarrow> stream rest \<and> length rest < length toks)"

definition enough :: "nat \<Rightarrow> (tokens \<Rightarrow> presult) \<Rightarrow> bool" where
  "enough n p \<longleftrightarrow> (\<forall>toks. stream toks \<longrightarrow> length toks \<le> n \<longrightarrow> p toks \<noteq> Inl OutOfFuel)"

lemma consumesD:
  "consumes p \<Longrightarrow> stream toks \<Longrightarrow> p toks = Inr (e, rest) \<Longrightarrow> stream rest \<and> length rest < length toks"
  by (simp add: consumes_def)

lemma enoughD: "enough n p \<Longrightarrow> stream toks \<Longrightarrow> length toks \<le> n \<Longrightarrow> p toks \<noteq> Inl OutOfFuel"
  by (simp add: enough_def)

definition step_ok :: "nat \<Rightarrow> (expr \<Rightarrow> tokens \<Rightarrow> presult option) \<Rightarrow> bool" where
  "step_ok n step \<longleftrightarrow>
     (\<forall>left toks r. stream toks \<longrightarrow> step left toks = Some r \<longrightarrow>
        (\<forall>e rest. r = Inr (e, rest) \<longrightarrow> stream rest \<and> length rest < length toks) \<and>
        (length toks \<le> n \<longrightarrow> r \<noteq> Inl OutOfFuel))"

lemma step_okD:
  assumes "step_ok n step" "stream toks" "step left toks = Some r"
  shows "r = Inr (e, rest) \<Longrightarrow> stream rest \<and> length rest < length toks"
    and "length toks \<le> n \<Longrightarrow> r \<noteq> Inl OutOfFuel"
  using assms by (auto simp: step_ok_def)

section \<open>Loops and levels keep the contract\<close>

lemma op_loop_consumes:
  "step_ok n step \<Longrightarrow> stream toks \<Longrightarrow> op_loop step k left toks = Inr (e, rest) \<Longrightarrow>
     stream rest \<and> length rest \<le> length toks"
proof (induction step k left toks rule: op_loop.induct)
  case (1 step left toks)
  then show ?case by (auto split: option.splits)
next
  case (2 step k left toks)
  show ?case
  proof (cases "step left toks")
    case None
    with "2.prems" show ?thesis by auto
  next
    case (Some r)
    with "2.prems" obtain l t where r: "r = Inr (l, t)" and more: "op_loop step k l t = Inr (e, rest)"
      by (auto simp: and_then_Inr_iff)
    from step_okD(1)[OF "2.prems"(1,2) Some r] have "stream t" "length t < length toks"
      by auto
    moreover have "stream rest \<and> length rest \<le> length t"
      using "2.IH"[OF Some r refl "2.prems"(1) \<open>stream t\<close> more] .
    ultimately show ?thesis by auto
  qed
qed

lemma op_loop_enough:
  "step_ok n step \<Longrightarrow> stream toks \<Longrightarrow> length toks \<le> k \<Longrightarrow> length toks \<le> n \<Longrightarrow>
     op_loop step k left toks \<noteq> Inl OutOfFuel"
proof (induction step k left toks rule: op_loop.induct)
  case (1 step left toks)
  then show ?case by (simp add: stream_def)
next
  case (2 step k left toks)
  show ?case
  proof (cases "step left toks")
    case None
    then show ?thesis by simp
  next
    case (Some r)
    note facts = step_okD[OF "2.prems"(1,2) Some]
    show ?thesis
    proof (cases r)
      case (Inl err)
      with facts(2) "2.prems"(4) Some show ?thesis by auto
    next
      case (Inr lt)
      obtain l t where lt: "lt = (l, t)" by force
      with facts(1) Inr have t: "stream t" "length t < length toks" by auto
      with "2.prems" have "op_loop step k l t \<noteq> Inl OutOfFuel"
        using "2.IH"[OF Some _ lt[symmetric]] Inr lt by auto
      with Some Inr lt show ?thesis by simp
    qed
  qed
qed

lemma loop_after_consumes:
  "consumes operand \<Longrightarrow> step_ok n step \<Longrightarrow> consumes (loop_after operand step)"
  unfolding consumes_def loop_after_def
  by (fastforce simp: and_then_Inr_iff dest: op_loop_consumes)

lemma loop_after_enough:
  assumes "consumes operand" "enough n operand" "step_ok n step"
  shows "enough n (loop_after operand step)"
  unfolding enough_def
proof (intro allI impI)
  fix toks
  assume toks: "stream toks" "length toks \<le> n"
  show "loop_after operand step toks \<noteq> Inl OutOfFuel"
  proof (cases "operand toks")
    case (Inl err)
    with enoughD[OF assms(2) toks] show ?thesis by (simp add: loop_after_def)
  next
    case (Inr lt)
    obtain l t where lt: "lt = (l, t)" by force
    with consumesD[OF assms(1) toks(1)] Inr have "stream t" "length t < length toks" by auto
    with op_loop_enough[OF assms(3), of t "length t" l] toks Inr lt show ?thesis
      by (simp add: loop_after_def)
  qed
qed

lemma infix_step_ok:
  assumes "consumes operand" "enough n operand" "stream toks" "kind toks \<noteq> tokEOF"
  shows "infix_step operand oper left toks = Inr (e, rest) \<Longrightarrow> stream rest \<and> length rest < length toks"
    and "length toks \<le> Suc n \<Longrightarrow> infix_step operand oper left toks \<noteq> Inl OutOfFuel"
proof -
  have adv: "stream (advance toks)" "length (advance toks) < length toks"
    using advance_stream[OF assms(3,4)] by auto
  show "infix_step operand oper left toks = Inr (e, rest) \<Longrightarrow> stream rest \<and> length rest < length toks"
    using consumesD[OF assms(1) adv(1)] adv(2)
    by (fastforce simp: infix_step_def and_then_Inr_iff)
  show "infix_step operand oper left toks \<noteq> Inl OutOfFuel" if "length toks \<le> Suc n"
    using enoughD[OF assms(2) adv(1)] adv(2) that
    by (cases "operand (advance toks)") (auto simp: infix_step_def)
qed

lemma infix_steps_ok:
  assumes "consumes operand" "enough n operand"
    and steps: "\<And>left toks r. step left toks = Some r \<Longrightarrow>
      kind toks \<noteq> tokEOF \<and> (\<exists>oper. r = infix_step operand oper left toks)"
  shows "step_ok n step"
  unfolding step_ok_def
proof (intro allI impI)
  fix left toks r
  assume toks: "stream toks" and "step left toks = Some r"
  then obtain oper where r: "r = infix_step operand oper left toks" and k: "kind toks \<noteq> tokEOF"
    using steps by blast
  show "(\<forall>e rest. r = Inr (e, rest) \<longrightarrow> stream rest \<and> length rest < length toks) \<and>
        (length toks \<le> n \<longrightarrow> r \<noteq> Inl OutOfFuel)"
    using infix_step_ok[OF assms(1,2) toks k] r by auto
qed

lemma comparisonOps_EOF: "comparisonOps tokEOF = None"
  by (simp add: comparisonOps_def)

lemma parseAttr_Inr:
  "parseAttr build what toks = Inr (e, rest) \<longleftrightarrow>
     kind toks = tokDot \<and> kind (advance toks) = tokIdent \<and>
     e = build (t_text (cur (advance toks))) \<and> rest = advance (advance toks)"
  by (auto simp: parseAttr_def and_then_Inr_iff expect_Inr)

lemma parseCall_Inr:
  "parseCall build toks = Inr (e, rest) \<longleftrightarrow>
     kind toks = tokLParen \<and> kind (advance toks) = tokString \<and>
     kind (advance (advance toks)) = tokRParen \<and>
     e = build (t_text (cur (advance toks))) \<and> rest = advance (advance (advance toks))"
  by (auto simp: parseCall_def and_then_Inr_iff expect_Inr)

lemma parseAttr_fuel [simp]: "parseAttr build what toks \<noteq> Inl OutOfFuel"
  by (auto simp: parseAttr_def and_then_Inl_iff)

lemma parseCall_fuel [simp]: "parseCall build toks \<noteq> Inl OutOfFuel"
  by (auto simp: parseCall_def and_then_Inl_iff)

lemma parseIdentExpr_fuel [simp]: "parseIdentExpr toks \<noteq> Inl OutOfFuel"
  by (auto simp: parseIdentExpr_def Let_def and_then_Inl_iff)

lemma advance_twice:
  "stream toks \<Longrightarrow> kind toks \<noteq> tokEOF \<Longrightarrow> kind (advance toks) \<noteq> tokEOF \<Longrightarrow>
     stream (advance (advance toks)) \<and> length (advance (advance toks)) < length toks"
  using advance_stream[of toks] advance_stream[of "advance toks"] by auto

lemma advance_thrice:
  "stream toks \<Longrightarrow> kind toks \<noteq> tokEOF \<Longrightarrow> kind (advance toks) \<noteq> tokEOF \<Longrightarrow>
   kind (advance (advance toks)) \<noteq> tokEOF \<Longrightarrow>
     stream (advance (advance (advance toks))) \<and>
     length (advance (advance (advance toks))) < length toks"
  using advance_twice[of toks] advance_stream[of "advance (advance toks)"] by auto

lemma parseIdentExpr_consumes:
  assumes "stream toks" "kind toks \<noteq> tokEOF" "parseIdentExpr toks = Inr (e, rest)"
  shows "stream rest \<and> length rest < length toks"
proof -
  let ?t = "advance toks"
  have t: "stream ?t" "length ?t < length toks"
    using advance_stream[OF assms(1,2)] by auto
  show ?thesis
    using assms(3) t advance_twice[OF t(1)] advance_thrice[OF t(1)]
    by (fastforce simp: parseIdentExpr_def Let_def parseAttr_Inr parseCall_Inr and_then_Inr_iff
        expect_Inr split: if_splits)
qed

section \<open>The recursive call\<close>

locale sub_parser =
  fixes rec :: "tokens \<Rightarrow> presult" and n :: nat
  assumes rec_consumes: "consumes rec"
    and rec_enough: "enough n rec"
begin

lemma primary_consumes: "consumes (parsePrimary rec)"
  unfolding consumes_def
proof (intro allI impI)
  fix toks e rest
  assume toks: "stream toks" and p: "parsePrimary rec toks = Inr (e, rest)"
  then have k: "kind toks \<noteq> tokEOF" by (auto simp: parsePrimary_def)
  show "stream rest \<and> length rest < length toks"
  proof (cases "kind toks = tokLParen")
    case True
    with p obtain toks1 where r: "rec (advance toks) = Inr (e, toks1)"
      and "kind toks1 = tokRParen" "rest = advance toks1"
      by (auto simp: parsePrimary_def and_then_Inr_iff expect_Inr)
    moreover have "stream toks1" "length toks1 < length toks"
      using consumesD[OF rec_consumes _ r] advance_stream[OF toks k] by auto
    ultimately show ?thesis using advance_stream[of toks1] by auto
  next
    case False
    with p toks k show ?thesis
      using advance_stream[OF toks k] parseIdentExpr_consumes[OF toks k, of e rest]
      by (cases "kind toks") (auto simp: parsePrimary_def)
  qed
qed

lemma primary_enough: "enough (Suc n) (parsePrimary rec)"
  unfolding enough_def
proof (intro allI impI)
  fix toks
  assume toks: "stream toks" "length toks \<le> Suc n"
  show "parsePrimary rec toks \<noteq> Inl OutOfFuel"
  proof (cases "kind toks = tokLParen")
    case True
    then have "rec (advance toks) \<noteq> Inl OutOfFuel"
      using advance_stream[OF toks(1)] toks(2) enoughD[OF rec_enough, of "advance toks"] by auto
    with True show ?thesis
      by (auto simp: parsePrimary_def and_then_Inl_iff)
  next
    case False
    then show ?thesis
      by (cases "kind toks") (auto simp: parsePrimary_def)
  qed
qed

lemma comparison_step_ok: "step_ok (Suc n) (comparison_step rec)"
  using comparisonOps_EOF
  by (intro infix_steps_ok[OF primary_consumes primary_enough])
     (auto simp: comparison_step_def split: option.splits)

lemma comparison_consumes: "consumes (parseComparison rec)"
  and comparison_enough: "enough (Suc n) (parseComparison rec)"
  unfolding parseComparison_def
  using loop_after_consumes[OF primary_consumes comparison_step_ok]
    loop_after_enough[OF primary_consumes primary_enough comparison_step_ok] .

lemma like_step_ok: "step_ok (Suc n) (like_step rec)"
  by (intro infix_steps_ok[OF comparison_consumes comparison_enough])
     (auto simp: like_step_def split: if_splits)

lemma likeIlike_consumes: "consumes (parseLikeIlike rec)"
  and likeIlike_enough: "enough (Suc n) (parseLikeIlike rec)"
  unfolding parseLikeIlike_def
  using loop_after_consumes[OF comparison_consumes like_step_ok]
    loop_after_enough[OF comparison_consumes comparison_enough like_step_ok] .

lemma isnull_step_ok: "step_ok m isnull_step"
  unfolding step_ok_def
proof (intro allI impI)
  fix left toks r
  assume toks: "stream toks" and step: "isnull_step left toks = Some r"
  then have k: "kind toks = tokIs" by (auto simp: isnull_step_def split: if_splits)
  have adv: "stream (advance toks)" "length (advance toks) < length toks"
    using advance_stream[OF toks] k by auto
  show "(\<forall>e rest. r = Inr (e, rest) \<longrightarrow> stream rest \<and> length rest < length toks) \<and>
        (length toks \<le> m \<longrightarrow> r \<noteq> Inl OutOfFuel)"
    using step k adv advance_stream[OF adv(1)] advance_twice[OF adv(1)]
    by (auto simp: isnull_step_def Let_def and_then_Inr_iff and_then_Inl_iff expect_Inr
        split: if_splits)
qed

lemma isNull_consumes: "consumes (parseIsNull rec)"
  and isNull_enough: "enough (Suc n) (parseIsNull rec)"
  unfolding parseIsNull_def
  using loop_after_consumes[OF likeIlike_consumes isnull_step_ok]
    loop_after_enough[OF likeIlike_consumes likeIlike_enough isnull_step_ok] .

lemma in_values_consumes:
  "stream toks \<Longrightarrow> in_values rec k toks = Inr (vs, rest) \<Longrightarrow> stream rest \<and> length rest < length toks"
proof (induction k arbitrary: toks vs)
  case 0
  then show ?case by simp
next
  case (Suc k)
  from Suc.prems(2) obtain v toks1 where v: "parseIsNull rec toks = Inr (v, toks1)"
    and more: "(if kind toks1 = tokComma
        then and_then (in_values rec k (advance toks1)) (\<lambda>(vs, toks2). Inr (v # vs, toks2))
        else Inr ([v], toks1)) = Inr (vs, rest)"
    by (auto simp: and_then_Inr_iff)
  have t1: "stream toks1" "length toks1 < length toks"
    using consumesD[OF isNull_consumes Suc.prems(1) v] by auto
  show ?case
  proof (cases "kind toks1 = tokComma")
    case True
    with more obtain vs' where "in_values rec k (advance toks1) = Inr (vs', rest)"
      by (auto simp: and_then_Inr_iff)
    with True t1 advance_stream[OF t1(1)] Suc.IH[of "advance toks1" vs'] show ?thesis by auto
  next
    case False
    with more t1 show ?thesis by auto
  qed
qed

lemma in_values_enough:
  "stream toks \<Longrightarrow> length toks \<le> k \<Longrightarrow> length toks \<le> Suc n \<Longrightarrow> in_values rec k toks \<noteq> Inl OutOfFuel"
proof (induction k arbitrary: toks)
  case 0
  then show ?case by (simp add: stream_def)
next
  case (Suc k)
  show ?case
  proof (cases "parseIsNull rec toks")
    case (Inl err)
    with enoughD[OF isNull_enough Suc.prems(1,3)] show ?thesis by simp
  next
    case (Inr vt)
    obtain v toks1 where vt: "vt = (v, toks1)" by force
    have t1: "stream toks1" "length toks1 < length toks"
      using consumesD[OF isNull_consumes Suc.prems(1)] Inr vt by auto
    have "in_values rec k (advance toks1) \<noteq> Inl OutOfFuel" if "kind toks1 = tokComma"
      using advance_stream[OF t1(1)] that t1 Suc.prems by (intro Suc.IH) auto
    with Inr vt show ?thesis
      by (cases "in_values rec k (advance toks1)") auto
  qed
qed

lemma in_step_ok: "step_ok (Suc n) (in_step rec)"
  unfolding step_ok_def
proof (intro allI impI)
  fix left toks r
  assume toks: "stream toks" and step: "in_step rec left toks = Some r"
  then have k: "kind toks = tokIn" by (auto simp: in_step_def split: if_splits)
  let ?t = "advance toks" and ?u = "advance (advance toks)"
  have adv: "stream ?t" "length ?t < length toks"
    using advance_stream[OF toks] k by auto
  have r: "r = and_then (expect tokLParen (quoted ''('') ?t) (\<lambda>(_, toks1).
         and_then (in_values rec (length toks1) toks1) (\<lambda>(vs, toks2).
         and_then (expect tokRParen (quoted '')'') toks2) (\<lambda>(_, toks3).
         Inr (InExpr left vs, toks3))))"
    using step k by (simp add: in_step_def)
  have u: "stream ?u" "length ?u < length toks" if "kind ?t = tokLParen"
    using advance_twice[OF toks] k that by auto
  show "(\<forall>e rest. r = Inr (e, rest) \<longrightarrow> stream rest \<and> length rest < length toks) \<and>
        (length toks \<le> Suc n \<longrightarrow> r \<noteq> Inl OutOfFuel)"
  proof (intro conjI allI impI)
    fix e rest
    assume ok: "r = Inr (e, rest)"
    from ok[unfolded r] obtain vs toks2 where lp: "kind ?t = tokLParen"
      and vs: "in_values rec (length ?u) ?u = Inr (vs, toks2)"
      and rp: "kind toks2 = tokRParen" "rest = advance toks2"
      by (auto simp: and_then_Inr_iff expect_Inr)
    have "stream toks2" "length toks2 < length ?u"
      using in_values_consumes[OF u(1)[OF lp] vs] by auto
    with rp u[OF lp] advance_stream[of toks2] show "stream rest" "length rest < length toks"
      by auto
  next
    assume "length toks \<le> Suc n"
    then have "in_values rec (length ?u) ?u \<noteq> Inl OutOfFuel" if "kind ?t = tokLParen"
      using in_values_enough[OF u(1)[OF that] order.refl] u(2)[OF that] by simp
    then show "r \<noteq> Inl OutOfFuel"
      using r by (auto simp: and_then_Inl_iff expect_Inr)
  qed
qed

lemma in_consumes: "consumes (parseIn rec)"
  and in_enough: "enough (Suc n) (parseIn rec)"
  unfolding parseIn_def
  using loop_after_consumes[OF isNull_consumes in_step_ok]
    loop_after_enough[OF isNull_consumes isNull_enough in_step_ok] .

lemma childof_step_ok: "step_ok (Suc n) (childof_step rec)"
  unfolding step_ok_def
proof (intro allI impI)
  fix left toks r
  assume toks: "stream toks" and step: "childof_step rec left toks = Some r"
  then have k: "kind toks \<noteq> tokEOF" by (auto simp: childof_step_def split: if_splits)
  have adv: "stream (advance toks)" "length (advance toks) < length toks"
    using advance_stream[OF toks k] by auto
  show "(\<forall>e rest. r = Inr (e, rest) \<longrightarrow> stream rest \<and> length rest < length toks) \<and>
        (length toks \<le> Suc n \<longrightarrow> r \<noteq> Inl OutOfFuel)"
    using step consumesD[OF in_consumes adv(1)] enoughD[OF in_enough adv(1)] adv(2)
    by (fastforce simp: childof_step_def Let_def and_then_Inr_iff and_then_Inl_iff
        split: if_splits)
qed

lemma childOf_consumes: "consumes (parseChildOf rec)"
  and childOf_enough: "enough (Suc n) (parseChildOf rec)"
  unfolding parseChildOf_def
  using loop_after_consumes[OF in_consumes childof_step_ok]
    loop_after_enough[OF in_consumes in_enough childof_step_ok] .

lemma not_chain_consumes:
  "stream toks \<Longrightarrow> not_chain rec k toks = Inr (e, rest) \<Longrightarrow> stream rest \<and> length rest < length toks"
proof (induction k arbitrary: toks e)
  case 0
  then show ?case using consumesD[OF childOf_consumes] by (auto split: if_splits)
next
  case (Suc k)
  show ?case
  proof (cases "kind toks = tokNot")
    case True
    with Suc.prems obtain e' where "not_chain rec k (advance toks) = Inr (e', rest)"
      by (auto simp: and_then_Inr_iff)
    with True advance_stream[OF Suc.prems(1)] Suc.IH[of "advance toks" e'] show ?thesis by auto
  next
    case False
    with Suc.prems consumesD[OF childOf_consumes] show ?thesis by auto
  qed
qed

lemma not_chain_enough:
  "stream toks \<Longrightarrow> length toks \<le> k \<Longrightarrow> length toks \<le> Suc n \<Longrightarrow> not_chain rec k toks \<noteq> Inl OutOfFuel"
proof (induction k arbitrary: toks)
  case 0
  then show ?case by (simp add: stream_def)
next
  case (Suc k)
  show ?case
  proof (cases "kind toks = tokNot")
    case True
    have "not_chain rec k (advance toks) \<noteq> Inl OutOfFuel"
      using advance_stream[OF Suc.prems(1)] True Suc.prems by (intro Suc.IH) auto
    with True show ?thesis
      by (cases "not_chain rec k (advance toks)") auto
  next
    case False
    with enoughD[OF childOf_enough Suc.prems(1,3)] show ?thesis by simp
  qed
qed

lemma not_consumes: "consumes (parseNot rec)"
  and not_enough: "enough (Suc n) (parseNot rec)"
  using not_chain_consumes not_chain_enough
  by (auto simp: consumes_def enough_def parseNot_def)

lemma and_step_ok: "step_ok (Suc n) (and_step rec)"
  by (intro infix_steps_ok[OF not_consumes not_enough])
     (auto simp: and_step_def split: if_splits)

lemma and_consumes: "consumes (parseAnd rec)"
  and and_enough: "enough (Suc n) (parseAnd rec)"
  unfolding parseAnd_def
  using loop_after_consumes[OF not_consumes and_step_ok]
    loop_after_enough[OF not_consumes not_enough and_step_ok] .

lemma or_step_ok: "step_ok (Suc n) (or_step rec)"
  by (intro infix_steps_ok[OF and_consumes and_enough])
     (auto simp: or_step_def split: if_splits)

lemma or_consumes: "consumes (loop_after (parseAnd rec) (or_step rec))"
  and or_enough: "enough (Suc n) (loop_after (parseAnd rec) (or_step rec))"
  using loop_after_consumes[OF and_consumes or_step_ok]
    loop_after_enough[OF and_consumes and_enough or_step_ok] .

end

text \<open>The knot: \<^const>\<open>parseOr\<close> with bound \<open>n\<close> meets the contract for streams of at most \<open>n\<close> tokens.\<close>

lemma parseOr_sub_parser: "sub_parser (parseOr n) n"
proof (induction n)
  case 0
  show ?case
    by unfold_locales (auto simp: consumes_def enough_def stream_def)
next
  case (Suc n)
  have eq: "parseOr (Suc n) = loop_after (parseAnd (parseOr n)) (or_step (parseOr n))"
    by (rule ext) simp
  show ?case
    unfolding eq
    by unfold_locales (rule sub_parser.or_consumes[OF Suc.IH], rule sub_parser.or_enough[OF Suc.IH])
qed

interpretation pr: sub_parser "parseOr n" n for n
  by (rule parseOr_sub_parser)

text \<open>\<^verbatim>\<open>Parse\<close> never runs out of its bounds: its loops and its recursion end on every input.\<close>

lemma Parse_fuel: "Parse src \<noteq> Inl OutOfFuel"
proof (cases "lex src")
  case (Inl e)
  then show ?thesis by (simp add: Parse_def)
next
  case (Inr toks)
  then have "stream toks" by (auto simp: lex_def intro: tokenize_stream)
  then have "parseOr (length toks) toks \<noteq> Inl OutOfFuel"
    by (rule enoughD[OF pr.rec_enough]) simp
  with Inr show ?thesis
    by (auto simp: Parse_def parse_tokens_def and_then_Inl_iff)
qed

end
