(* ===== verification/Domain_Roundtrip.thy ===== *)
theory Domain_Roundtrip
  imports Domain_Parser
begin

text \<open>
  The parser against a printer. \<open>print_expr\<close> writes an expression with every compound operand in
  parentheses; lexing and parsing what it writes returns the expression, for every well-formed
  expression. That the parser returns well-formed expressions only is shown in \<open>Domain_Wellformed\<close>:
  documented operators, identifiers as field names, non-empty \<^verbatim>\<open>IN\<close> lists, and no bare \<^verbatim>\<open>record\<close>
  outside \<^verbatim>\<open>child_of\<close>/\<^verbatim>\<open>parent_of\<close>.
\<close>

section \<open>Well-formed expressions\<close>

definition logical_ops :: "string list" where
  "logical_ops = [''LIKE'', ''ILIKE'', ''AND'', ''OR'']"

definition name_ok :: "string \<Rightarrow> bool" where
  "name_ok s \<longleftrightarrow> is_ident s \<and> keyword_kind s = tokIdent"

fun wf_expr :: "expr \<Rightarrow> bool" where
  "wf_expr (RecordField f) = name_ok f"
| "wf_expr (UserAttr a) = name_ok a"
| "wf_expr (TenantAttr f) = name_ok f"
| "wf_expr (RoleCheck r) = True"
| "wf_expr (PermCheck p) = True"
| "wf_expr (Literal l) = (case l of LNumber s \<Rightarrow> numeral_text s | _ \<Rightarrow> True)"
| "wf_expr (BinaryExpr oper l r) =
     (oper \<in> set (comparison_ops @ logical_ops) \<and> wf_expr l \<and> wf_expr r)"
| "wf_expr (UnaryExpr oper e) = (oper = ''NOT'' \<and> wf_expr e)"
| "wf_expr (IsNullExpr e neg) = wf_expr e"
| "wf_expr (InExpr e vs) = (wf_expr e \<and> vs \<noteq> [] \<and> list_all wf_expr vs)"
| "wf_expr (TreeExpr oper e) = (oper \<in> {''child_of'', ''parent_of''} \<and> wf_expr e)"

section \<open>The printer\<close>

definition op_lexeme :: "string \<Rightarrow> lexeme" where
  "op_lexeme oper = the (map_of
     [(''='', (tokEq, ''='')), (''!='', (tokNeq, ''!='')), (''<'', (tokLt, ''<'')),
      (''>'', (tokGt, ''>'')), (''<='', (tokLte, ''<='')), (''>='', (tokGte, ''>='')),
      (''LIKE'', (tokLike, ''like'')), (''ILIKE'', (tokIlike, ''ilike'')),
      (''AND'', (tokAnd, ''and'')), (''OR'', (tokOr, ''or'')),
      (''child_of'', (tokChildOf, ''child_of'')), (''parent_of'', (tokParentOf, ''parent_of''))]
     oper)"

fun literal_lexeme :: "literal \<Rightarrow> lexeme" where
  "literal_lexeme LNull = (tokNull, ''null'')"
| "literal_lexeme (LBool True) = (tokTrue, ''true'')"
| "literal_lexeme (LBool False) = (tokFalse, ''false'')"
| "literal_lexeme (LString s) = (tokString, s)"
| "literal_lexeme (LNumber s) = (tokNumber, s)"

definition parens :: "lexeme list \<Rightarrow> lexeme list" where
  "parens ls = (tokLParen, ''('') # ls @ [(tokRParen, '')'')]"

fun commas :: "lexeme list list \<Rightarrow> lexeme list" where
  "commas [] = []"
| "commas [ls] = ls"
| "commas (ls # lss) = ls @ (tokComma, '','') # commas lss"

definition call_lexemes :: "string \<Rightarrow> string \<Rightarrow> lexeme list" where
  "call_lexemes f arg = (tokIdent, f) # parens [(tokString, arg)]"

definition path_lexemes :: "string \<Rightarrow> string \<Rightarrow> lexeme list" where
  "path_lexemes obj field = [(tokIdent, obj), (tokDot, ''.''), (tokIdent, field)]"

fun unparse :: "expr \<Rightarrow> lexeme list" where
  "unparse (RecordField f) = path_lexemes ''record'' f"
| "unparse (UserAttr a) = path_lexemes ''user'' a"
| "unparse (TenantAttr f) = path_lexemes ''tenant'' f"
| "unparse (RoleCheck r) = call_lexemes ''user_has_role'' r"
| "unparse (PermCheck p) = call_lexemes ''user_has_permission'' p"
| "unparse (Literal l) = [literal_lexeme l]"
| "unparse (BinaryExpr oper l r) = parens (unparse l @ op_lexeme oper # unparse r)"
| "unparse (UnaryExpr oper e) = parens ((tokNot, ''not'') # unparse e)"
| "unparse (IsNullExpr e neg) =
     parens (unparse e @ (tokIs, ''is'') # (if neg then [(tokNot, ''not'')] else [])
             @ [(tokNull, ''null'')])"
| "unparse (InExpr e vs) = parens (unparse e @ (tokIn, ''in'') # parens (commas (map unparse vs)))"
| "unparse (TreeExpr oper e) =
     parens ((tokIdent, ''record'') # op_lexeme oper # unparse e)"

definition print_expr :: "expr \<Rightarrow> string" where
  "print_expr e = render (unparse e)"

section \<open>Operator levels pass a primary through\<close>

lemma advance_Cons [simp]: "us \<noteq> [] \<Longrightarrow> advance (t # us) = us"
  by (cases us) (auto simp: advance_def)

lemma lexeme_of_eq:
  "lexeme_of t = (k, s) \<longleftrightarrow> t_kind t = k \<and> t_text t = s"
  "(k, s) = lexeme_of t \<longleftrightarrow> t_kind t = k \<and> t_text t = s"
  by (auto simp: lexeme_of_def)

lemma op_loop_stop: "step left toks = None \<Longrightarrow> op_loop step k left toks = Inr (left, toks)"
  by (cases k) simp_all

lemma loop_after_stop:
  "operand toks = Inr (e, rest) \<Longrightarrow> step e rest = None \<Longrightarrow> loop_after operand step toks = Inr (e, rest)"
  by (simp add: loop_after_def op_loop_stop)

lemma loop_after_once:
  assumes "operand toks = Inr (l, rest)" "rest \<noteq> []"
    and "step l rest = Some (Inr (e, rest'))" "step e rest' = None"
  shows "loop_after operand step toks = Inr (e, rest')"
proof -
  obtain k where "length rest = Suc k" using assms(2) by (cases rest) auto
  with assms show ?thesis by (simp add: loop_after_def op_loop_stop)
qed

definition before_like :: "token_kind \<Rightarrow> bool" where
  "before_like k \<longleftrightarrow> comparisonOps k = None"

definition before_isnull :: "token_kind \<Rightarrow> bool" where
  "before_isnull k \<longleftrightarrow> before_like k \<and> k \<noteq> tokLike \<and> k \<noteq> tokIlike"

definition before_in :: "token_kind \<Rightarrow> bool" where
  "before_in k \<longleftrightarrow> before_isnull k \<and> k \<noteq> tokIs"

definition before_childof :: "token_kind \<Rightarrow> bool" where
  "before_childof k \<longleftrightarrow> before_in k \<and> k \<noteq> tokIn"

definition before_and :: "token_kind \<Rightarrow> bool" where
  "before_and k \<longleftrightarrow> before_childof k \<and> k \<noteq> tokChildOf \<and> k \<noteq> tokParentOf"

lemmas before_defs = before_and_def before_childof_def before_in_def before_isnull_def
  before_like_def comparisonOps_def

lemma comparison_pass:
  "parsePrimary rec toks = Inr (e, rest) \<Longrightarrow> before_like (kind rest) \<Longrightarrow>
     parseComparison rec toks = Inr (e, rest)"
  unfolding parseComparison_def
  by (rule loop_after_stop) (simp_all add: comparison_step_def before_like_def)

lemma like_pass:
  "parseComparison rec toks = Inr (e, rest) \<Longrightarrow> before_isnull (kind rest) \<Longrightarrow>
     parseLikeIlike rec toks = Inr (e, rest)"
  unfolding parseLikeIlike_def
  by (rule loop_after_stop) (simp_all add: like_step_def before_isnull_def)

lemma isnull_pass:
  "parseLikeIlike rec toks = Inr (e, rest) \<Longrightarrow> before_in (kind rest) \<Longrightarrow>
     parseIsNull rec toks = Inr (e, rest)"
  unfolding parseIsNull_def
  by (rule loop_after_stop) (simp_all add: isnull_step_def before_in_def)

lemma in_pass:
  "parseIsNull rec toks = Inr (e, rest) \<Longrightarrow> before_childof (kind rest) \<Longrightarrow>
     parseIn rec toks = Inr (e, rest)"
  unfolding parseIn_def
  by (rule loop_after_stop) (simp_all add: in_step_def before_childof_def)

lemma childof_pass:
  "parseIn rec toks = Inr (e, rest) \<Longrightarrow> before_and (kind rest) \<Longrightarrow>
     parseChildOf rec toks = Inr (e, rest)"
  unfolding parseChildOf_def
  by (rule loop_after_stop) (simp_all add: childof_step_def before_and_def)

lemma not_pass:
  "parseChildOf rec toks = Inr (e, rest) \<Longrightarrow> kind toks \<noteq> tokNot \<Longrightarrow>
     parseNot rec toks = Inr (e, rest)"
  by (cases "length toks") (simp_all add: parseNot_def)

lemma and_pass:
  "parseNot rec toks = Inr (e, rest) \<Longrightarrow> kind rest \<noteq> tokAnd \<Longrightarrow>
     parseAnd rec toks = Inr (e, rest)"
  unfolding parseAnd_def
  by (rule loop_after_stop) (simp_all add: and_step_def)

lemma or_pass:
  "parseAnd (parseOr n) toks = Inr (e, rest) \<Longrightarrow> kind rest \<noteq> tokOr \<Longrightarrow>
     parseOr (Suc n) toks = Inr (e, rest)"
  by (simp, rule loop_after_stop) (simp_all add: or_step_def)

text \<open>A primary followed by a closing token passes every level.\<close>

lemma primary_like: "parsePrimary rec toks = Inr (e, rest) \<Longrightarrow> before_isnull (kind rest) \<Longrightarrow>
     parseLikeIlike rec toks = Inr (e, rest)"
  by (rule like_pass[OF comparison_pass]) (auto simp: before_defs)

lemma primary_isnull: "parsePrimary rec toks = Inr (e, rest) \<Longrightarrow> before_in (kind rest) \<Longrightarrow>
     parseIsNull rec toks = Inr (e, rest)"
  by (rule isnull_pass[OF primary_like]) (auto simp: before_defs)

lemma primary_in: "parsePrimary rec toks = Inr (e, rest) \<Longrightarrow> before_childof (kind rest) \<Longrightarrow>
     parseIn rec toks = Inr (e, rest)"
  by (rule in_pass[OF primary_isnull]) (auto simp: before_defs)

lemma primary_childof: "parsePrimary rec toks = Inr (e, rest) \<Longrightarrow> before_and (kind rest) \<Longrightarrow>
     parseChildOf rec toks = Inr (e, rest)"
  by (rule childof_pass[OF primary_in]) (auto simp: before_defs)

lemma primary_not: "parsePrimary rec toks = Inr (e, rest) \<Longrightarrow> before_and (kind rest) \<Longrightarrow>
     parseNot rec toks = Inr (e, rest)"
  by (rule not_pass[OF primary_childof]) (auto simp: parsePrimary_def)

lemma primary_and: "parsePrimary rec toks = Inr (e, rest) \<Longrightarrow> before_and (kind rest) \<Longrightarrow>
     kind rest \<noteq> tokAnd \<Longrightarrow> parseAnd rec toks = Inr (e, rest)"
  by (rule and_pass[OF primary_not]) auto

text \<open>A result of any level below \<^verbatim>\<open>NOT\<close>, followed by a closing token, is a result of \<^verbatim>\<open>parseOr\<close>.\<close>

lemma closed_or:
  assumes "parseNot (parseOr n) toks = Inr (e, rest)" "kind rest = tokRParen"
  shows "parseOr (Suc n) toks = Inr (e, rest)"
  by (rule or_pass[OF and_pass]) (use assms in auto)

lemma closed_childof:
  assumes "parseChildOf (parseOr n) toks = Inr (e, rest)" "kind rest = tokRParen"
    "kind toks \<noteq> tokNot"
  shows "parseOr (Suc n) toks = Inr (e, rest)"
  by (rule closed_or[OF not_pass]) (use assms in auto)

lemma closed_in:
  assumes "parseIn (parseOr n) toks = Inr (e, rest)" "kind rest = tokRParen" "kind toks \<noteq> tokNot"
  shows "parseOr (Suc n) toks = Inr (e, rest)"
  by (rule closed_childof[OF childof_pass]) (use assms in \<open>auto simp: before_defs\<close>)

lemma closed_isnull:
  assumes "parseIsNull (parseOr n) toks = Inr (e, rest)" "kind rest = tokRParen"
    "kind toks \<noteq> tokNot"
  shows "parseOr (Suc n) toks = Inr (e, rest)"
  by (rule closed_in[OF in_pass]) (use assms in \<open>auto simp: before_defs\<close>)

lemma closed_like:
  assumes "parseLikeIlike (parseOr n) toks = Inr (e, rest)" "kind rest = tokRParen"
    "kind toks \<noteq> tokNot"
  shows "parseOr (Suc n) toks = Inr (e, rest)"
  by (rule closed_isnull[OF isnull_pass]) (use assms in \<open>auto simp: before_defs\<close>)

lemma closed_comparison:
  assumes "parseComparison (parseOr n) toks = Inr (e, rest)" "kind rest = tokRParen"
    "kind toks \<noteq> tokNot"
  shows "parseOr (Suc n) toks = Inr (e, rest)"
  by (rule closed_like[OF like_pass]) (use assms in \<open>auto simp: before_defs\<close>)

lemma primary_paren:
  assumes "parseOr n (us @ rp # rest) = Inr (e, rp # rest)"
    and "t_kind lp = tokLParen" "t_kind rp = tokRParen" "rest \<noteq> []"
  shows "parsePrimary (parseOr n) (lp # us @ rp # rest) = Inr (e, rest)"
  using assms by (simp add: parsePrimary_def expect_def)

lemma primary_kind: "parsePrimary rec toks = Inr (e, rest) \<Longrightarrow> kind toks \<noteq> tokNot"
  by (auto simp: parsePrimary_def)

section \<open>Each construct inside its parentheses\<close>

definition parses :: "nat \<Rightarrow> tokens \<Rightarrow> expr \<Rightarrow> bool" where
  "parses n us e \<longleftrightarrow>
     (\<forall>rest. rest \<noteq> [] \<longrightarrow> parsePrimary (parseOr n) (us @ rest) = Inr (e, rest))"

lemma parsesD: "parses n us e \<Longrightarrow> rest \<noteq> [] \<Longrightarrow> parsePrimary (parseOr n) (us @ rest) = Inr (e, rest)"
  by (simp add: parses_def)

lemma parses_not: "parses n us e \<Longrightarrow> rest \<noteq> [] \<Longrightarrow> kind (us @ rest) \<noteq> tokNot"
  by (rule primary_kind) (rule parsesD)

lemma parse_comparison_pair:
  assumes us: "parses n us l" and vs: "parses n vs r" and rp: "t_kind rp = tokRParen"
    and tk: "comparisonOps (t_kind t) = Some oper"
  shows "parseOr (Suc n) (us @ t # vs @ rp # rest) = Inr (BinaryExpr oper l r, rp # rest)"
proof (rule closed_comparison)
  show "parseComparison (parseOr n) (us @ t # vs @ rp # rest) = Inr (BinaryExpr oper l r, rp # rest)"
    unfolding parseComparison_def
    by (rule loop_after_once, rule parsesD[OF us])
      (use tk rp parsesD[OF vs] in \<open>simp_all add: comparison_step_def infix_step_def comparisonOps_def\<close>)
qed (use rp parses_not[OF us] in simp_all)

lemma parse_like_pair:
  assumes us: "parses n us l" and vs: "parses n vs r" and rp: "t_kind rp = tokRParen"
    and tk: "t_kind t = tokLike \<and> oper = ''LIKE'' \<or> t_kind t = tokIlike \<and> oper = ''ILIKE''"
  shows "parseOr (Suc n) (us @ t # vs @ rp # rest) = Inr (BinaryExpr oper l r, rp # rest)"
proof (rule closed_like)
  have l: "parseComparison (parseOr n) (us @ t # vs @ rp # rest) = Inr (l, t # vs @ rp # rest)"
    by (rule comparison_pass[OF parsesD[OF us]]) (use tk in \<open>auto simp: before_defs\<close>)
  have r: "parseComparison (parseOr n) (vs @ rp # rest) = Inr (r, rp # rest)"
    by (rule comparison_pass[OF parsesD[OF vs]]) (use rp in \<open>auto simp: before_defs\<close>)
  show "parseLikeIlike (parseOr n) (us @ t # vs @ rp # rest) = Inr (BinaryExpr oper l r, rp # rest)"
    unfolding parseLikeIlike_def
    by (rule loop_after_once, rule l) (use tk rp r in \<open>auto simp: like_step_def infix_step_def\<close>)
qed (use rp parses_not[OF us] in simp_all)

lemma parse_and_pair:
  assumes us: "parses n us l" and vs: "parses n vs r" and rp: "t_kind rp = tokRParen"
    and tk: "t_kind t = tokAnd"
  shows "parseOr (Suc n) (us @ t # vs @ rp # rest) = Inr (BinaryExpr ''AND'' l r, rp # rest)"
proof (rule or_pass)
  have l: "parseNot (parseOr n) (us @ t # vs @ rp # rest) = Inr (l, t # vs @ rp # rest)"
    by (rule primary_not[OF parsesD[OF us]]) (use tk in \<open>auto simp: before_defs\<close>)
  have r: "parseNot (parseOr n) (vs @ rp # rest) = Inr (r, rp # rest)"
    by (rule primary_not[OF parsesD[OF vs]]) (use rp in \<open>auto simp: before_defs\<close>)
  show "parseAnd (parseOr n) (us @ t # vs @ rp # rest) = Inr (BinaryExpr ''AND'' l r, rp # rest)"
    unfolding parseAnd_def
    by (rule loop_after_once, rule l) (use tk rp r in \<open>auto simp: and_step_def infix_step_def\<close>)
qed (use rp in simp)

lemma parse_or_pair:
  assumes us: "parses n us l" and vs: "parses n vs r" and rp: "t_kind rp = tokRParen"
    and tk: "t_kind t = tokOr"
  shows "parseOr (Suc n) (us @ t # vs @ rp # rest) = Inr (BinaryExpr ''OR'' l r, rp # rest)"
proof -
  have l: "parseAnd (parseOr n) (us @ t # vs @ rp # rest) = Inr (l, t # vs @ rp # rest)"
    by (rule primary_and[OF parsesD[OF us]]) (use tk in \<open>auto simp: before_defs\<close>)
  have r: "parseAnd (parseOr n) (vs @ rp # rest) = Inr (r, rp # rest)"
    by (rule primary_and[OF parsesD[OF vs]]) (use rp in \<open>auto simp: before_defs\<close>)
  show ?thesis
    by (simp, rule loop_after_once, rule l)
      (use tk rp r in \<open>auto simp: or_step_def infix_step_def\<close>)
qed

lemma parse_not_operand:
  assumes us: "parses n us l" and rp: "t_kind rp = tokRParen"
    and tk: "t_kind t = tokNot"
  shows "parseOr (Suc n) (t # us @ rp # rest) = Inr (UnaryExpr ''NOT'' l, rp # rest)"
proof (rule closed_or)
  have "parseChildOf (parseOr n) (us @ rp # rest) = Inr (l, rp # rest)"
    by (rule primary_childof[OF parsesD[OF us]]) (use rp in \<open>auto simp: before_defs\<close>)
  then show "parseNot (parseOr n) (t # us @ rp # rest) = Inr (UnaryExpr ''NOT'' l, rp # rest)"
    using tk parses_not[OF us, of "rp # rest"] by (simp add: parseNot_def)
qed (use rp in simp)

lemma parse_is_null:
  assumes us: "parses n us l" and rp: "t_kind rp = tokRParen"
    and tk: "t_kind t = tokIs" "t_kind nl = tokNull"
      "neg \<and> (\<exists>nt. t_kind nt = tokNot \<and> nts = [nt]) \<or> \<not> neg \<and> nts = []"
  shows "parseOr (Suc n) (us @ t # nts @ nl # rp # rest) = Inr (IsNullExpr l neg, rp # rest)"
proof (rule closed_isnull)
  have l: "parseLikeIlike (parseOr n) (us @ t # nts @ nl # rp # rest) =
      Inr (l, t # nts @ nl # rp # rest)"
    by (rule primary_like[OF parsesD[OF us]]) (use tk in \<open>auto simp: before_defs\<close>)
  show "parseIsNull (parseOr n) (us @ t # nts @ nl # rp # rest) = Inr (IsNullExpr l neg, rp # rest)"
    unfolding parseIsNull_def
    by (rule loop_after_once, rule l)
      (use tk rp in \<open>auto simp: isnull_step_def Let_def expect_def\<close>)
qed (use rp parses_not[OF us] in simp_all)

lemma parse_tree:
  assumes us: "parses n us l" and rp: "t_kind rp = tokRParen"
    and tk: "t_kind rt = tokIdent" "t_text rt = ''record''"
      "t_kind t = tokChildOf \<and> oper = ''child_of'' \<or> t_kind t = tokParentOf \<and> oper = ''parent_of''"
  shows "parseOr (Suc n) (rt # t # us @ rp # rest) = Inr (TreeExpr oper l, rp # rest)"
proof (rule closed_childof)
  have bare: "parsePrimary (parseOr n) (rt # t # us @ rp # rest) =
      Inr (RecordField [], t # us @ rp # rest)"
    using tk by (auto simp: parsePrimary_def parseIdentExpr_def Let_def)
  have l: "parseIn (parseOr n) (rt # t # us @ rp # rest) = Inr (RecordField [], t # us @ rp # rest)"
    by (rule primary_in[OF bare]) (use tk in \<open>auto simp: before_defs\<close>)
  have r: "parseIn (parseOr n) (us @ rp # rest) = Inr (l, rp # rest)"
    by (rule primary_in[OF parsesD[OF us]]) (use rp in \<open>auto simp: before_defs\<close>)
  show "parseChildOf (parseOr n) (rt # t # us @ rp # rest) = Inr (TreeExpr oper l, rp # rest)"
    unfolding parseChildOf_def
    by (rule loop_after_once, rule l)
      (use tk rp r in \<open>auto simp: childof_step_def isBareRecord_def\<close>)
qed (use rp tk in simp_all)

lemma parse_in_values:
  assumes "\<And>v us. v \<in> set es \<Longrightarrow> map lexeme_of us = unparse v \<Longrightarrow> length us \<le> n \<Longrightarrow> parses n us v"
    and "es \<noteq> []" "t_kind rp = tokRParen" "length es \<le> k"
    and "map lexeme_of us = commas (map unparse es)" "length us \<le> n"
  shows "in_values (parseOr n) k (us @ rp # rest) = Inr (es, rp # rest)"
  using assms
proof (induction es arbitrary: us k)
  case Nil
  then show ?case by simp
next
  case (Cons v es)
  then obtain k' where k: "k = Suc k'" by (cases k) auto
  show ?case
  proof (cases es)
    case Nil
    with Cons.prems have "parses n us v" by simp
    then have "parseIsNull (parseOr n) (us @ rp # rest) = Inr (v, rp # rest)"
      by (rule primary_isnull[OF parsesD]) (use Cons.prems(3) in \<open>simp_all add: before_defs\<close>)
    with Cons.prems(3) k Nil show ?thesis by simp
  next
    case (Cons w ws)
    with Cons.prems(5) obtain us1 t us2 where us: "us = us1 @ t # us2"
      and us1: "map lexeme_of us1 = unparse v" and t: "t_kind t = tokComma"
      and us2: "map lexeme_of us2 = commas (map unparse es)"
      by (auto simp: map_eq_append_conv map_eq_Cons_conv lexeme_of_eq)
    have "parses n us1 v" using Cons.prems(1)[OF _ us1] Cons.prems(6) us by simp
    then have v: "parseIsNull (parseOr n) (us @ rp # rest) = Inr (v, t # us2 @ rp # rest)"
      using us t by (simp add: primary_isnull[OF parsesD] before_defs)
    have "in_values (parseOr n) k' (us2 @ rp # rest) = Inr (es, rp # rest)"
      by (rule Cons.IH) (use Cons.prems k Cons us us2 in auto)
    with v t k show ?thesis by simp
  qed
qed

lemma commas_length: "(\<And>ls. ls \<in> set lss \<Longrightarrow> ls \<noteq> []) \<Longrightarrow> length lss \<le> length (commas lss)"
proof (induction lss rule: commas.induct)
  case (3 ls v va)
  then have "length (v # va) \<le> length (commas (v # va))" by simp
  then show ?case by simp
qed (auto simp: Suc_le_eq)

lemma unparse_not_Nil [simp]: "unparse e \<noteq> []"
  by (cases e) (simp_all add: path_lexemes_def call_lexemes_def parens_def)

lemma parse_in_list:
  assumes us: "parses n us l" and rp: "t_kind rp = tokRParen" and rp2: "t_kind rp2 = tokRParen"
    and t: "t_kind t = tokIn" and lp: "t_kind lp = tokLParen"
    and vs: "\<And>v us. v \<in> set es \<Longrightarrow> map lexeme_of us = unparse v \<Longrightarrow> length us \<le> n \<Longrightarrow> parses n us v"
    and es: "es \<noteq> []" "map lexeme_of ws = commas (map unparse es)" "length ws \<le> n"
  shows "parseOr (Suc n) (us @ t # lp # ws @ rp # rp2 # rest) = Inr (InExpr l es, rp2 # rest)"
proof (rule closed_in)
  let ?in = "ws @ rp # rp2 # rest"
  have l: "parseIsNull (parseOr n) (us @ t # lp # ?in) = Inr (l, t # lp # ?in)"
    by (rule primary_isnull[OF parsesD[OF us]]) (use t in \<open>simp_all add: before_defs\<close>)
  have "length es \<le> length ws"
    using commas_length[of "map unparse es"] es(2) by (metis (no_types, lifting) ex_map_conv
        length_map unparse_not_Nil)
  then have "in_values (parseOr n) (length ?in) ?in = Inr (es, rp # rp2 # rest)"
    using vs es rp by (intro parse_in_values) auto
  then show "parseIn (parseOr n) (us @ t # lp # ?in) = Inr (InExpr l es, rp2 # rest)"
    unfolding parseIn_def
    by (intro loop_after_once, rule_tac l)
      (use t lp rp rp2 in \<open>simp_all add: in_step_def expect_def\<close>)
qed (use rp2 parses_not[OF us] in simp_all)

section \<open>Atoms\<close>

lemma parses_path:
  assumes "map lexeme_of us = path_lexemes obj f"
    and "obj = ''record'' \<and> e = RecordField f \<or> obj = ''user'' \<and> e = UserAttr f \<or>
         obj = ''tenant'' \<and> e = TenantAttr f"
  shows "parses n us e"
proof -
  from assms(1) obtain a b c where us: "us = [a, b, c]" and "t_kind a = tokIdent" "t_text a = obj"
    "t_kind b = tokDot" "t_kind c = tokIdent" "t_text c = f"
    by (auto simp: path_lexemes_def map_eq_Cons_conv lexeme_of_eq)
  with assms(2) show ?thesis
    by (auto simp: parses_def parsePrimary_def parseIdentExpr_def parseAttr_def Let_def expect_def)
qed

lemma parses_call:
  assumes "map lexeme_of us = call_lexemes f arg"
    and "f = ''user_has_role'' \<and> e = RoleCheck arg \<or> f = ''user_has_permission'' \<and> e = PermCheck arg"
  shows "parses n us e"
proof -
  from assms(1) obtain a b c d where us: "us = [a, b, c, d]" and "t_kind a = tokIdent" "t_text a = f"
    "t_kind b = tokLParen" "t_kind c = tokString" "t_text c = arg" "t_kind d = tokRParen"
    by (auto simp: call_lexemes_def parens_def map_eq_Cons_conv lexeme_of_eq)
  with assms(2) show ?thesis
    by (auto simp: parses_def parsePrimary_def parseIdentExpr_def parseCall_def Let_def expect_def)
qed

lemma parses_literal:
  assumes "map lexeme_of us = [literal_lexeme l]"
  shows "parses n us (Literal l)"
proof -
  from assms obtain t where "us = [t]" "lexeme_of t = literal_lexeme l" by auto
  then show ?thesis
    by (cases l rule: literal_lexeme.cases) (auto simp: parses_def parsePrimary_def lexeme_of_eq)
qed

lemma parses_parens:
  assumes "map lexeme_of us = parens ls" "length us \<le> n"
    and "\<And>m ws rp rest. n = Suc m \<Longrightarrow> map lexeme_of ws = ls \<Longrightarrow> length ws < m \<Longrightarrow>
           t_kind rp = tokRParen \<Longrightarrow> parseOr (Suc m) (ws @ rp # rest) = Inr (e, rp # rest)"
  shows "parses n us e"
proof -
  from assms(1) obtain lp ws rp where us: "us = lp # ws @ [rp]"
    and k: "t_kind lp = tokLParen" "map lexeme_of ws = ls" "t_kind rp = tokRParen"
    by (auto simp: parens_def map_eq_append_conv map_eq_Cons_conv lexeme_of_eq)
  from us assms(2) obtain m where n: "n = Suc m" and "length ws < m"
    by (cases n) auto
  then have "parseOr n (ws @ rp # rest) = Inr (e, rp # rest)" for rest
    using assms(3)[OF n k(2) _ k(3)] by simp
  then show ?thesis
    using primary_paren k us by (simp add: parses_def)
qed

section \<open>Parsing what was printed\<close>

lemma op_lexeme_comparison:
  "oper \<in> set comparison_ops \<Longrightarrow> comparisonOps (fst (op_lexeme oper)) = Some oper"
  by (auto simp: comparison_ops_def comparisonOps_def op_lexeme_def)

lemma fst_lexeme_of: "lexeme_of t = l \<Longrightarrow> t_kind t = fst l"
  by (auto simp: lexeme_of_def)

lemma parses_binary:
  assumes l: "\<And>us n. map lexeme_of us = unparse l \<Longrightarrow> length us \<le> n \<Longrightarrow> parses n us l"
    and r: "\<And>us n. map lexeme_of us = unparse r \<Longrightarrow> length us \<le> n \<Longrightarrow> parses n us r"
    and oper: "oper \<in> set (comparison_ops @ logical_ops)"
    and us: "map lexeme_of us = unparse (BinaryExpr oper l r)" "length us \<le> n"
  shows "parses n us (BinaryExpr oper l r)"
proof (rule parses_parens[OF us(1)[unfolded unparse.simps] us(2)])
  fix m ws rest and rp :: token
  assume "map lexeme_of ws = unparse l @ op_lexeme oper # unparse r" and len: "length ws < m"
    and rp: "t_kind rp = tokRParen"
  then obtain ls t rs where ws: "ws = ls @ t # rs" and t: "t_kind t = fst (op_lexeme oper)"
    and "map lexeme_of ls = unparse l" "map lexeme_of rs = unparse r"
    by (auto simp: map_eq_append_conv map_eq_Cons_conv fst_lexeme_of)
  with l r len have "parses m ls l" "parses m rs r" by auto
  note pair = this rp
  consider "oper \<in> set comparison_ops" | "oper = ''LIKE'' \<or> oper = ''ILIKE''" | "oper = ''AND''"
    | "oper = ''OR''"
    using oper by (auto simp: logical_ops_def)
  then show "parseOr (Suc m) (ws @ rp # rest) = Inr (BinaryExpr oper l r, rp # rest)"
  proof cases
    case 1
    then show ?thesis
      using parse_comparison_pair[OF pair] op_lexeme_comparison t ws by simp
  next
    case 2
    then show ?thesis
      using parse_like_pair[OF pair] t ws by (auto simp: op_lexeme_def)
  next
    case 3
    then show ?thesis
      using parse_and_pair[OF pair] t ws by (auto simp: op_lexeme_def)
  next
    case 4
    then show ?thesis
      using parse_or_pair[OF pair] t ws by (auto simp: op_lexeme_def)
  qed
qed

lemma unparse_parses:
  "wf_expr e \<Longrightarrow> map lexeme_of us = unparse e \<Longrightarrow> length us \<le> n \<Longrightarrow> parses n us e"
proof (induction e arbitrary: us n)
  case (BinaryExpr oper l r)
  then show ?case by (intro parses_binary) auto
next
  case (UnaryExpr oper e)
  show ?case
  proof (rule parses_parens[OF UnaryExpr.prems(2)[unfolded unparse.simps] UnaryExpr.prems(3)])
    fix m ws rest and rp :: token
    assume "map lexeme_of ws = (tokNot, ''not'') # unparse e" "length ws < m" "t_kind rp = tokRParen"
    then obtain t es where "ws = t # es" "t_kind t = tokNot" "map lexeme_of es = unparse e"
      "length es \<le> m"
      by (auto simp: map_eq_Cons_conv lexeme_of_eq)
    with UnaryExpr \<open>t_kind rp = tokRParen\<close>
    show "parseOr (Suc m) (ws @ rp # rest) = Inr (UnaryExpr oper e, rp # rest)"
      by (simp add: parse_not_operand del: parseOr.simps)
  qed
next
  case (IsNullExpr e neg)
  show ?case
  proof (rule parses_parens[OF IsNullExpr.prems(2)[unfolded unparse.simps] IsNullExpr.prems(3)])
    fix m ws rest and rp :: token
    assume "map lexeme_of ws = unparse e @ (tokIs, ''is'') # (if neg then [(tokNot, ''not'')] else [])
              @ [(tokNull, ''null'')]" "length ws < m" "t_kind rp = tokRParen"
    then obtain es t nts nl where ws: "ws = es @ t # nts @ [nl]" and e: "map lexeme_of es = unparse e"
      "length es \<le> m" and "t_kind t = tokIs" "t_kind nl = tokNull"
      "neg \<and> (\<exists>nt. t_kind nt = tokNot \<and> nts = [nt]) \<or> \<not> neg \<and> nts = []"
      by (cases neg) (auto simp: map_eq_append_conv map_eq_Cons_conv lexeme_of_eq)
    moreover have "parses m es e"
      using IsNullExpr.IH IsNullExpr.prems(1) e by simp
    ultimately show "parseOr (Suc m) (ws @ rp # rest) = Inr (IsNullExpr e neg, rp # rest)"
      using parse_is_null[of m es e rp t nl neg nts rest] \<open>t_kind rp = tokRParen\<close>
      by (simp del: parseOr.simps)
  qed
next
  case (InExpr e vs)
  show ?case
  proof (rule parses_parens[OF InExpr.prems(2)[unfolded unparse.simps] InExpr.prems(3)])
    fix m ws rest and rp :: token
    assume "map lexeme_of ws = unparse e @ (tokIn, ''in'') # parens (commas (map unparse vs))"
      "length ws < m" "t_kind rp = tokRParen"
    then obtain es t lp us' rp' where ws: "ws = es @ t # lp # us' @ [rp']"
      and e: "map lexeme_of es = unparse e" and k: "t_kind t = tokIn" "t_kind lp = tokLParen"
        "t_kind rp' = tokRParen"
      and us': "map lexeme_of us' = commas (map unparse vs)"
      by (auto simp: parens_def map_eq_append_conv append_eq_map_conv map_eq_Cons_conv lexeme_of_eq)
    have "parses m es e"
      using InExpr.IH(1) InExpr.prems(1) e ws \<open>length ws < m\<close> by simp
    moreover have "parses m u v" if "v \<in> set vs" "map lexeme_of u = unparse v" "length u \<le> m" for v u
      using InExpr.IH(2)[OF that(1) _ that(2,3)] InExpr.prems(1) that(1) by (simp add: list_all_iff)
    ultimately show "parseOr (Suc m) (ws @ rp # rest) = Inr (InExpr e vs, rp # rest)"
      using parse_in_list[of m es e rp' rp t lp vs us' rest] k us' ws InExpr.prems(1)
        \<open>length ws < m\<close> \<open>t_kind rp = tokRParen\<close>
      by (simp del: parseOr.simps)
  qed
next
  case (TreeExpr oper e)
  show ?case
  proof (rule parses_parens[OF TreeExpr.prems(2)[unfolded unparse.simps] TreeExpr.prems(3)])
    fix m ws rest and rp :: token
    assume "map lexeme_of ws = (tokIdent, ''record'') # op_lexeme oper # unparse e" "length ws < m"
      "t_kind rp = tokRParen"
    then obtain rt t es where "ws = rt # t # es" "t_kind rt = tokIdent" "t_text rt = ''record''"
      "t_kind t = fst (op_lexeme oper)" "map lexeme_of es = unparse e" "length es \<le> m"
      by (auto simp: map_eq_Cons_conv lexeme_of_eq fst_lexeme_of)
    with TreeExpr parse_tree[of m es e rp rt t oper rest] \<open>t_kind rp = tokRParen\<close>
    show "parseOr (Suc m) (ws @ rp # rest) = Inr (TreeExpr oper e, rp # rest)"
      by (auto simp: op_lexeme_def simp del: parseOr.simps)
  qed
next
  case (RecordField f)
  then show ?case by (intro parses_path[of us "''record''" f]) auto
next
  case (UserAttr a)
  then show ?case by (intro parses_path[of us "''user''" a]) auto
next
  case (TenantAttr f)
  then show ?case by (intro parses_path[of us "''tenant''" f]) auto
next
  case (RoleCheck r)
  then show ?case by (intro parses_call[of us "''user_has_role''" r]) auto
next
  case (PermCheck p)
  then show ?case by (intro parses_call[of us "''user_has_permission''" p]) auto
next
  case (Literal l)
  then show ?case by (intro parses_literal) simp
qed

lemma keyword_kind_literals:
  "keyword_kind ''record'' = tokIdent" "keyword_kind ''user'' = tokIdent"
  "keyword_kind ''tenant'' = tokIdent" "keyword_kind ''user_has_role'' = tokIdent"
  "keyword_kind ''user_has_permission'' = tokIdent" "keyword_kind ''null'' = tokNull"
  "keyword_kind ''true'' = tokTrue" "keyword_kind ''false'' = tokFalse"
  "keyword_kind ''not'' = tokNot" "keyword_kind ''is'' = tokIs" "keyword_kind ''in'' = tokIn"
  "keyword_kind ''like'' = tokLike" "keyword_kind ''ilike'' = tokIlike"
  "keyword_kind ''and'' = tokAnd" "keyword_kind ''or'' = tokOr"
  "keyword_kind ''child_of'' = tokChildOf" "keyword_kind ''parent_of'' = tokParentOf"
  by code_simp+

lemma is_ident_literals:
  "is_ident ''record''" "is_ident ''user''" "is_ident ''tenant''" "is_ident ''user_has_role''"
  "is_ident ''user_has_permission''" "is_ident ''null''" "is_ident ''true''" "is_ident ''false''"
  "is_ident ''not''" "is_ident ''is''" "is_ident ''in''" "is_ident ''like''" "is_ident ''ilike''"
  "is_ident ''and''" "is_ident ''or''" "is_ident ''child_of''" "is_ident ''parent_of''"
  by code_simp+

lemma valid_symbols:
  "valid_lexeme (tokDot, ''.'')" "valid_lexeme (tokLParen, ''('')" "valid_lexeme (tokRParen, '')'')"
  "valid_lexeme (tokComma, '','')"
  by (simp_all add: symbols_def)

lemma list_all_parens: "list_all valid_lexeme (parens ls) = list_all valid_lexeme ls"
  using valid_symbols by (simp add: parens_def del: valid_lexeme.simps)

lemma list_all_commas:
  "list_all (list_all valid_lexeme) lss \<Longrightarrow> list_all valid_lexeme (commas lss)"
  using valid_symbols by (induction lss rule: commas.induct) (simp_all del: valid_lexeme.simps)

lemma valid_literal: "wf_expr (Literal l) \<Longrightarrow> valid_lexeme (literal_lexeme l)"
  by (cases l rule: literal_lexeme.cases) (auto simp: keyword_kind_literals is_ident_literals)

lemma valid_op:
  "oper \<in> set (comparison_ops @ logical_ops @ [''child_of'', ''parent_of'']) \<Longrightarrow>
     valid_lexeme (op_lexeme oper)"
  by (auto simp: comparison_ops_def logical_ops_def op_lexeme_def symbols_def
      keyword_kind_literals is_ident_literals)

lemma unparse_valid: "wf_expr e \<Longrightarrow> list_all valid_lexeme (unparse e)"
proof (induction e)
  case (BinaryExpr oper l r)
  then show ?case using valid_op[of oper] by (auto simp: list_all_parens)
next
  case (TreeExpr oper e)
  then show ?case using valid_op[of oper]
    by (auto simp: list_all_parens keyword_kind_literals is_ident_literals)
next
  case (InExpr e vs)
  then have "list_all (list_all valid_lexeme) (map unparse vs)"
    by (auto simp: list_all_iff)
  with InExpr show ?case
    by (auto simp: list_all_parens keyword_kind_literals is_ident_literals intro: list_all_commas)
next
  case (Literal l)
  then show ?case using valid_literal by simp
qed (auto simp: list_all_parens path_lexemes_def call_lexemes_def name_ok_def symbols_def
    keyword_kind_literals is_ident_literals)

lemma parse_printed:
  assumes "wf_expr e"
  shows "Parse (print_expr e) = Inr e"
proof -
  obtain toks where lexed: "tokenize (0, render (unparse e)) = Inr toks"
    and lexemes: "map lexeme_of toks = unparse e @ [(tokEOF, [])]"
    using tokenize_render[OF unparse_valid[OF assms]] by blast
  then obtain us eof where toks: "toks = us @ [eof]" and us: "map lexeme_of us = unparse e"
    and eof: "t_kind eof = tokEOF"
    by (auto simp: map_eq_append_conv map_eq_Cons_conv lexeme_of_eq)
  obtain n where n: "length toks = Suc n" "length us \<le> n" using toks by auto
  have prim: "parsePrimary (parseOr n) toks = Inr (e, [eof])"
    using parsesD[OF unparse_parses[OF assms us n(2)]] toks by simp
  have "parseOr (Suc n) toks = Inr (e, [eof])"
    by (rule or_pass[OF primary_and[OF prim]]) (use eof in \<open>simp_all add: before_defs\<close>)
  then show ?thesis
    using lexed n eof by (simp add: Parse_def lex_def print_expr_def parse_tokens_def del: parseOr.simps)
qed

end
