(* ===== verification/Domain_Wellformed.thy ===== *)
theory Domain_Wellformed
  imports Domain_Roundtrip
begin

text \<open>
  What \<^verbatim>\<open>Parse\<close> returns is well-formed. The only ill-formed node the parser ever builds is the
  bare \<^verbatim>\<open>record\<close>, and it builds it only in front of a \<^verbatim>\<open>child_of\<close>/\<^verbatim>\<open>parent_of\<close> token, which no
  level below \<^verbatim>\<open>parseChildOf\<close> accepts: the invariant of the lower levels is that the operand
  built so far is well-formed or such a token comes next.
\<close>

section \<open>Tokens carry valid lexemes\<close>

definition valid_tokens :: "tokens \<Rightarrow> bool" where
  "valid_tokens toks \<longleftrightarrow> (\<forall>t \<in> set toks. t_kind t = tokEOF \<or> valid_lexeme (lexeme_of t))"

lemma valid_tokens_simps [simp]:
  "valid_tokens []"
  "valid_tokens (t # toks) \<longleftrightarrow> (t_kind t = tokEOF \<or> valid_lexeme (lexeme_of t)) \<and> valid_tokens toks"
  by (auto simp: valid_tokens_def)

lemma valid_tokens_advance: "valid_tokens toks \<Longrightarrow> valid_tokens (advance toks)"
  by (auto simp: advance_def split: list.splits)

lemma lexIdent_valid:
  assumes "isIdentStart c" "lexIdent (pos, c # cs) = Inr (tok, st)"
  shows "valid_lexeme (lexeme_of tok)"
proof -
  have "is_ident (takeWhile isIdentPart (c # cs))"
    using assms(1) by (auto simp: is_ident_def isIdentPart_def list_all_iff dest: set_takeWhileD)
  with assms(2) show ?thesis
    by (auto simp: lexIdent_def Let_def lexeme_of_def)
qed

lemma lexNumber_valid:
  assumes "isDigit c" "lexNumber (pos, c # cs) = Inr (tok, st)"
  shows "valid_lexeme (lexeme_of tok)"
proof -
  have "numeral_text (takeWhile (\<lambda>c. isDigit c \<or> c = CHR ''.'') (c # cs))"
    using assms(1) by (auto simp: numeral_text_def list_all_iff dest: set_takeWhileD)
  with assms(2) show ?thesis
    by (auto simp: lexNumber_def Let_def lexeme_of_def)
qed

lemma lexString_valid: "lexString st = Inr (tok, st') \<Longrightarrow> valid_lexeme (lexeme_of tok)"
  by (auto simp: lexString_def lexeme_of_def split: prod.splits dest: lexString_loop_kind)

lemma tok2_valid:
  "peek1 (c # cs) = CHR ''='' \<Longrightarrow> (k, [c, CHR ''='']) \<in> set symbols \<Longrightarrow>
   tok2 k (pos, c # cs) = Inr (tok, st) \<Longrightarrow> valid_lexeme (lexeme_of tok)"
  by (cases cs) (auto simp: tok2_def peek1_def lexeme_of_def)

lemma tok1_valid:
  "(k, [c]) \<in> set symbols \<Longrightarrow> tok1 k (pos, c # cs) = Inr (tok, st) \<Longrightarrow> valid_lexeme (lexeme_of tok)"
  by (auto simp: tok1_def lexeme_of_def)

lemma lex_next_valid:
  assumes "lex_next st = Inr (tok, st')" "t_kind tok \<noteq> tokEOF"
  shows "valid_lexeme (lexeme_of tok)"
proof -
  obtain pos rest where st: "skipSpace st = (pos, rest)" by force
  with assms obtain c cs where rest: "rest = c # cs"
    by (cases rest) (auto simp: lex_next_def Let_def)
  note next_rules = lexString_valid lexNumber_valid[of c pos cs tok st'] lexIdent_valid[of c pos cs tok st']
    tok1_valid[of _ c pos cs tok st'] tok2_valid[of c cs _ pos tok st']
  from assms(1) st rest show ?thesis
    by (simp add: lex_next_def Let_def split: if_splits)
       (auto intro: next_rules simp del: valid_lexeme.simps simp: symbols_def)
qed

lemma tokenize_valid: "tokenize st = Inr toks \<Longrightarrow> valid_tokens toks"
proof (induction st arbitrary: toks rule: tokenize.induct)
  case (1 st)
  from "1.prems" show ?case
    by (subst (asm) tokenize.simps)
       (auto simp: "1.IH" lex_next_valid simp del: valid_lexeme.simps
             split: sum.splits prod.splits if_splits)
qed

lemma valid_ident:
  assumes "valid_tokens toks" "kind toks = tokIdent"
  shows "name_ok (t_text (cur toks))"
  using assms by (cases toks) (auto simp: cur_def lexeme_of_def name_ok_def symbols_def)

lemma valid_number:
  assumes "valid_tokens toks" "kind toks = tokNumber"
  shows "numeral_text (t_text (cur toks))"
  using assms keyword_kind_not_symbolic(3)
  by (cases toks) (auto simp: cur_def lexeme_of_def symbols_def)

section \<open>The invariant of the operator levels\<close>

definition tree_next :: "tokens \<Rightarrow> bool" where
  "tree_next toks \<longleftrightarrow> kind toks = tokChildOf \<or> kind toks = tokParentOf"

definition wf_or_tree :: "expr \<Rightarrow> tokens \<Rightarrow> bool" where
  "wf_or_tree e rest \<longleftrightarrow> valid_tokens rest \<and> (wf_expr e \<or> tree_next rest)"

definition wf_strict :: "expr \<Rightarrow> tokens \<Rightarrow> bool" where
  "wf_strict e rest \<longleftrightarrow> valid_tokens rest \<and> wf_expr e"

definition gives :: "(tokens \<Rightarrow> presult) \<Rightarrow> (expr \<Rightarrow> tokens \<Rightarrow> bool) \<Rightarrow> bool" where
  "gives p Q \<longleftrightarrow> (\<forall>toks e rest. valid_tokens toks \<longrightarrow> p toks = Inr (e, rest) \<longrightarrow> Q e rest)"

lemma givesD: "gives p Q \<Longrightarrow> valid_tokens toks \<Longrightarrow> p toks = Inr (e, rest) \<Longrightarrow> Q e rest"
  by (simp add: gives_def)

lemma op_loop_inv:
  assumes "\<And>l t e r. Q l t \<Longrightarrow> step l t = Some (Inr (e, r)) \<Longrightarrow> Q e r"
    and "Q left toks" "op_loop step k left toks = Inr (e, rest)"
  shows "Q e rest \<and> step e rest = None"
  using assms
proof (induction k arbitrary: left toks)
  case 0
  then show ?case by (auto split: option.splits)
next
  case (Suc k)
  show ?case
  proof (cases "step left toks")
    case None
    with Suc.prems show ?thesis by auto
  next
    case (Some r)
    with Suc.prems(3) obtain l t where "r = Inr (l, t)" "op_loop step k l t = Inr (e, rest)"
      by (auto simp: and_then_Inr_iff)
    with Some Suc show ?thesis by blast
  qed
qed

lemma gives_loop:
  assumes "gives operand Q" "\<And>l t e r. Q l t \<Longrightarrow> step l t = Some (Inr (e, r)) \<Longrightarrow> Q e r"
  shows "gives (loop_after operand step) (\<lambda>e rest. Q e rest \<and> step e rest = None)"
  unfolding gives_def loop_after_def
proof (intro allI impI)
  fix toks e rest
  assume toks: "valid_tokens toks"
    and "and_then (operand toks) (\<lambda>(left, rest). op_loop step (length rest) left rest) = Inr (e, rest)"
  then obtain l t where "operand toks = Inr (l, t)" and loop: "op_loop step (length t) l t = Inr (e, rest)"
    by (auto simp: and_then_Inr_iff)
  with givesD[OF assms(1) toks] have "Q l t" by simp
  with assms(2) show "Q e rest \<and> step e rest = None" using loop by (rule op_loop_inv)
qed

lemma gives_weaken: "gives p Q \<Longrightarrow> (\<And>e rest. Q e rest \<Longrightarrow> R e rest) \<Longrightarrow> gives p R"
  by (auto simp: gives_def)

lemma gives_loop_keeps:
  assumes "gives operand Q" "\<And>l t e r. Q l t \<Longrightarrow> step l t = Some (Inr (e, r)) \<Longrightarrow> Q e r"
  shows "gives (loop_after operand step) Q"
proof -
  have "gives (loop_after operand step) (\<lambda>e rest. Q e rest \<and> step e rest = None)"
    by (rule gives_loop, rule assms(1), rule assms(2))
  then show ?thesis by (rule gives_weaken) simp
qed

lemma infix_keeps:
  assumes "gives operand Q" "valid_tokens toks" "infix_step operand oper left toks = Inr (e, rest)"
  shows "\<exists>r. e = BinaryExpr oper left r \<and> Q r rest"
  using assms givesD[OF assms(1) valid_tokens_advance[OF assms(2)]]
  by (auto simp: infix_step_def and_then_Inr_iff)

lemma parseIdentExpr_wf:
  assumes "valid_tokens toks" "parseIdentExpr toks = Inr (e, rest)"
  shows "wf_or_tree e rest"
proof -
  note adv = valid_tokens_advance
  have "valid_tokens (advance toks)" "valid_tokens (advance (advance toks))"
    using assms(1) by (auto intro: adv)
  with assms(2) show ?thesis
    by (auto simp: parseIdentExpr_def Let_def wf_or_tree_def tree_next_def parseAttr_Inr parseCall_Inr
        and_then_Inr_iff expect_Inr valid_ident adv split: if_splits)
qed

lemma comparisonOps_op: "comparisonOps k = Some oper \<Longrightarrow> oper \<in> set comparison_ops"
  by (auto simp: comparisonOps_def comparison_ops_def split: if_splits)

section \<open>Levels\<close>

lemma primary_gives:
  assumes "gives rec wf_strict"
  shows "gives (parsePrimary rec) wf_or_tree"
  unfolding gives_def
proof (intro allI impI)
  fix toks e rest
  assume toks: "valid_tokens toks" and p: "parsePrimary rec toks = Inr (e, rest)"
  have adv: "valid_tokens (advance toks)" using toks by (rule valid_tokens_advance)
  show "wf_or_tree e rest"
  proof (cases "kind toks = tokLParen")
    case True
    with p obtain t where "rec (advance toks) = Inr (e, t)" "rest = advance t"
      by (auto simp: parsePrimary_def and_then_Inr_iff expect_Inr)
    with givesD[OF assms adv] show ?thesis
      by (auto simp: wf_strict_def wf_or_tree_def intro: valid_tokens_advance)
  next
    case False
    with p toks adv parseIdentExpr_wf[OF toks, of e rest] valid_number[OF toks] show ?thesis
      by (cases "kind toks") (auto simp: parsePrimary_def wf_or_tree_def)
  qed
qed

lemma not_tree_wf: "wf_or_tree e rest \<Longrightarrow> \<not> tree_next rest \<Longrightarrow> wf_expr e"
  by (simp add: wf_or_tree_def)

lemma binary_wf_or_tree:
  "wf_expr l \<Longrightarrow> oper \<in> set (comparison_ops @ logical_ops) \<Longrightarrow> wf_or_tree r rest \<Longrightarrow>
     wf_or_tree (BinaryExpr oper l r) rest"
  by (auto simp: wf_or_tree_def)

lemma infix_wf_or_tree:
  assumes "gives operand wf_or_tree" "wf_or_tree l t" "\<not> tree_next t"
    and "oper \<in> set (comparison_ops @ logical_ops)" "infix_step operand oper l t = Inr (e, r)"
  shows "wf_or_tree e r"
proof -
  have "valid_tokens t" using assms(2) by (simp add: wf_or_tree_def)
  with assms obtain x where "e = BinaryExpr oper l x" "wf_or_tree x r"
    using infix_keeps[OF assms(1) _ assms(5)] by blast
  with assms(2-4) show ?thesis
    using binary_wf_or_tree not_tree_wf by blast
qed

lemma comparison_gives:
  assumes "gives rec wf_strict"
  shows "gives (parseComparison rec) wf_or_tree"
proof -
  note prim = primary_gives[OF assms]
  have step: "wf_or_tree e r" if l: "wf_or_tree l t" and s: "comparison_step rec l t = Some (Inr (e, r))" for l t e r
  proof -
    from s obtain oper where oper: "comparisonOps (kind t) = Some oper"
      and st: "infix_step (parsePrimary rec) oper l t = Inr (e, r)"
      by (auto simp: comparison_step_def)
    have "\<not> tree_next t" using oper by (auto simp: tree_next_def comparisonOps_def)
    then show ?thesis
      using infix_wf_or_tree[OF prim l _ _ st] comparisonOps_op[OF oper] by simp
  qed
  show ?thesis
    unfolding parseComparison_def by (rule gives_loop_keeps, rule prim, rule step)
qed

lemma like_gives:
  assumes "gives rec wf_strict"
  shows "gives (parseLikeIlike rec) wf_or_tree"
proof -
  note operand = comparison_gives[OF assms]
  have step: "wf_or_tree e r" if l: "wf_or_tree l t" and s: "like_step rec l t = Some (Inr (e, r))" for l t e r
  proof -
    from s have "\<not> tree_next t" by (auto simp: like_step_def tree_next_def split: if_splits)
    with s infix_wf_or_tree[OF operand l, of _ e r] show ?thesis
      by (auto simp: like_step_def logical_ops_def split: if_splits)
  qed
  show ?thesis
    unfolding parseLikeIlike_def by (rule gives_loop_keeps, rule operand, rule step)
qed

lemma isnull_gives:
  assumes "gives rec wf_strict"
  shows "gives (parseIsNull rec) wf_or_tree"
proof -
  have step: "wf_or_tree e r" if l: "wf_or_tree l t" and s: "isnull_step l t = Some (Inr (e, r))" for l t e r
  proof -
    from s have "\<not> tree_next t" by (auto simp: isnull_step_def tree_next_def split: if_splits)
    with l have "wf_expr l" "valid_tokens t" by (auto simp: wf_or_tree_def)
    with s show ?thesis
      by (auto simp: isnull_step_def Let_def wf_or_tree_def and_then_Inr_iff expect_Inr
          valid_tokens_advance split: if_splits)
  qed
  show ?thesis
    unfolding parseIsNull_def by (rule gives_loop_keeps, rule like_gives[OF assms], rule step)
qed

lemma in_values_wf:
  assumes rec: "gives rec wf_strict"
  shows "valid_tokens toks \<Longrightarrow> in_values rec k toks = Inr (vs, rest) \<Longrightarrow> \<not> tree_next rest \<Longrightarrow>
    valid_tokens rest \<and> vs \<noteq> [] \<and> list_all wf_expr vs"
proof (induction k arbitrary: toks vs)
  case 0
  then show ?case by simp
next
  case (Suc k)
  from Suc.prems(2) obtain v t where v: "parseIsNull rec toks = Inr (v, t)"
    and more: "(if kind t = tokComma
        then and_then (in_values rec k (advance t)) (\<lambda>(vs, toks2). Inr (v # vs, toks2))
        else Inr ([v], t)) = Inr (vs, rest)"
    by (auto simp: and_then_Inr_iff)
  have vt: "wf_or_tree v t" using givesD[OF isnull_gives[OF rec] Suc.prems(1) v] .
  show ?case
  proof (cases "kind t = tokComma")
    case True
    then have "wf_expr v" "valid_tokens (advance t)"
      using vt by (auto simp: wf_or_tree_def tree_next_def valid_tokens_advance)
    moreover obtain vs' where "in_values rec k (advance t) = Inr (vs', rest)" "vs = v # vs'"
      using True more by (auto simp: and_then_Inr_iff)
    ultimately show ?thesis using Suc.IH[of "advance t" vs'] Suc.prems(3) by simp
  next
    case False
    with more vt Suc.prems(3) show ?thesis by (auto simp: wf_or_tree_def)
  qed
qed

lemma in_gives:
  assumes "gives rec wf_strict"
  shows "gives (parseIn rec) wf_or_tree"
proof -
  have step: "wf_or_tree e r" if l: "wf_or_tree l t" and s: "in_step rec l t = Some (Inr (e, r))" for l t e r
  proof -
    from s have k: "kind t = tokIn" by (auto simp: in_step_def split: if_splits)
    with l have wl: "wf_expr l" "valid_tokens (advance (advance t))"
      by (auto simp: wf_or_tree_def tree_next_def valid_tokens_advance)
    from s k obtain vs t2 where vs: "in_values rec (length (advance (advance t))) (advance (advance t)) = Inr (vs, t2)"
      and t2: "kind t2 = tokRParen" and e: "e = InExpr l vs" "r = advance t2"
      by (auto simp: in_step_def and_then_Inr_iff expect_Inr)
    have "valid_tokens t2" "vs \<noteq> []" "list_all wf_expr vs"
      using in_values_wf[OF assms wl(2) vs] t2 by (auto simp: tree_next_def)
    with wl e show ?thesis by (auto simp: wf_or_tree_def valid_tokens_advance)
  qed
  show ?thesis
    unfolding parseIn_def by (rule gives_loop_keeps, rule isnull_gives[OF assms], rule step)
qed

lemma childof_gives:
  assumes "gives rec wf_strict"
  shows "gives (parseChildOf rec) wf_strict"
proof -
  have "wf_or_tree e r" if l: "wf_or_tree l t" and s: "childof_step rec l t = Some (Inr (e, r))" for l t e r
  proof -
    have "valid_tokens (advance t)" using l by (auto simp: wf_or_tree_def valid_tokens_advance)
    with s givesD[OF in_gives[OF assms], of "advance t"] show ?thesis
      by (fastforce simp: childof_step_def Let_def wf_or_tree_def and_then_Inr_iff split: if_splits)
  qed
  from gives_loop[OF in_gives[OF assms] this] show ?thesis
    unfolding parseChildOf_def
    by (rule gives_weaken)
       (auto simp: wf_or_tree_def wf_strict_def childof_step_def tree_next_def Let_def split: if_splits)
qed

lemma not_gives:
  assumes "gives rec wf_strict"
  shows "gives (parseNot rec) wf_strict"
proof -
  have "valid_tokens toks \<Longrightarrow> not_chain rec k toks = Inr (e, rest) \<Longrightarrow> wf_strict e rest" for k toks e rest
  proof (induction k arbitrary: toks e)
    case 0
    then show ?case using givesD[OF childof_gives[OF assms]] by (auto split: if_splits)
  next
    case (Suc k)
    then show ?case
      using givesD[OF childof_gives[OF assms] Suc.prems(1)] valid_tokens_advance[OF Suc.prems(1)]
      by (fastforce simp: and_then_Inr_iff wf_strict_def split: if_splits)
  qed
  then show ?thesis by (simp add: gives_def parseNot_def)
qed

lemma infix_strict:
  assumes "gives operand wf_strict" "oper \<in> set logical_ops" "wf_strict l t"
    and "infix_step operand oper l t = Inr (e, r)"
  shows "wf_strict e r"
proof -
  have "valid_tokens t" using assms(3) by (simp add: wf_strict_def)
  from infix_keeps[OF assms(1) this assms(4)] assms(2,3) show ?thesis
    by (auto simp: wf_strict_def)
qed

lemma and_gives:
  assumes "gives rec wf_strict"
  shows "gives (parseAnd rec) wf_strict"
proof -
  note operand = not_gives[OF assms]
  have step: "wf_strict e r" if "wf_strict l t" "and_step rec l t = Some (Inr (e, r))" for l t e r
    using that infix_strict[OF operand, of "''AND''" l t e r]
    by (auto simp: and_step_def logical_ops_def split: if_splits)
  show ?thesis
    unfolding parseAnd_def by (rule gives_loop_keeps, rule operand, rule step)
qed

lemma or_gives: "gives (parseOr n) wf_strict"
proof (induction n)
  case 0
  show ?case by (simp add: gives_def)
next
  case (Suc n)
  note operand = and_gives[OF Suc.IH]
  have "wf_strict e r" if "wf_strict l t" "or_step (parseOr n) l t = Some (Inr (e, r))" for l t e r
    using that infix_strict[OF operand, of "''OR''" l t e r]
    by (auto simp: or_step_def logical_ops_def split: if_splits)
  from gives_loop[OF operand this] show ?case
    by (simp add: gives_def)
qed

lemma Parse_wf_expr: "Parse src = Inr e \<Longrightarrow> wf_expr e"
proof -
  assume p: "Parse src = Inr e"
  then obtain toks rest where lexed: "lex src = Inr toks"
    and parsed: "parseOr (length toks) toks = Inr (e, rest)"
    by (auto simp: Parse_def parse_tokens_def and_then_Inr_iff split: sum.splits if_splits)
  have "valid_tokens toks" using lexed by (auto simp: lex_def intro: tokenize_valid)
  from givesD[OF or_gives this parsed] show "wf_expr e" by (simp add: wf_strict_def)
qed

section \<open>Properties of the parser\<close>

text \<open>
  (C6) Printing and parsing agree: the concrete syntax of any well-formed domain expression lexes
  and parses back to exactly that expression, for every nesting of operators, string literals with
  quotes in them, \<^verbatim>\<open>IN\<close> lists and tree predicates.
\<close>
theorem parse_print_roundtrip: "wf_expr e \<Longrightarrow> Parse (print_expr e) = Inr e"
  by (rule parse_printed)

definition sample_expr :: expr where
  "sample_expr = BinaryExpr ''OR''
     (UnaryExpr ''NOT'' (BinaryExpr ''='' (RecordField ''owner_id'') (UserAttr ''id'')))
     (BinaryExpr ''AND'' (InExpr (RecordField ''state'') [Literal (LString ''it's''), Literal LNull])
       (TreeExpr ''child_of'' (TenantAttr ''root_id'')))"

theorem parse_print_roundtrip_witness:
  "wf_expr sample_expr \<and> Parse (print_expr sample_expr) = Inr sample_expr"
proof -
  have "wf_expr sample_expr" by code_simp
  with parse_print_roundtrip[of sample_expr] show ?thesis by simp
qed

text \<open>
  (C26) The parser returns well-formed expressions only: operators come from the grammar's operator
  sets, names are identifiers that are no keyword, number texts are numerals, \<^verbatim>\<open>IN\<close> lists are not
  empty, and no bare \<^verbatim>\<open>record\<close> survives in the tree.
\<close>
theorem Parse_returns_wellformed: "Parse src = Inr e \<Longrightarrow> wf_expr e"
  by (rule Parse_wf_expr)

theorem Parse_returns_wellformed_witness:
  "Parse ''record.a = 1'' = Inr (BinaryExpr ''='' (RecordField ''a'') (Literal (LNumber ''1''))) \<and>
   wf_expr (BinaryExpr ''='' (RecordField ''a'') (Literal (LNumber ''1'')))"
proof -
  have p: "Parse ''record.a = 1'' = Inr (BinaryExpr ''='' (RecordField ''a'') (Literal (LNumber ''1'')))"
    by code_simp
  from p Parse_returns_wellformed[OF p] show ?thesis by simp
qed

text \<open>
  (C34) The parser always answers: on every input it returns an expression or one of its own errors,
  never the fuel exhaustion of the model, so the recursion of the source ends on every string.
\<close>
theorem Parse_total: "(\<exists>e. Parse src = Inr e) \<or> (\<exists>err. Parse src = Inl err \<and> err \<noteq> OutOfFuel)"
  using Parse_fuel[of src] by (cases "Parse src") auto

end
