(* ===== verification/Go_Values.thy ===== *)
theory Go_Values
  imports Go_Prelude Complex_Main "HOL-Library.Monad_Syntax" "HOL-Library.Word"
begin

text \<open>
  The parts of Go's standard library the evaluator of domain expressions computes with:
  \<^verbatim>\<open>float64\<close> values with round-to-nearest-even conversion, \<^verbatim>\<open>strconv.ParseInt\<close> and
  \<^verbatim>\<open>strconv.ParseFloat\<close> on the numerals the lexer admits (a digit, then digits and dots),
  \<^verbatim>\<open>cmp.Compare\<close>, and \<^verbatim>\<open>time.Parse\<close> for the layout \<^verbatim>\<open>time.RFC3339Nano\<close>. An instant is the number
  of nanoseconds since 1970-01-01T00:00:00Z, which is what \<^verbatim>\<open>Time.Compare\<close> orders.
\<close>

section \<open>Floating point\<close>

text \<open>No sign of zero: the engine only compares, and the two zeros compare equal.\<close>

datatype f64 = NaN | NInf | PInf | Fin rat

fun bits :: "nat \<Rightarrow> nat" where
  "bits n = (if n = 0 then 0 else Suc (bits (n div 2)))"

declare bits.simps [simp del]

text \<open>The exponent \<open>e\<close> with \<open>2\<^sup>e \<le> q < 2\<^sup>e\<^sup>+\<^sup>1\<close>, for positive \<open>q\<close>.\<close>

definition ilog2 :: "rat \<Rightarrow> int" where
  "ilog2 q = (let (n, d) = quotient_of q; k = int (bits (nat n)) - int (bits (nat d))
     in if 2 powi k \<le> q then k else k - 1)"

definition round_even :: "rat \<Rightarrow> int" where
  "round_even q = (let n = \<lfloor>q\<rfloor>; r = q - of_int n in
     if r < 1 / 2 then n else if r > 1 / 2 then n + 1 else if even n then n else n + 1)"

text \<open>The nearest \<^verbatim>\<open>float64\<close>: 53 significant bits, the subnormal spacing below, infinity above.\<close>

definition rnd64 :: "rat \<Rightarrow> f64" where
  "rnd64 q =
     (if q = 0 then Fin 0
      else let ulp = 2 powi (max (ilog2 \<bar>q\<bar> - 52) (- 1074)); v = of_int (round_even (\<bar>q\<bar> / ulp)) * ulp
      in if v \<ge> 2 ^ 1024 then (if q < 0 then NInf else PInf) else Fin (sgn q * v))"

text \<open>\<^verbatim>\<open>cmp.Compare\<close>: NaN sorts before every number and equals itself.\<close>

definition cmp :: "'a::linorder \<Rightarrow> 'a \<Rightarrow> int" where
  "cmp x y = (if x < y then - 1 else if x > y then 1 else 0)"

fun cmp_f64 :: "f64 \<Rightarrow> f64 \<Rightarrow> int" where
  "cmp_f64 (Fin x) (Fin y) = cmp x y"
| "cmp_f64 NaN NaN = 0"
| "cmp_f64 NaN y = - 1"
| "cmp_f64 x NaN = 1"
| "cmp_f64 NInf NInf = 0"
| "cmp_f64 NInf y = - 1"
| "cmp_f64 x NInf = 1"
| "cmp_f64 PInf PInf = 0"
| "cmp_f64 PInf y = 1"
| "cmp_f64 x PInf = - 1"

section \<open>Numerals\<close>

text \<open>\<^verbatim>\<open>strconv.ParseInt(s, 10, 64)\<close> on digits and dots: a dot is a syntax error, a value over
  \<^verbatim>\<open>math.MaxInt64\<close> a range error.\<close>

definition ParseInt :: "string \<Rightarrow> int option" where
  "ParseInt s =
     (if s \<noteq> [] \<and> list_all isDigit s \<and> nat_of_digits s < 2 ^ 63 then Some (int (nat_of_digits s))
      else None)"

text \<open>\<^verbatim>\<open>strconv.ParseFloat(s, 64)\<close> on digits and dots: at most one dot, at least one digit, and a
  range error when the nearest value is infinite.\<close>

definition decimal :: "string \<Rightarrow> rat option" where
  "decimal s = (case cut (CHR ''.'') s of (whole, fraction, _) \<Rightarrow>
     if whole @ fraction \<noteq> [] \<and> list_all isDigit (whole @ fraction)
     then Some (of_nat (nat_of_digits (whole @ fraction)) / 10 ^ length fraction) else None)"

definition ParseFloat :: "string \<Rightarrow> f64 option" where
  "ParseFloat s = do {
     q \<leftarrow> decimal s;
     case rnd64 q of Fin v \<Rightarrow> Some (Fin v) | _ \<Rightarrow> None }"

section \<open>Timestamps\<close>

definition daysIn :: "nat \<Rightarrow> nat \<Rightarrow> nat" where
  "daysIn m y =
     (if m = 2 then (if y mod 4 = 0 \<and> (y mod 100 \<noteq> 0 \<or> y mod 400 = 0) then 29 else 28)
      else if m \<in> {4, 6, 9, 11} then 30 else 31)"

text \<open>Days from 1970-01-01 to a date of the proleptic Gregorian calendar, counting years from March.\<close>

definition unix_days :: "nat \<Rightarrow> nat \<Rightarrow> nat \<Rightarrow> int" where
  "unix_days y m d =
     (let y' = int y - (if m \<le> 2 then 1 else 0); m' = (int m + 9) mod 12;
          day_of_year = (153 * m' + 2) div 5 + int d - 1
      in 365 * y' + y' div 4 - y' div 100 + y' div 400 + day_of_year - 719468)"

text \<open>\<^verbatim>\<open>getnum\<close>: two digits, or one when the field is not fixed-width.\<close>

fun getnum :: "bool \<Rightarrow> string \<Rightarrow> (nat \<times> string) option" where
  "getnum fixed (a # b # rest) =
     (if isDigit a \<and> isDigit b then Some (10 * digit_val a + digit_val b, rest)
      else if isDigit a \<and> \<not> fixed then Some (digit_val a, b # rest) else None)"
| "getnum fixed [a] = (if isDigit a \<and> \<not> fixed then Some (digit_val a, []) else None)"
| "getnum fixed [] = None"

fun skip_char :: "char \<Rightarrow> string \<Rightarrow> string option" where
  "skip_char c (d # rest) = (if c = d then Some rest else None)"
| "skip_char c [] = None"

definition guard :: "bool \<Rightarrow> unit option" where
  "guard b = (if b then Some () else None)"

definition get_year :: "string \<Rightarrow> (nat \<times> string) option" where
  "get_year s = do {
     guard (length s \<ge> 4 \<and> list_all isDigit (take 4 s));
     Some (nat_of_digits (take 4 s), drop 4 s) }"

text \<open>The optional fraction of a second: a dot or a comma and any number of digits, of which nine
  count.\<close>

definition get_nanos :: "string \<Rightarrow> nat \<times> string" where
  "get_nanos s = (case s of
       c # rest \<Rightarrow>
         (let ds = takeWhile isDigit rest; used = take 9 ds in
          if c \<in> {CHR ''.'', CHR '',''} \<and> ds \<noteq> []
          then (nat_of_digits used * 10 ^ (9 - length used), drop (length ds) rest) else (0, s))
     | [] \<Rightarrow> (0, s))"

text \<open>\<^verbatim>\<open>Z07:00\<close>: the offset from UTC in seconds.\<close>

definition get_zone :: "string \<Rightarrow> (int \<times> string) option" where
  "get_zone s = (case s of
       [] \<Rightarrow> None
     | sign # rest \<Rightarrow>
         if sign = CHR ''Z'' then Some (0, rest)
         else do {
           (hr, s1) \<leftarrow> getnum True rest;
           s2 \<leftarrow> skip_char (CHR '':'') s1;
           (mm, s3) \<leftarrow> getnum True s2;
           guard (hr \<le> 24 \<and> mm \<le> 60 \<and> sign \<in> {CHR ''+'', CHR ''-''});
           let off = (int hr * 60 + int mm) * 60;
           Some (if sign = CHR ''-'' then - off else off, s3) })"

definition parse_rfc3339 :: "string \<Rightarrow> int option" where
  "parse_rfc3339 s = do {
     (year, s) \<leftarrow> get_year s;
     s \<leftarrow> skip_char (CHR ''-'') s;
     (month, s) \<leftarrow> getnum True s;
     s \<leftarrow> skip_char (CHR ''-'') s;
     (day, s) \<leftarrow> getnum True s;
     s \<leftarrow> skip_char (CHR ''T'') s;
     (hour, s) \<leftarrow> getnum False s;
     s \<leftarrow> skip_char (CHR '':'') s;
     (minute, s) \<leftarrow> getnum True s;
     s \<leftarrow> skip_char (CHR '':'') s;
     (sec, s) \<leftarrow> getnum True s;
     let (nanos, s) = get_nanos s;
     (off, s) \<leftarrow> get_zone s;
     guard (s = [] \<and> 1 \<le> month \<and> month \<le> 12 \<and> 1 \<le> day \<and> day \<le> daysIn month year \<and>
       hour < 24 \<and> minute < 60 \<and> sec < 60);
     Some (((unix_days year month day * 24 + int hour) * 60 + int minute) * 60 * 1000000000
       + (int sec - off) * 1000000000 + int nanos) }"

section \<open>Facts\<close>

lemma cmp_0_iff [simp]: "cmp x y = 0 \<longleftrightarrow> x = y"
  by (auto simp: cmp_def)

lemma cmp_swap: "cmp y x = - cmp x y"
  by (auto simp: cmp_def)

lemma cmp_f64_swap: "cmp_f64 y x = - cmp_f64 x y"
  by (cases x; cases y) (simp_all add: cmp_def)

lemma cmp_f64_0_iff: "cmp_f64 x y = 0 \<longleftrightarrow> x = y"
  by (cases x; cases y) simp_all

lemma bits_bounds: "n > 0 \<Longrightarrow> 2 ^ (bits n - 1) \<le> n \<and> n < 2 ^ bits n \<and> bits n > 0"
proof (induction n rule: bits.induct)
  case (1 n)
  show ?case
  proof (cases "n div 2 = 0")
    case True
    with 1 have "n = 1" by linarith
    then show ?thesis by (simp add: bits.simps)
  next
    case False
    with 1 have IH: "2 ^ (bits (n div 2) - 1) \<le> n div 2" "n div 2 < 2 ^ bits (n div 2)" "bits (n div 2) > 0"
      by auto
    from IH(1,3) have "2 ^ bits (n div 2) \<le> n"
      by (cases "bits (n div 2)") auto
    moreover from IH(2) have "n < 2 * 2 ^ bits (n div 2)" by linarith
    ultimately show ?thesis using 1 by (simp add: bits.simps[of n])
  qed
qed

lemma ilog2_bounds:
  assumes "q > 0"
  shows "2 powi ilog2 q \<le> q" "q < 2 powi (ilog2 q + 1)"
proof -
  obtain n d where nd: "quotient_of q = (n, d)" by force
  have d: "d > 0" and q: "q = of_int n / of_int d"
    using quotient_of_denom_pos[OF nd] quotient_of_div[OF nd] by auto
  with assms have n: "n > 0" by (simp add: zero_less_divide_iff)
  define a b where "a = bits (nat n)" and "b = bits (nat d)"
  have "2 ^ (a - 1) \<le> nat n \<and> nat n < 2 ^ a \<and> a > 0" "2 ^ (b - 1) \<le> nat d \<and> nat d < 2 ^ b \<and> b > 0"
    using bits_bounds[of "nat n"] bits_bounds[of "nat d"] n d by (auto simp: a_def b_def)
  then have "rat_of_nat (2 ^ (a - 1)) \<le> of_nat (nat n)" "rat_of_nat (nat n) < of_nat (2 ^ a)"
     "rat_of_nat (2 ^ (b - 1)) \<le> of_nat (nat d)" "rat_of_nat (nat d) < of_nat (2 ^ b)" and ab: "a > 0" "b > 0"
    by (auto simp only: of_nat_le_iff of_nat_less_iff)
  then have bn: "2 ^ (a - 1) \<le> rat_of_int n" "rat_of_int n < 2 ^ a" "2 ^ (b - 1) \<le> rat_of_int d" "rat_of_int d < 2 ^ b"
    using n d by simp_all
  have pa: "(2::rat) ^ a = 2 * 2 ^ (a - 1)" "(2::rat) ^ b = 2 * 2 ^ (b - 1)"
    using ab by (simp_all add: power_eq_if)
  have k: "(2::rat) powi (int a - int b) = 2 ^ a / 2 ^ b"
    by (simp add: power_int_diff)
  have k1: "(2::rat) powi (int a - int b + 1) = 2 * (2 ^ a / 2 ^ b)" "(2::rat) powi (int a - int b - 1) = 2 ^ a / 2 ^ b / 2"
    by (simp_all add: power_int_add power_int_diff)
  have upper: "q < 2 * (2 ^ a / 2 ^ b)"
  proof -
    have "q \<le> rat_of_int n / 2 ^ (b - 1)" unfolding q using bn n d by (intro divide_left_mono) auto
    also have "\<dots> < 2 ^ a / 2 ^ (b - 1)" using bn by (simp add: divide_strict_right_mono)
    finally show ?thesis by (simp add: pa)
  qed
  have lower: "2 ^ a / 2 ^ b / 2 < q"
  proof -
    have "2 ^ a / 2 ^ b / 2 = (2::rat) ^ (a - 1) / 2 ^ b" by (simp add: pa(1))
    also have "\<dots> \<le> rat_of_int n / 2 ^ b" using bn(1) by (intro divide_right_mono) auto
    also have "\<dots> < q" unfolding q using bn n d by (intro divide_strict_left_mono) auto
    finally show ?thesis .
  qed
  have log: "ilog2 q = (if 2 powi (int a - int b) \<le> q then int a - int b else int a - int b - 1)"
    by (simp only: ilog2_def nd a_def b_def Let_def prod.case)
  show "2 powi ilog2 q \<le> q"
  proof (cases "2 powi (int a - int b) \<le> q")
    case True
    then show ?thesis by (simp only: log if_True)
  next
    case False
    with lower show ?thesis by (simp only: log if_False k1 less_imp_le)
  qed
  show "q < 2 powi (ilog2 q + 1)"
  proof (cases "2 powi (int a - int b) \<le> q")
    case True
    with upper show ?thesis by (simp only: log if_True k1)
  next
    case False
    then have "ilog2 q + 1 = int a - int b" by (simp only: log if_False diff_add_cancel)
    with False show ?thesis by (simp only: not_le)
  qed
qed

lemma round_even_int [simp]: "round_even (of_int i) = i"
  by (simp add: round_even_def)

text \<open>An integer of at most 53 bits is a \<^verbatim>\<open>float64\<close>: the conversion is exact.\<close>

lemma rnd64_exact:
  assumes "\<bar>i\<bar> \<le> 2 ^ 53"
  shows "rnd64 (of_int i) = Fin (of_int i)"
proof (cases "i = 0")
  case True
  then show ?thesis by (simp add: rnd64_def)
next
  case False
  define e where "e = ilog2 (rat_of_int \<bar>i\<bar>)"
  have e: "2 powi e \<le> rat_of_int \<bar>i\<bar>" "rat_of_int \<bar>i\<bar> < 2 powi (e + 1)"
    using ilog2_bounds[of "rat_of_int \<bar>i\<bar>"] False by (simp_all add: e_def)
  have e0: "e \<ge> 0"
  proof (rule ccontr)
    assume "\<not> e \<ge> 0"
    then have "(2::rat) powi (e + 1) \<le> 2 powi 0" by (intro power_int_increasing) auto
    with e(2) have "rat_of_int \<bar>i\<bar> < of_int 1" by simp
    then have "\<bar>i\<bar> < 1" by (simp only: of_int_less_iff)
    with False show False by linarith
  qed
  have i53: "rat_of_int \<bar>i\<bar> \<le> 2 powi 53"
  proof -
    have "rat_of_int \<bar>i\<bar> \<le> rat_of_int (2 ^ 53)" using assms by (simp only: of_int_le_iff)
    then show ?thesis by simp
  qed
  have e53: "e \<le> 53"
  proof (rule ccontr)
    assume "\<not> e \<le> 53"
    then have "(2::rat) powi 53 < 2 powi e" by (intro power_int_strict_increasing) auto
    with e(1) i53 show False by linarith
  qed
  define u :: rat where "u = 2 powi (e - 52)"
  have u: "u > 0" by (simp add: u_def)
  have "\<exists>m. rat_of_int \<bar>i\<bar> / u = of_int m"
  proof (cases "e = 53")
    case True
    with e(1) i53 have "rat_of_int \<bar>i\<bar> = 2 powi 53" by simp
    then have "rat_of_int \<bar>i\<bar> / u = of_int (2 ^ 52)" by (simp add: u_def True)
    then show ?thesis by blast
  next
    case False
    with e53 have "(2::rat) powi (52 - e) = of_int (2 ^ nat (52 - e))" by (simp add: power_int_def)
    moreover have "rat_of_int \<bar>i\<bar> / u = of_int \<bar>i\<bar> * 2 powi (52 - e)"
      by (simp add: u_def power_int_diff)
    ultimately have "rat_of_int \<bar>i\<bar> / u = of_int (\<bar>i\<bar> * 2 ^ nat (52 - e))" by simp
    then show ?thesis by blast
  qed
  then obtain m where m: "rat_of_int \<bar>i\<bar> / u = of_int m" ..
  then have mu: "rat_of_int m * u = rat_of_int \<bar>i\<bar>" using u by (simp add: field_simps)
  have big: "\<not> 2 ^ 1024 \<le> rat_of_int \<bar>i\<bar>"
  proof -
    have "rat_of_int \<bar>i\<bar> \<le> 2 ^ 53" using i53 power_int_of_nat[of "2::rat" 53] by (simp only: of_nat_numeral)
    also have "(2::rat) ^ 53 < 2 ^ 1024" by (rule power_strict_increasing) simp_all
    finally show ?thesis by (simp only: not_le)
  qed
  have max: "max (e - 52) (- 1074) = e - 52" using e0 by simp
  have ulp: "2 powi max (ilog2 \<bar>rat_of_int i\<bar> - 52) (- 1074) = u"
    by (simp add: of_int_abs[symmetric] e_def[symmetric] max u_def del: of_int_abs)
  have v: "of_int (round_even (\<bar>rat_of_int i\<bar> / u)) * u = rat_of_int \<bar>i\<bar>"
    by (simp only: of_int_abs[symmetric] m round_even_int mu)
  have "rnd64 (of_int i) = Fin (sgn (of_int i) * of_int \<bar>i\<bar>)"
    unfolding rnd64_def Let_def ulp v using False big by (simp only: of_int_eq_0_iff if_False)
  then show ?thesis by (simp add: sgn_mult_abs)
qed

end
