(* ===== verification/Domain_Eval.thy ===== *)
theory Domain_Eval
  imports Domain_Wellformed Go_Values
begin

text \<open>
  In-memory evaluation of domain expressions: \<^verbatim>\<open>domain/eval.go\<close>, the field collector
  \<^verbatim>\<open>domain/fields.go\<close> and the static check \<^verbatim>\<open>domain/validate_eval.go\<close>.

  A Go \<^verbatim>\<open>any\<close> that \<^verbatim>\<open>eval\<close> returns is a \<open>gvalue\<close> (\<^verbatim>\<open>nil\<close> is \<open>VNull\<close>, SQL's NULL and unknown); a column
  value of \<^verbatim>\<open>Env.Record\<close> is a \<open>raw\<close> of one of the dynamic types \<^verbatim>\<open>normalize\<close> distinguishes, machine
  integers at their width. \<^verbatim>\<open>evalBinary\<close> and its helpers take the results of their operands instead
  of the operands: evaluation has no effect, so an operand the Go code does not reach is a result
  the model does not look at.
\<close>

section \<open>Values and errors\<close>

datatype gvalue =
    VNull
  | VBool bool
  | VString string
  | VInt "64 word"
  | VFloat f64
  | VTime int

datatype raw =
    RNil
  | RBool bool
  | RString string
  | RInt64 "64 word"
  | RFloat64 f64
  | RTime int
  | RBytes string
  | RUuid string
  | RInt "64 word"
  | RInt8 "8 word"
  | RInt16 "16 word"
  | RInt32 "32 word"
  | RUint8 "8 word"
  | RUint16 "16 word"
  | RUint32 "32 word"
  | RUint "64 word"
  | RUint64 "64 word"
  | RFloat32 f64
  | RStringer "string option"
  | ROther string

text \<open>\<open>RStringer None\<close> is a nil pointer whose type has a \<^verbatim>\<open>String\<close> method; \<open>ROther\<close> carries the name
  of a type with no comparable form.\<close>

record env =
  Record :: "string \<rightharpoonup> raw"
  UserID :: string
  ContactID :: string
  TenantID :: string
  Roles :: "string list"
  HasPermission :: "(string \<Rightarrow> bool) option"

datatype eval_error =
    BareRecordValue
  | NoField string
  | AttrNotBound string
  | TenantNotBound string
  | NoResolver string
  | TreeNotSupported string
  | LikeRejected string
  | BadOperator string
  | NotABooleanOperand string
  | NotABooleanResult string
  | InvalidNumber string
  | NoComparableForm string
  | CannotCompare string string
  | NotATimestamp string

type_synonym vresult = "(eval_error, gvalue) result"

fun type_name :: "gvalue \<Rightarrow> string" where
  "type_name VNull = ''<nil>''"
| "type_name (VBool _) = ''bool''"
| "type_name (VString _) = ''string''"
| "type_name (VInt _) = ''int64''"
| "type_name (VFloat _) = ''float64''"
| "type_name (VTime _) = ''time.Time''"

section \<open>Normalisation of record values\<close>

definition hex_char :: "nat \<Rightarrow> char" where
  "hex_char d = (if d < 10 then char_of (48 + d) else char_of (87 + d))"

definition hex_bytes :: "string \<Rightarrow> string" where
  "hex_bytes s = concat (map (\<lambda>c. [hex_char (of_char c div 16), hex_char (of_char c mod 16)]) s)"

definition uuid_string :: "string \<Rightarrow> string" where
  "uuid_string u = join ''-'' (map hex_bytes
     [take 4 u, take 2 (drop 4 u), take 2 (drop 6 u), take 2 (drop 8 u), drop 10 u])"

definition normalizeUnsigned :: "64 word \<Rightarrow> gvalue" where
  "normalizeUnsigned v = (if uint v > 2 ^ 63 - 1 then VFloat (rnd64 (of_int (uint v))) else VInt v)"

fun normalize :: "raw \<Rightarrow> vresult" where
  "normalize RNil = Inr VNull"
| "normalize (RBool b) = Inr (VBool b)"
| "normalize (RString s) = Inr (VString s)"
| "normalize (RInt64 i) = Inr (VInt i)"
| "normalize (RFloat64 f) = Inr (VFloat f)"
| "normalize (RTime t) = Inr (VTime t)"
| "normalize (RBytes s) = Inr (VString s)"
| "normalize (RUuid u) = Inr (VString (uuid_string u))"
| "normalize (RInt i) = Inr (VInt i)"
| "normalize (RInt8 i) = Inr (VInt (word_of_int (sint i)))"
| "normalize (RInt16 i) = Inr (VInt (word_of_int (sint i)))"
| "normalize (RInt32 i) = Inr (VInt (word_of_int (sint i)))"
| "normalize (RUint8 i) = Inr (VInt (word_of_int (uint i)))"
| "normalize (RUint16 i) = Inr (VInt (word_of_int (uint i)))"
| "normalize (RUint32 i) = Inr (VInt (word_of_int (uint i)))"
| "normalize (RUint i) = Inr (normalizeUnsigned i)"
| "normalize (RUint64 i) = Inr (normalizeUnsigned i)"
| "normalize (RFloat32 f) = Inr (VFloat f)"
| "normalize (RStringer None) = Inr VNull"
| "normalize (RStringer (Some s)) = Inr (VString s)"
| "normalize (ROther t) = Inl (NoComparableForm t)"

section \<open>Comparison\<close>

definition float_of_int64 :: "64 word \<Rightarrow> f64" where
  "float_of_int64 i = rnd64 (of_int (sint i))"

definition compareBool :: "bool \<Rightarrow> bool \<Rightarrow> int" where
  "compareBool a b = (if a = b then 0 else if b then - 1 else 1)"

definition parseTime :: "string \<Rightarrow> (eval_error, int) result" where
  "parseTime s = (case parse_rfc3339 s of Some t \<Rightarrow> Inr t | None \<Rightarrow> Inl (NotATimestamp s))"

fun compare :: "gvalue \<Rightarrow> gvalue \<Rightarrow> (eval_error, int) result" where
  "compare (VBool x) (VBool y) = Inr (compareBool x y)"
| "compare (VString x) (VString y) = Inr (cmp x y)"
| "compare (VString x) (VTime y) = and_then (parseTime x) (\<lambda>t. Inr (cmp t y))"
| "compare (VInt x) (VInt y) = Inr (cmp (sint x) (sint y))"
| "compare (VInt x) (VFloat y) = Inr (cmp_f64 (float_of_int64 x) y)"
| "compare (VFloat x) (VInt y) = Inr (cmp_f64 x (float_of_int64 y))"
| "compare (VFloat x) (VFloat y) = Inr (cmp_f64 x y)"
| "compare (VTime x) (VTime y) = Inr (cmp x y)"
| "compare (VTime x) (VString y) = and_then (parseTime y) (\<lambda>t. Inr (cmp x t))"
| "compare a b = Inl (CannotCompare (type_name a) (type_name b))"

section \<open>Evaluation\<close>

fun literalValue :: "literal \<Rightarrow> vresult" where
  "literalValue LNull = Inr VNull"
| "literalValue (LBool b) = Inr (VBool b)"
| "literalValue (LString s) = Inr (VString s)"
| "literalValue (LNumber s) = (case ParseInt s of
      Some i \<Rightarrow> Inr (VInt (word_of_int i))
    | None \<Rightarrow> (case ParseFloat s of Some f \<Rightarrow> Inr (VFloat f) | None \<Rightarrow> Inl (InvalidNumber s)))"

text \<open>A Go \<^verbatim>\<open>*bool\<close>: \<^const>\<open>None\<close> is the nil pointer.\<close>

fun asBool :: "gvalue \<Rightarrow> (eval_error, bool option) result" where
  "asBool VNull = Inr None"
| "asBool (VBool b) = Inr (Some b)"
| "asBool v = Inl (NotABooleanOperand (type_name v))"

definition evalBool :: "vresult \<Rightarrow> (eval_error, bool option) result" where
  "evalBool r = and_then r asBool"

definition evalLogical :: "string \<Rightarrow> vresult \<Rightarrow> vresult \<Rightarrow> vresult" where
  "evalLogical oper l r =
     and_then (evalBool l) (\<lambda>left. and_then (evalBool r) (\<lambda>right.
       let decisive = (oper = ''OR'') in
       if left = Some decisive \<or> right = Some decisive then Inr (VBool decisive)
       else if left = None \<or> right = None then Inr VNull
       else Inr (VBool (\<not> decisive))))"

definition evalBinary :: "string \<Rightarrow> vresult \<Rightarrow> vresult \<Rightarrow> vresult" where
  "evalBinary oper l r =
     (if oper = ''LIKE'' \<or> oper = ''ILIKE'' then Inl (LikeRejected oper)
      else if oper = ''AND'' \<or> oper = ''OR'' then evalLogical oper l r
      else and_then l (\<lambda>left. and_then r (\<lambda>right.
        if left = VNull \<or> right = VNull then Inr VNull
        else and_then (compare left right) (\<lambda>order.
          if oper = ''='' then Inr (VBool (order = 0))
          else if oper = ''!='' then Inr (VBool (order \<noteq> 0))
          else if oper = ''<'' then Inr (VBool (order < 0))
          else if oper = ''>'' then Inr (VBool (order > 0))
          else if oper = ''<='' then Inr (VBool (order \<le> 0))
          else if oper = ''>='' then Inr (VBool (order \<ge> 0))
          else Inl (BadOperator oper)))))"

definition evalNot :: "gvalue \<Rightarrow> vresult" where
  "evalNot operand = and_then (asBool operand)
     (\<lambda>b. case b of None \<Rightarrow> Inr VNull | Some b \<Rightarrow> Inr (VBool (\<not> b)))"

definition evalUserAttr :: "env \<Rightarrow> string \<Rightarrow> vresult" where
  "evalUserAttr env a =
     (let bind = (\<lambda>s. Inr (if s = [] then VNull else VString s)) in
      if a = ''id'' then bind (UserID env)
      else if a = ''contact_id'' then bind (ContactID env)
      else if a = ''tenant_id'' then bind (TenantID env)
      else Inl (AttrNotBound a))"

fun eval :: "env \<Rightarrow> expr \<Rightarrow> vresult"
and evalIn :: "env \<Rightarrow> gvalue \<Rightarrow> bool \<Rightarrow> bool \<Rightarrow> expr list \<Rightarrow> vresult" where
  "eval env (RecordField f) =
     (if f = [] then Inl BareRecordValue
      else case Record env f of None \<Rightarrow> Inl (NoField f) | Some v \<Rightarrow> normalize v)"
| "eval env (UserAttr a) = evalUserAttr env a"
| "eval env (TenantAttr f) = Inl (TenantNotBound f)"
| "eval env (RoleCheck r) = Inr (VBool (r \<in> set (Roles env)))"
| "eval env (PermCheck p) =
     (case HasPermission env of None \<Rightarrow> Inl (NoResolver p) | Some has \<Rightarrow> Inr (VBool (has p)))"
| "eval env (Literal l) = literalValue l"
| "eval env (UnaryExpr oper e) = and_then (eval env e) evalNot"
| "eval env (IsNullExpr e neg) = and_then (eval env e) (\<lambda>v. Inr (VBool ((v = VNull) \<noteq> neg)))"
| "eval env (InExpr e vs) = and_then (eval env e) (\<lambda>v. evalIn env v (v = VNull) False vs)"
| "eval env (BinaryExpr oper l r) = evalBinary oper (eval env l) (eval env r)"
| "eval env (TreeExpr oper e) = Inl (TreeNotSupported oper)"
| "evalIn env operand sawNull matched [] =
     Inr (if matched then VBool True else if sawNull then VNull else VBool False)"
| "evalIn env operand sawNull matched (ve # vs) =
     and_then (eval env ve) (\<lambda>v.
       if operand = VNull \<or> v = VNull then evalIn env operand True matched vs
       else and_then (compare operand v) (\<lambda>order.
         evalIn env operand sawNull (matched \<or> order = 0) vs))"

definition Eval :: "expr \<Rightarrow> env \<Rightarrow> (eval_error, bool) result" where
  "Eval e env = and_then (eval env e) (\<lambda>v.
     case v of VNull \<Rightarrow> Inr False | VBool b \<Rightarrow> Inr b | _ \<Rightarrow> Inl (NotABooleanResult (type_name v)))"

section \<open>Fields read and static check\<close>

fun collectRecordFields :: "expr \<Rightarrow> string set \<Rightarrow> string set" where
  "collectRecordFields (RecordField f) seen = (if f \<noteq> [] then insert f seen else seen)"
| "collectRecordFields (BinaryExpr _ l r) seen = collectRecordFields r (collectRecordFields l seen)"
| "collectRecordFields (UnaryExpr _ e) seen = collectRecordFields e seen"
| "collectRecordFields (IsNullExpr e _) seen = collectRecordFields e seen"
| "collectRecordFields (InExpr e vs) seen = fold collectRecordFields vs (collectRecordFields e seen)"
| "collectRecordFields (TreeExpr _ e) seen = collectRecordFields e seen"
| "collectRecordFields _ seen = seen"

definition RecordFields :: "expr \<Rightarrow> string list" where
  "RecordFields e = sorted_list_of_set (collectRecordFields e {})"

datatype validate_error =
    VBareRecord
  | VTenant string
  | VNotInMemory string

fun ValidateEval :: "expr \<Rightarrow> validate_error option" where
  "ValidateEval (RecordField f) = (if f = [] then Some VBareRecord else None)"
| "ValidateEval (UserAttr _) = None"
| "ValidateEval (RoleCheck _) = None"
| "ValidateEval (PermCheck _) = None"
| "ValidateEval (Literal _) = None"
| "ValidateEval (TenantAttr f) = Some (VTenant f)"
| "ValidateEval (TreeExpr oper _) = Some (VNotInMemory oper)"
| "ValidateEval (BinaryExpr oper l r) =
     (if oper = ''LIKE'' \<or> oper = ''ILIKE'' then Some (VNotInMemory oper)
      else case ValidateEval l of Some err \<Rightarrow> Some err | None \<Rightarrow> ValidateEval r)"
| "ValidateEval (UnaryExpr _ e) = ValidateEval e"
| "ValidateEval (IsNullExpr e _) = ValidateEval e"
| "ValidateEval (InExpr e vs) =
     (case ValidateEval e of Some err \<Rightarrow> Some err | None \<Rightarrow> first_err ValidateEval vs)"

end
