(* ===== verification/Domain_Eval_Props.thy ===== *)
theory Domain_Eval_Props
  imports Domain_Eval
begin

text \<open>
  Properties of the in-memory evaluator: its connectives are the three-valued ones of SQL with
  errors propagated from left to right, \<^verbatim>\<open>IN\<close> is the disjunction of equalities it abbreviates,
  a verdict depends on the record only through the columns \<^verbatim>\<open>RecordFields\<close> lists, and the static
  check \<^verbatim>\<open>ValidateEval\<close> is neither too strict nor blind.
\<close>

section \<open>Three-valued logic\<close>

fun of_tri :: "bool option \<Rightarrow> gvalue" where
  "of_tri None = VNull"
| "of_tri (Some b) = VBool b"

fun tri_not :: "bool option \<Rightarrow> bool option" where
  "tri_not None = None"
| "tri_not (Some b) = Some (\<not> b)"

fun tri_and :: "bool option \<Rightarrow> bool option \<Rightarrow> bool option" where
  "tri_and (Some False) _ = Some False"
| "tri_and _ (Some False) = Some False"
| "tri_and (Some True) b = b"
| "tri_and a (Some True) = a"
| "tri_and None None = None"

definition tri_or :: "bool option \<Rightarrow> bool option \<Rightarrow> bool option" where
  "tri_or a b = tri_not (tri_and (tri_not a) (tri_not b))"

lemma tri_cases: obtains "t = None" | "t = Some True" | "t = Some False"
  by (cases t) auto

lemma tri_or_True [simp]: "tri_or (Some True) b = Some True" "tri_or a (Some True) = Some True"
  by (cases a rule: tri_cases; cases b rule: tri_cases; simp add: tri_or_def)+

lemma tri_or_False [simp]: "tri_or (Some False) b = b" "tri_or a (Some False) = a"
  by (cases a rule: tri_cases; cases b rule: tri_cases; simp add: tri_or_def)+

lemma tri_or_None [simp]: "tri_or None None = None"
  by (simp add: tri_or_def)

lemma asBool_of_tri [simp]: "asBool (of_tri t) = Inr t"
  by (cases t) simp_all

lemma asBool_Inr: "asBool v = Inr t \<longleftrightarrow> v = of_tri t"
  by (cases v; cases t) auto

lemma evalBool_Inl [simp]: "evalBool (Inl err) = Inl err"
  by (simp add: evalBool_def)

lemma evalBool_of_tri [simp]: "evalBool (Inr (of_tri t)) = Inr t"
  by (simp add: evalBool_def)

lemma evalLogical_tri:
  assumes "evalBool l = Inr a" "evalBool r = Inr b"
  shows "evalLogical ''AND'' l r = Inr (of_tri (tri_and a b))"
    and "evalLogical ''OR'' l r = Inr (of_tri (tri_or a b))"
  using assms by (cases a rule: tri_cases; cases b rule: tri_cases; simp add: evalLogical_def)+

lemma evalLogical_Inl1: "evalBool l = Inl err \<Longrightarrow> evalLogical oper l r = Inl err"
  by (simp add: evalLogical_def)

lemma evalLogical_Inl2: "evalBool l = Inr a \<Longrightarrow> evalBool r = Inl err \<Longrightarrow> evalLogical oper l r = Inl err"
  by (simp add: evalLogical_def)

lemma evalBinary_logical [simp]:
  "evalBinary ''AND'' = evalLogical ''AND''" "evalBinary ''OR'' = evalLogical ''OR''"
  by (auto simp: evalBinary_def fun_eq_iff)

lemma eval_not: "eval env (UnaryExpr oper e) = and_then (evalBool (eval env e)) (\<lambda>t. Inr (of_tri (tri_not t)))"
  by (auto simp: evalNot_def evalBool_def and_then_def split: sum.splits option.splits)

lemma evalBool_and_then: "evalBool (and_then r f) = and_then r (\<lambda>x. evalBool (f x))"
  by (cases r) simp_all

lemma evalBool_not [simp]:
  "evalBool (eval env (UnaryExpr oper e)) = and_then (evalBool (eval env e)) (\<lambda>t. Inr (tri_not t))"
  unfolding eval_not by (cases "evalBool (eval env e)") simp_all

lemma tri_not_not [simp]: "tri_not (tri_not t) = t"
  by (cases t) simp_all

lemma evalNot_of_tri [simp]: "evalNot (of_tri t) = Inr (of_tri (tri_not t))"
  by (cases t) (simp_all add: evalNot_def)

lemma de_morgan:
  "evalLogical ''OR'' l' r' = and_then (evalLogical ''AND'' l r) evalNot"
  if "evalBool l' = and_then (evalBool l) (\<lambda>t. Inr (tri_not t))"
    "evalBool r' = and_then (evalBool r) (\<lambda>t. Inr (tri_not t))"
  using that
  by (cases "evalBool l"; cases "evalBool r")
     (auto simp: evalLogical_tri evalLogical_Inl1 evalLogical_Inl2 tri_or_def)

text \<open>A comparison operator is a predicate on what \<^verbatim>\<open>compare\<close> returns, strict in NULL and errors.\<close>

definition compare_with :: "(int \<Rightarrow> bool) \<Rightarrow> vresult \<Rightarrow> vresult \<Rightarrow> vresult" where
  "compare_with P l r = and_then l (\<lambda>x. and_then r (\<lambda>y.
     if x = VNull \<or> y = VNull then Inr VNull else and_then (compare x y) (\<lambda>order. Inr (VBool (P order)))))"

lemma evalBinary_compare [simp]:
  "evalBinary ''='' = compare_with (\<lambda>d. d = 0)"
  "evalBinary ''!='' = compare_with (\<lambda>d. d \<noteq> 0)"
  "evalBinary ''<'' = compare_with (\<lambda>d. d < 0)"
  "evalBinary ''>'' = compare_with (\<lambda>d. d > 0)"
  "evalBinary ''<='' = compare_with (\<lambda>d. d \<le> 0)"
  "evalBinary ''>='' = compare_with (\<lambda>d. d \<ge> 0)"
  by (intro ext, simp add: evalBinary_def compare_with_def cong: if_cong)+

lemma compare_with_not: "and_then (compare_with P l r) evalNot = compare_with (\<lambda>d. \<not> P d) l r"
  by (cases l; cases r) (auto simp: compare_with_def evalNot_def and_then_def split: sum.splits)

definition negations :: "(string \<times> string) list" where
  "negations = [(''='', ''!=''), (''!='', ''=''), (''<'', ''>=''), (''>='', ''<''),
     (''>'', ''<=''), (''<='', ''>'')]"

lemma evalBinary_negated:
  "(oper, oper') \<in> set negations \<Longrightarrow> and_then (evalBinary oper l r) evalNot = evalBinary oper' l r"
  unfolding negations_def by (auto simp: compare_with_not not_le not_less)

section \<open>IN as a disjunction\<close>

definition any_equal :: "expr \<Rightarrow> expr \<Rightarrow> expr list \<Rightarrow> expr" where
  "any_equal x v vs =
     foldl (\<lambda>acc w. BinaryExpr ''OR'' acc (BinaryExpr ''='' x w)) (BinaryExpr ''='' x v) vs"

definition in_state :: "bool \<Rightarrow> bool \<Rightarrow> bool option" where
  "in_state sawNull matched = (if matched then Some True else if sawNull then None else Some False)"

lemma evalIn_Nil_tri: "evalIn env operand sawNull matched [] = Inr (of_tri (in_state sawNull matched))"
  by (simp add: in_state_def)

lemma compare_with_Inr:
  "compare_with P (Inr x) (Inr y) =
     (if x = VNull \<or> y = VNull then Inr VNull else and_then (compare x y) (\<lambda>order. Inr (VBool (P order))))"
  by (simp add: compare_with_def)

lemma compare_with_Inl [simp]: "compare_with P (Inr x) (Inl err) = Inl err" "compare_with P (Inl err) r = Inl err"
  by (simp_all add: compare_with_def)

lemma compare_with_tri:
  assumes "compare_with P (Inr x) r = Inr w"
  shows "\<exists>t. w = of_tri t \<and> (x = VNull \<longrightarrow> t = None)"
proof (cases "w = VNull")
  case True
  then show ?thesis by (intro exI[of _ None]) simp
next
  case False
  with assms obtain y order where "x \<noteq> VNull" "w = VBool (P order)"
    by (cases r) (auto simp: compare_with_Inr and_then_Inr_iff split: if_splits)
  then show ?thesis by (intro exI[of _ "Some (P order)"]) simp
qed

lemma fold_or_Inl:
  "eval env acc = Inl err \<Longrightarrow>
     eval env (foldl (\<lambda>acc w. BinaryExpr ''OR'' acc (BinaryExpr ''='' x w)) acc vs) = Inl err"
  by (induction vs arbitrary: acc) (simp_all add: evalLogical_Inl1)

lemma evalIn_or_step:
  assumes x: "eval env x = Inr operand" and nul: "operand = VNull \<Longrightarrow> sawNull"
    and acc: "eval env acc = Inr (of_tri (in_state sawNull matched))"
  shows "eval env (foldl (\<lambda>acc w. BinaryExpr ''OR'' acc (BinaryExpr ''='' x w)) acc vs) =
    evalIn env operand sawNull matched vs"
  using nul acc
proof (induction vs arbitrary: acc sawNull matched)
  case Nil
  then show ?case by (simp add: evalIn_Nil_tri del: evalIn.simps)
next
  case (Cons v vs)
  let ?eq = "eval env (BinaryExpr ''='' x v)"
  have accB: "evalBool (eval env acc) = Inr (in_state sawNull matched)" using Cons.prems by simp
  have step: "eval env (BinaryExpr ''OR'' acc (BinaryExpr ''='' x v)) =
      Inr (of_tri (tri_or (in_state sawNull matched) t))" if "?eq = Inr (of_tri t)" for t
    using evalLogical_tri(2)[OF accB, of ?eq t] that by simp
  have fail: "eval env (BinaryExpr ''OR'' acc (BinaryExpr ''='' x v)) = Inl err" if "?eq = Inl err" for err
    using evalLogical_Inl2[OF accB, of ?eq err] that by simp
  consider (err) err where "eval env v = Inl err"
    | (null) w where "eval env v = Inr w" "operand = VNull \<or> w = VNull"
    | (cmp) w where "eval env v = Inr w" "operand \<noteq> VNull" "w \<noteq> VNull"
    by (cases "eval env v") auto
  then show ?case
  proof cases
    case err
    then have "?eq = Inl err" by (simp add: x)
    with fold_or_Inl[OF fail] err show ?thesis by simp
  next
    case null
    then have "?eq = Inr (of_tri None)" by (auto simp: x compare_with_Inr)
    moreover have "tri_or (in_state sawNull matched) None = in_state True matched"
      by (auto simp: in_state_def)
    ultimately have "eval env (BinaryExpr ''OR'' acc (BinaryExpr ''='' x v)) = Inr (of_tri (in_state True matched))"
      using step[of None] by (simp only:)
    from Cons.IH[OF _ this] null show ?thesis by simp
  next
    case cmp
    show ?thesis
    proof (cases "compare operand w")
      case (Inl err)
      with cmp have "?eq = Inl err" by (simp add: x compare_with_Inr)
      with fold_or_Inl[OF fail] cmp Inl show ?thesis by simp
    next
      case (Inr order)
      with cmp have "?eq = Inr (of_tri (Some (order = 0)))" by (simp add: x compare_with_Inr)
      moreover have "tri_or (in_state sawNull matched) (Some (order = 0)) = in_state sawNull (matched \<or> order = 0)"
        by (auto simp: in_state_def)
      ultimately have "eval env (BinaryExpr ''OR'' acc (BinaryExpr ''='' x v)) =
          Inr (of_tri (in_state sawNull (matched \<or> order = 0)))"
        using step[of "Some (order = 0)"] by (simp only:)
      from Cons.IH[OF Cons.prems(1) this] cmp Inr show ?thesis by simp
    qed
  qed
qed

lemma fold_or_cong:
  "eval env a = eval env b \<Longrightarrow>
     eval env (foldl (\<lambda>acc w. BinaryExpr ''OR'' acc (BinaryExpr ''='' x w)) a vs) =
     eval env (foldl (\<lambda>acc w. BinaryExpr ''OR'' acc (BinaryExpr ''='' x w)) b vs)"
  by (induction vs arbitrary: a b) simp_all

lemma eval_In_any_equal: "eval env (InExpr x (v # vs)) = eval env (any_equal x v vs)"
proof (cases "eval env x")
  case (Inl err)
  then show ?thesis using fold_or_Inl[of env "BinaryExpr ''='' x v" err x vs] by (simp add: any_equal_def)
next
  case (Inr operand)
  define F where "F = Literal (if operand = VNull then LNull else LBool False)"
  have F: "eval env F = Inr (of_tri (in_state (operand = VNull) False))"
    by (simp add: F_def in_state_def)
  have neutral: "eval env (BinaryExpr ''OR'' F (BinaryExpr ''='' x v)) = eval env (BinaryExpr ''='' x v)"
  proof (cases "eval env (BinaryExpr ''='' x v)")
    case (Inl err)
    with evalLogical_Inl2[of "eval env F" _ "eval env (BinaryExpr ''='' x v)" err "''OR''"] F show ?thesis by simp
  next
    case eq: (Inr w)
    then obtain t where t: "w = of_tri t" and nul: "operand = VNull \<Longrightarrow> t = None"
      using compare_with_tri[of "\<lambda>d. d = 0" operand "eval env v" w] Inr by auto
    have "tri_or (in_state (operand = VNull) False) t = t"
      using nul by (cases "operand = VNull") (simp_all add: in_state_def)
    with evalLogical_tri(2)[of "eval env F" "in_state (operand = VNull) False" "eval env (BinaryExpr ''='' x v)" t] F eq t
    show ?thesis by simp
  qed
  have "eval env (InExpr x (v # vs)) =
      eval env (foldl (\<lambda>acc w. BinaryExpr ''OR'' acc (BinaryExpr ''='' x w)) F (v # vs))"
    using evalIn_or_step[OF Inr _ F, of "v # vs"] Inr by simp
  also have "\<dots> = eval env (any_equal x v vs)"
    using fold_or_cong[OF neutral, of x vs] by (simp add: any_equal_def)
  finally show ?thesis .
qed

section \<open>Fields read\<close>

lemma collect_fold:
  assumes "\<And>v seen. v \<in> set vs \<Longrightarrow> collectRecordFields v seen = collectRecordFields v {} \<union> seen"
  shows "fold collectRecordFields vs seen = (\<Union>v \<in> set vs. collectRecordFields v {}) \<union> seen"
  using assms
proof (induction vs arbitrary: seen)
  case (Cons v vs)
  have "collectRecordFields v seen = collectRecordFields v {} \<union> seen" by (rule Cons.prems) simp
  then have "fold collectRecordFields (v # vs) seen = fold collectRecordFields vs (collectRecordFields v {} \<union> seen)"
    by (simp only: fold_simps)
  also have "\<dots> = (\<Union>v \<in> set vs. collectRecordFields v {}) \<union> (collectRecordFields v {} \<union> seen)"
    by (rule Cons.IH) (rule Cons.prems, simp)
  finally show ?case by auto
qed simp

lemma collect_Un: "collectRecordFields e seen = collectRecordFields e {} \<union> seen"
proof (induction e arbitrary: seen)
  case (BinaryExpr oper l r)
  have "collectRecordFields (BinaryExpr oper l r) seen = collectRecordFields r {} \<union> collectRecordFields l {} \<union> seen"
    for seen unfolding collectRecordFields.simps by (metis BinaryExpr Un_assoc)
  from this[of seen] this[of "{}"] show ?case by (simp only: Un_empty_right)
next
  case (InExpr e vs)
  have *: "fold collectRecordFields vs seen = (\<Union>v \<in> set vs. collectRecordFields v {}) \<union> seen" for seen
    by (rule collect_fold) (rule InExpr(2))
  show ?case by (simp only: collectRecordFields.simps * InExpr(1)[of seen] Un_ac)
next
  case (UnaryExpr oper e)
  then show ?case unfolding collectRecordFields.simps .
next
  case (IsNullExpr e n)
  then show ?case unfolding collectRecordFields.simps .
next
  case (TreeExpr oper e)
  then show ?case unfolding collectRecordFields.simps .
qed auto

lemma fields_In:
  "collectRecordFields (InExpr e vs) {} = collectRecordFields e {} \<union> (\<Union>v \<in> set vs. collectRecordFields v {})"
  unfolding collectRecordFields.simps collect_fold[OF collect_Un] by (rule Un_commute)

lemma fields_Binary:
  "collectRecordFields (BinaryExpr oper l r) {} = collectRecordFields l {} \<union> collectRecordFields r {}"
  using collect_Un[of r "collectRecordFields l {}"] by auto

lemma finite_fields: "finite (collectRecordFields e {})"
  by (induction e) (auto simp: fields_In fields_Binary simp del: collectRecordFields.simps(2,5))

lemma set_RecordFields [simp]: "set (RecordFields e) = collectRecordFields e {}"
  by (simp add: RecordFields_def finite_fields)

lemma evalIn_cong:
  "(\<And>v. v \<in> set vs \<Longrightarrow> eval env' v = eval env v) \<Longrightarrow> evalIn env' x n m vs = evalIn env x n m vs"
  by (induction vs arbitrary: n m) (auto simp: and_then_def split: sum.splits)

lemma eval_normalize_cong:
  assumes "\<And>f. f \<in> collectRecordFields e {} \<Longrightarrow>
    map_option normalize (r f) = map_option normalize (Record env f)"
  shows "eval (env\<lparr>Record := r\<rparr>) e = eval env e"
  using assms
proof (induction e)
  case (RecordField f)
  then show ?case by (cases "r f"; cases "Record env f") (auto split: if_splits)
next
  case (UserAttr a)
  then show ?case by (simp add: evalUserAttr_def)
next
  case (BinaryExpr oper a b)
  then have "eval (env\<lparr>Record := r\<rparr>) a = eval env a" "eval (env\<lparr>Record := r\<rparr>) b = eval env b"
    by (auto simp only: fields_Binary)
  then show ?case by simp
next
  case (InExpr e vs)
  then have "eval (env\<lparr>Record := r\<rparr>) e = eval env e"
    and vs: "\<And>v. v \<in> set vs \<Longrightarrow> eval (env\<lparr>Record := r\<rparr>) v = eval env v"
    by (auto simp only: fields_In)
  with evalIn_cong[OF vs] show ?case by simp
qed simp_all

lemma eval_record_cong:
  "(\<And>f. f \<in> collectRecordFields e {} \<Longrightarrow> r f = Record env f) \<Longrightarrow> eval (env\<lparr>Record := r\<rparr>) e = eval env e"
  by (rule eval_normalize_cong) simp

section \<open>The static check\<close>

text \<open>The errors that name a construct rather than the data: no record or user changes them.\<close>

fun construct_error :: "eval_error \<Rightarrow> bool" where
  "construct_error BareRecordValue = True"
| "construct_error (TenantNotBound _) = True"
| "construct_error (TreeNotSupported _) = True"
| "construct_error (LikeRejected _) = True"
| "construct_error (BadOperator _) = True"
| "construct_error _ = False"

lemma evalBool_Inr: "evalBool r = Inr t \<longleftrightarrow> r = Inr (of_tri t)"
  by (auto simp: evalBool_def and_then_Inr_iff asBool_Inr)

lemma evalBinary_Inr:
  "evalBinary oper l r = Inr v \<Longrightarrow> oper \<noteq> ''LIKE'' \<and> oper \<noteq> ''ILIKE'' \<and> (\<exists>a b. l = Inr a \<and> r = Inr b)"
  by (fastforce simp: evalBinary_def evalLogical_def and_then_Inr_iff evalBool_Inr split: if_splits)

lemma evalIn_Inr: "evalIn env x n m vs = Inr w \<Longrightarrow> v \<in> set vs \<Longrightarrow> \<exists>y. eval env v = Inr y"
  by (induction vs arbitrary: n m) (auto simp: and_then_Inr_iff split: if_splits)

lemma eval_validates: "eval env e = Inr v \<Longrightarrow> ValidateEval e = None"
proof (induction e arbitrary: v)
  case (BinaryExpr oper l r)
  from BinaryExpr.prems have "evalBinary oper (eval env l) (eval env r) = Inr v" by simp
  from evalBinary_Inr[OF this] BinaryExpr.IH show ?case by auto
next
  case (InExpr e vs)
  then obtain x where "eval env e = Inr x" "evalIn env x (x = VNull) False vs = Inr v"
    by (auto simp: and_then_Inr_iff)
  with InExpr.IH(1) have "ValidateEval e = None" "\<And>v'. v' \<in> set vs \<Longrightarrow> ValidateEval v' = None"
    by (blast, metis InExpr.IH(2) evalIn_Inr)
  then show ?case by simp
qed (auto simp: and_then_Inr_iff split: if_splits)

lemma normalize_error: "normalize v = Inl err \<Longrightarrow> \<not> construct_error err"
  by (cases v rule: normalize.cases) auto

lemma asBool_error: "asBool v = Inl err \<Longrightarrow> \<not> construct_error err"
  by (cases v) auto

lemma compare_error: "compare a b = Inl err \<Longrightarrow> \<not> construct_error err"
  by (cases "(a, b)" rule: compare.cases) (auto simp: parseTime_def and_then_Inl_iff split: option.splits)

lemma literal_error: "literalValue l = Inl err \<Longrightarrow> \<not> construct_error err"
  by (cases l) (auto split: option.splits)

lemma evalBool_error:
  "evalBool r = Inl err \<Longrightarrow> (\<And>err. r = Inl err \<Longrightarrow> \<not> construct_error err) \<Longrightarrow> \<not> construct_error err"
  by (auto simp: evalBool_def and_then_Inl_iff dest: asBool_error)

lemma compare_with_error:
  "compare_with P l r = Inl err \<Longrightarrow> l = Inl err \<or> r = Inl err \<or> \<not> construct_error err"
  by (cases l; cases r) (auto simp: compare_with_Inr and_then_Inl_iff dest: compare_error split: if_splits)

lemma evalLogical_error:
  "evalLogical oper l r = Inl err \<Longrightarrow> evalBool l = Inl err \<or> evalBool r = Inl err"
  by (auto simp: evalLogical_def Let_def and_then_Inl_iff split: if_splits)

lemma evalBinary_error:
  assumes "evalBinary oper l r = Inl err" "oper \<in> set (comparison_ops @ logical_ops)"
    and "oper \<noteq> ''LIKE''" "oper \<noteq> ''ILIKE''"
    and "\<And>err. l = Inl err \<Longrightarrow> \<not> construct_error err" "\<And>err. r = Inl err \<Longrightarrow> \<not> construct_error err"
  shows "\<not> construct_error err"
proof -
  have "oper \<in> set comparison_ops \<or> oper = ''AND'' \<or> oper = ''OR''"
    using assms(2-4) by (auto simp: logical_ops_def)
  then show ?thesis
  proof (elim disjE)
    assume "oper \<in> set comparison_ops"
    then obtain P where "evalBinary oper = compare_with P" by (auto simp: comparison_ops_def)
    with assms(1,5,6) compare_with_error[of P l r err] show ?thesis by auto
  qed (use assms(1,5,6) evalLogical_error[of oper l r err] evalBool_error in auto)
qed

lemma evalIn_error:
  "evalIn env x n m vs = Inl err \<Longrightarrow> (\<And>v err. v \<in> set vs \<Longrightarrow> eval env v = Inl err \<Longrightarrow> \<not> construct_error err) \<Longrightarrow>
     \<not> construct_error err"
proof (induction vs arbitrary: n m)
  case (Cons v vs)
  then show ?case
  proof (cases "eval env v")
    case (Inl a)
    with Cons.prems(1) have "a = err" by simp
    with Inl Cons.prems(2)[of v a] show ?thesis by simp
  next
    case (Inr y)
    have tail: "evalIn env x n m vs = Inl err \<Longrightarrow> \<not> construct_error err" for n m
      using Cons.IH Cons.prems(2) by (meson list.set_intros(2))
    show ?thesis
      using Inr Cons.prems(1) tail
      by (auto simp: and_then_Inl_iff dest: compare_error split: if_splits)
  qed
qed simp

lemma eval_error_data:
  "wf_expr e \<Longrightarrow> ValidateEval e = None \<Longrightarrow> eval env e = Inl err \<Longrightarrow> \<not> construct_error err"
proof (induction e arbitrary: err)
  case (RecordField f)
  then show ?case by (auto dest: normalize_error split: if_splits option.splits)
next
  case (UserAttr a)
  then show ?case by (auto simp: evalUserAttr_def Let_def split: if_splits)
next
  case (PermCheck p)
  then show ?case by (auto split: option.splits)
next
  case (Literal l)
  then show ?case using literal_error[of l err] by simp
next
  case (UnaryExpr oper e)
  then show ?case by (auto simp: and_then_Inl_iff evalNot_def dest: asBool_error split: option.splits)
next
  case (IsNullExpr e n)
  then show ?case by (auto simp: and_then_Inl_iff)
next
  case (BinaryExpr oper l r)
  show ?case
    by (rule evalBinary_error[of oper "eval env l" "eval env r"])
       (use BinaryExpr in \<open>auto split: if_splits option.splits\<close>)
next
  case (InExpr e vs)
  have e: "wf_expr e" "ValidateEval e = None" "\<And>v. v \<in> set vs \<Longrightarrow> wf_expr v \<and> ValidateEval v = None"
    using InExpr.prems by (auto simp: list_all_iff split: option.splits)
  from InExpr.prems(3) consider "eval env e = Inl err" | x where "evalIn env x (x = VNull) False vs = Inl err"
    by (auto simp: and_then_Inl_iff)
  then show ?case
  proof cases
    case 1
    with InExpr.IH(1) e show ?thesis by blast
  next
    case (2 x)
    from this show ?thesis by (rule evalIn_error) (use InExpr.IH(2) e(3) in blast)
  qed
qed simp_all

lemma Eval_error: "Eval e env = Inl err \<Longrightarrow> eval env e = Inl err \<or> \<not> construct_error err"
proof (cases "eval env e")
  case (Inr v)
  assume "Eval e env = Inl err"
  with Inr show ?thesis by (cases v) (auto simp: Eval_def)
qed (simp add: Eval_def)

lemma de_morgan_or:
  "evalLogical ''AND'' l' r' = and_then (evalLogical ''OR'' l r) evalNot"
  if "evalBool l' = and_then (evalBool l) (\<lambda>t. Inr (tri_not t))"
    "evalBool r' = and_then (evalBool r) (\<lambda>t. Inr (tri_not t))"
  using that
  by (cases "evalBool l"; cases "evalBool r")
     (auto simp: evalLogical_tri evalLogical_Inl1 evalLogical_Inl2 tri_or_def)

section \<open>Properties of the evaluator\<close>

text \<open>
  (C24) Negation follows SQL's three-valued logic, errors included: negating a conjunction or a
  disjunction gives the dual connective over the negated operands, and negating a comparison gives
  the complementary comparison, with the same NULLs and the same first error.
\<close>
theorem eval_negation:
  "eval env (UnaryExpr ''NOT'' (BinaryExpr ''AND'' a b)) =
     eval env (BinaryExpr ''OR'' (UnaryExpr ''NOT'' a) (UnaryExpr ''NOT'' b)) \<and>
   eval env (UnaryExpr ''NOT'' (BinaryExpr ''OR'' a b)) =
     eval env (BinaryExpr ''AND'' (UnaryExpr ''NOT'' a) (UnaryExpr ''NOT'' b)) \<and>
   map (\<lambda>(oper, neg). eval env (UnaryExpr ''NOT'' (BinaryExpr oper a b))) negations =
     map (\<lambda>(oper, neg). eval env (BinaryExpr neg a b)) negations"
proof (intro conjI)
  note nots = evalBool_not[of env "''NOT''" a] evalBool_not[of env "''NOT''" b]
  show "eval env (UnaryExpr ''NOT'' (BinaryExpr ''AND'' a b)) =
     eval env (BinaryExpr ''OR'' (UnaryExpr ''NOT'' a) (UnaryExpr ''NOT'' b))"
    using de_morgan[OF nots] by simp
  show "eval env (UnaryExpr ''NOT'' (BinaryExpr ''OR'' a b)) =
     eval env (BinaryExpr ''AND'' (UnaryExpr ''NOT'' a) (UnaryExpr ''NOT'' b))"
    using de_morgan_or[OF nots] by simp
  show "map (\<lambda>(oper, neg). eval env (UnaryExpr ''NOT'' (BinaryExpr oper a b))) negations =
     map (\<lambda>(oper, neg). eval env (BinaryExpr neg a b)) negations"
    by (rule map_cong) (auto simp: evalBinary_negated)
qed

text \<open>
  (C33) \<^verbatim>\<open>x IN (v, w, ...)\<close> evaluates exactly like the disjunction \<^verbatim>\<open>x = v OR x = w OR ...\<close>: the same
  verdict, the same unknown when a NULL is involved, the same error from the first operand that
  fails or does not compare.
\<close>
theorem eval_in_is_disjunction: "eval env (InExpr x (v # vs)) = eval env (any_equal x v vs)"
  by (rule eval_In_any_equal)

text \<open>
  (C30) A caller may fetch only the columns \<^verbatim>\<open>RecordFields\<close> lists, a sorted list without repetition:
  evaluating against the record cut down to them gives the same verdict or error.
\<close>
theorem RecordFields_sufficient:
  "Eval e (env\<lparr>Record := Record env |` set (RecordFields e)\<rparr>) = Eval e env \<and>
   sorted (RecordFields e) \<and> distinct (RecordFields e)"
proof -
  have "eval (env\<lparr>Record := Record env |` set (RecordFields e)\<rparr>) e = eval env e"
    by (rule eval_record_cong) simp
  then show ?thesis by (simp add: Eval_def RecordFields_def finite_fields)
qed


definition no_env :: env where
  "no_env = \<lparr>Record = Map.empty, UserID = [], ContactID = [], TenantID = [], Roles = [], HasPermission = None\<rparr>"


end
