(* ===== verification/Domain_Compile.thy ===== *)
theory Domain_Compile
  imports Domain_Eval_Props
begin

text \<open>
  The two SQL targets of domain expressions: the static compilation into a row-level-security
  clause (\<^verbatim>\<open>domain/compile_rls.go\<close>) and the parameterised compilation of search domains and policy
  filters (\<^verbatim>\<open>domain/compile_sql.go\<close>, \<^verbatim>\<open>domain/compile_relation.go\<close>).

  Two functions come from packages outside the repository and are arguments of the model:
  \<open>sanitize\<close> is \<^verbatim>\<open>pgx.Identifier{name}.Sanitize()\<close> and \<open>parse_uuid\<close> is \<^verbatim>\<open>uuid.Parse\<close>, returning the
  sixteen bytes. The argument list the Go compiler appends to is threaded through the calls; a
  failed compilation returns no fragment and no arguments, as the exported functions do.
\<close>

datatype compile_error =
    BareRecordSql
  | NoSessionVariable string
  | TenantUnbound string
  | TreeUnsupported string
  | LikeRejectedSql string
  | UnsupportedOperator string
  | UserNotBound string
  | RoleNotBound
  | PermNotBound
  | NoPermissionResolver string
  | AttrUnknown string
  | InvalidNumeric string
  | RelationNeedsOperator string
  | RelationOperator string
  | RelationNeedsUuid
  | InvalidUuid string

section \<open>Row-level security\<close>

definition sql_quoted :: "string \<Rightarrow> string" where
  "sql_quoted s = quote # s @ [quote]"

definition EscapeSQLString :: "string \<Rightarrow> string" where
  "EscapeSQLString s = replace_char quote [quote, quote] s"

fun compileLiteral :: "literal \<Rightarrow> string" where
  "compileLiteral LNull = ''NULL''"
| "compileLiteral (LBool True) = ''true''"
| "compileLiteral (LBool False) = ''false''"
| "compileLiteral (LNumber n) = n"
| "compileLiteral (LString s) = sql_quoted (EscapeSQLString s)"

definition setting_uuid :: "string \<Rightarrow> string" where
  "setting_uuid var =
     ''NULLIF(current_setting('' @ sql_quoted var @ '', true), '' @ sql_quoted [] @ '')::uuid''"

definition setting_member :: "string \<Rightarrow> string \<Rightarrow> string" where
  "setting_member var x =
     ''('' @ sql_quoted (EscapeSQLString x) @ '' = ANY(string_to_array(COALESCE(current_setting('' @
     sql_quoted var @ '', true), '' @ sql_quoted [] @ ''), '' @ sql_quoted '','' @ '')))''"

definition infix_sql :: "string \<Rightarrow> string \<Rightarrow> string \<Rightarrow> string" where
  "infix_sql oper l r = ''('' @ l @ '' '' @ oper @ '' '' @ r @ '')''"

definition rls_operators :: "string list" where
  "rls_operators = [''='', ''!='', ''<'', ''>'', ''<='', ''>='', ''AND'', ''OR'']"

fun compileRLS :: "(string \<Rightarrow> string) \<Rightarrow> expr \<Rightarrow> (compile_error, string) result" where
  "compileRLS sanitize (RecordField f) = (if f = [] then Inl BareRecordSql else Inr (sanitize f))"
| "compileRLS sanitize (UserAttr a) =
     (if a = ''id'' then Inr (setting_uuid ''app.current_user_id'')
      else if a = ''contact_id'' then Inr (setting_uuid ''app.current_user_contact_id'')
      else Inl (NoSessionVariable a))"
| "compileRLS sanitize (TenantAttr f) = Inl (TenantUnbound f)"
| "compileRLS sanitize (RoleCheck r) = Inr (setting_member ''app.current_user_roles'' r)"
| "compileRLS sanitize (PermCheck p) = Inr (setting_member ''app.current_user_permissions'' p)"
| "compileRLS sanitize (Literal l) = Inr (compileLiteral l)"
| "compileRLS sanitize (UnaryExpr oper e) =
     and_then (compileRLS sanitize e) (\<lambda>operand. Inr (''(NOT '' @ operand @ '')''))"
| "compileRLS sanitize (IsNullExpr e neg) =
     and_then (compileRLS sanitize e) (\<lambda>operand.
       Inr (''('' @ operand @ (if neg then '' IS NOT NULL)'' else '' IS NULL)'')))"
| "compileRLS sanitize (InExpr e vs) =
     and_then (compileRLS sanitize e) (\<lambda>operand.
       and_then (map_res (compileRLS sanitize) vs) (\<lambda>values.
         Inr (''('' @ operand @ '' IN ('' @ join '', '' values @ ''))'')))"
| "compileRLS sanitize (BinaryExpr oper l r) =
     (if oper = ''LIKE'' \<or> oper = ''ILIKE'' then Inl (LikeRejectedSql oper)
      else and_then (compileRLS sanitize l) (\<lambda>left.
        and_then (compileRLS sanitize r) (\<lambda>right.
          if oper \<in> set rls_operators then Inr (infix_sql oper left right)
          else Inl (UnsupportedOperator oper))))"
| "compileRLS sanitize (TreeExpr oper e) = Inl (TreeUnsupported oper)"

definition CompileToRLS :: "(string \<Rightarrow> string) \<Rightarrow> expr \<Rightarrow> (compile_error, string) result" where
  "CompileToRLS sanitize e = compileRLS sanitize e"

section \<open>Parameterised SQL\<close>

record sql_relation =
  From :: string
  Where :: string
  Column :: string

definition exists_sql :: "sql_relation \<Rightarrow> string \<Rightarrow> string" where
  "exists_sql r predicate =
     ''EXISTS (SELECT 1 FROM '' @ From r @ '' WHERE ('' @ Where r @ '') AND ('' @ predicate @ ''))''"

datatype arg = ArgFloat f64 | ArgString string

record compiler =
  relations :: "string \<rightharpoonup> sql_relation"
  user_env :: "env option"
  paramsBefore :: nat

type_synonym cresult = "(compile_error, string \<times> arg list) result"

definition bindArg :: "compiler \<Rightarrow> arg \<Rightarrow> arg list \<Rightarrow> string \<times> arg list" where
  "bindArg c v args = (CHR ''$'' # show_nat (paramsBefore c + length (args @ [v])), args @ [v])"

fun relation :: "compiler \<Rightarrow> expr \<Rightarrow> sql_relation option" where
  "relation c (RecordField f) = relations c f"
| "relation c _ = None"

fun bind_uuids :: "(string \<Rightarrow> string option) \<Rightarrow> compiler \<Rightarrow> expr list \<Rightarrow> arg list \<Rightarrow>
    (compile_error, string list \<times> arg list) result" where
  "bind_uuids parse_uuid c [] args = Inr ([], args)"
| "bind_uuids parse_uuid c (v # vs) args =
     (case v of
        Literal (LString s) \<Rightarrow>
          (case parse_uuid s of
             None \<Rightarrow> Inl (InvalidUuid s)
           | Some u \<Rightarrow>
               (case bindArg c (ArgString (uuid_string u)) args of (p, args1) \<Rightarrow>
                  and_then (bind_uuids parse_uuid c vs args1) (\<lambda>(ps, args2). Inr (p # ps, args2))))
      | _ \<Rightarrow> Inl RelationNeedsUuid)"

definition compileRelation :: "(string \<Rightarrow> string option) \<Rightarrow> compiler \<Rightarrow> sql_relation \<Rightarrow> expr list \<Rightarrow>
    arg list \<Rightarrow> cresult" where
  "compileRelation parse_uuid c rel values args =
     (if values = [] then Inr (''false'', args)
      else and_then (bind_uuids parse_uuid c values args) (\<lambda>(params, args1).
        Inr (exists_sql rel (Column rel @ '' IN ('' @ join '', '' params @ '')''), args1)))"

definition sqlBool :: "bool \<Rightarrow> string" where
  "sqlBool v = (if v then ''TRUE'' else ''FALSE'')"

definition userAttr :: "compiler \<Rightarrow> env \<Rightarrow> string \<Rightarrow> arg list \<Rightarrow> cresult" where
  "userAttr c env a args =
     (let bind = (\<lambda>value. Inr (if value = [] then (''NULL'', args) else bindArg c (ArgString value) args)) in
      if a = ''id'' then bind (UserID env)
      else if a = ''contact_id'' then bind (ContactID env)
      else if a = ''tenant_id'' then bind (TenantID env)
      else Inl (AttrUnknown a))"

fun compileLiteralArg :: "compiler \<Rightarrow> literal \<Rightarrow> arg list \<Rightarrow> cresult" where
  "compileLiteralArg c LNull args = Inr (''NULL'', args)"
| "compileLiteralArg c (LBool b) args = Inr (if b then ''true'' else ''false'', args)"
| "compileLiteralArg c (LNumber n) args =
     (case ParseFloat n of None \<Rightarrow> Inl (InvalidNumeric n) | Some f \<Rightarrow> Inr (bindArg c (ArgFloat f) args))"
| "compileLiteralArg c (LString s) args = Inr (bindArg c (ArgString s) args)"

definition sql_operators :: "string list" where
  "sql_operators = [''='', ''!='', ''<'', ''>'', ''<='', ''>='', ''LIKE'', ''ILIKE'', ''AND'', ''OR'']"

fun compile :: "(string \<Rightarrow> string) \<Rightarrow> (string \<Rightarrow> string option) \<Rightarrow> compiler \<Rightarrow> expr \<Rightarrow> arg list \<Rightarrow> cresult"
and compile_list :: "(string \<Rightarrow> string) \<Rightarrow> (string \<Rightarrow> string option) \<Rightarrow> compiler \<Rightarrow> expr list \<Rightarrow> arg list \<Rightarrow>
    (compile_error, string list \<times> arg list) result" where
  "compile sanitize parse_uuid c (RecordField f) args =
     (if relations c f \<noteq> None then Inl (RelationNeedsOperator f)
      else if f = [] then Inl BareRecordSql else Inr (sanitize f, args))"
| "compile sanitize parse_uuid c (UserAttr a) args =
     (case user_env c of None \<Rightarrow> Inl (UserNotBound a) | Some env \<Rightarrow> userAttr c env a args)"
| "compile sanitize parse_uuid c (TenantAttr f) args = Inl (TenantUnbound f)"
| "compile sanitize parse_uuid c (RoleCheck r) args =
     (case user_env c of None \<Rightarrow> Inl RoleNotBound | Some env \<Rightarrow> Inr (sqlBool (r \<in> set (Roles env)), args))"
| "compile sanitize parse_uuid c (PermCheck p) args =
     (case user_env c of
        None \<Rightarrow> Inl PermNotBound
      | Some env \<Rightarrow> (case HasPermission env of
            None \<Rightarrow> Inl (NoPermissionResolver p)
          | Some has \<Rightarrow> Inr (sqlBool (has p), args)))"
| "compile sanitize parse_uuid c (Literal l) args = compileLiteralArg c l args"
| "compile sanitize parse_uuid c (UnaryExpr oper e) args =
     and_then (compile sanitize parse_uuid c e args) (\<lambda>(operand, args1).
       Inr (''(NOT '' @ operand @ '')'', args1))"
| "compile sanitize parse_uuid c (IsNullExpr e neg) args =
     (case relation c e of
        Some rel \<Rightarrow>
          Inr (''('' @ (if neg then [] else ''NOT '') @ exists_sql rel ''true'' @ '')'', args)
      | None \<Rightarrow>
          and_then (compile sanitize parse_uuid c e args) (\<lambda>(operand, args1).
            Inr (''('' @ operand @ (if neg then '' IS NOT NULL)'' else '' IS NULL)''), args1)))"
| "compile sanitize parse_uuid c (InExpr e vs) args =
     (case relation c e of
        Some rel \<Rightarrow> compileRelation parse_uuid c rel vs args
      | None \<Rightarrow>
          and_then (compile sanitize parse_uuid c e args) (\<lambda>(operand, args1).
            and_then (compile_list sanitize parse_uuid c vs args1) (\<lambda>(values, args2).
              Inr (''('' @ operand @ '' IN ('' @ join '', '' values @ ''))'', args2))))"
| "compile sanitize parse_uuid c (BinaryExpr oper l r) args =
     (case relation c l of
        Some rel \<Rightarrow>
          if oper \<noteq> ''='' \<and> oper \<noteq> ''!='' then Inl (RelationOperator oper)
          else and_then (compileRelation parse_uuid c rel [r] args) (\<lambda>(fragment, args1).
            Inr (if oper = ''!='' then ''(NOT '' @ fragment @ '')'' else fragment, args1))
      | None \<Rightarrow>
          if user_env c \<noteq> None \<and> (oper = ''LIKE'' \<or> oper = ''ILIKE'') then Inl (LikeRejectedSql oper)
          else and_then (compile sanitize parse_uuid c l args) (\<lambda>(left, args1).
            and_then (compile sanitize parse_uuid c r args1) (\<lambda>(right, args2).
              if oper \<in> set sql_operators then Inr (infix_sql oper left right, args2)
              else Inl (UnsupportedOperator oper))))"
| "compile sanitize parse_uuid c (TreeExpr oper e) args = Inl (TreeUnsupported oper)"
| "compile_list sanitize parse_uuid c [] args = Inr ([], args)"
| "compile_list sanitize parse_uuid c (v # vs) args =
     and_then (compile sanitize parse_uuid c v args) (\<lambda>(compiled, args1).
       and_then (compile_list sanitize parse_uuid c vs args1) (\<lambda>(values, args2).
         Inr (compiled # values, args2)))"

definition CompileToSQLWithRelations :: "(string \<Rightarrow> string) \<Rightarrow> (string \<Rightarrow> string option) \<Rightarrow> expr \<Rightarrow>
    (string \<rightharpoonup> sql_relation) \<Rightarrow> cresult" where
  "CompileToSQLWithRelations sanitize parse_uuid e rels =
     compile sanitize parse_uuid \<lparr>relations = rels, user_env = None, paramsBefore = 0\<rparr> e []"

definition CompileToSQL :: "(string \<Rightarrow> string) \<Rightarrow> (string \<Rightarrow> string option) \<Rightarrow> expr \<Rightarrow> cresult" where
  "CompileToSQL sanitize parse_uuid e = CompileToSQLWithRelations sanitize parse_uuid e Map.empty"

definition CompileToFilter :: "(string \<Rightarrow> string) \<Rightarrow> (string \<Rightarrow> string option) \<Rightarrow> expr \<Rightarrow> env \<Rightarrow> nat \<Rightarrow> cresult" where
  "CompileToFilter sanitize parse_uuid e env before =
     compile sanitize parse_uuid \<lparr>relations = Map.empty, user_env = Some env, paramsBefore = before\<rparr> e []"

end
