(* ===== verification/Domain_Compile_Props.thy ===== *)
theory Domain_Compile_Props
  imports Domain_Compile
begin

text \<open>
  Properties of the SQL compilers: literals never reach the text of a parameterised fragment,
  placeholders are numbered without gaps, quoting keeps every literal inside its quotes, and the
  row-level-security form and the per-user filter of a policy condition accept the same
  conditions and mean the same.
\<close>

section \<open>Literals stay out of the fragment\<close>

fun map_literal :: "(string \<Rightarrow> string) \<Rightarrow> literal \<Rightarrow> literal" where
  "map_literal h (LString s) = LString (h s)"
| "map_literal h l = l"

fun map_strings :: "(string \<Rightarrow> string) \<Rightarrow> expr \<Rightarrow> expr" where
  "map_strings h (Literal l) = Literal (map_literal h l)"
| "map_strings h (BinaryExpr oper l r) = BinaryExpr oper (map_strings h l) (map_strings h r)"
| "map_strings h (UnaryExpr oper e) = UnaryExpr oper (map_strings h e)"
| "map_strings h (IsNullExpr e neg) = IsNullExpr (map_strings h e) neg"
| "map_strings h (InExpr e vs) = InExpr (map_strings h e) (map (map_strings h) vs)"
| "map_strings h (TreeExpr oper e) = TreeExpr oper (map_strings h e)"
| "map_strings h e = e"

fun map_arg :: "(string \<Rightarrow> string) \<Rightarrow> arg \<Rightarrow> arg" where
  "map_arg h (ArgString s) = ArgString (h s)"
| "map_arg h (ArgFloat f) = ArgFloat f"

definition map_args :: "(string \<Rightarrow> string) \<Rightarrow> ('e, 'f \<times> arg list) result \<Rightarrow> ('e, 'f \<times> arg list) result" where
  "map_args h r = and_then r (\<lambda>(f, args). Inr (f, map (map_arg h) args))"

lemma map_args_simps [simp]:
  "map_args h (Inl err) = Inl err"
  "map_args h (Inr (f, args)) = Inr (f, map (map_arg h) args)"
  by (simp_all add: map_args_def)

lemma relation_none [simp]: "relations c = Map.empty \<Longrightarrow> relation c e = None"
  by (cases e) simp_all

lemma bindArg_map:
  "bindArg c (map_arg h v) (map (map_arg h) args) = map_prod id (map (map_arg h)) (bindArg c v args)"
  by (simp add: bindArg_def)

lemma literal_map:
  "compileLiteralArg c (map_literal h l) (map (map_arg h) args) = map_args h (compileLiteralArg c l args)"
proof (cases l)
  case (LString s)
  then show ?thesis using bindArg_map[of c h "ArgString s" args] by (simp add: bindArg_def)
next
  case (LNumber n)
  then show ?thesis using bindArg_map[of c h] by (auto simp: bindArg_def split: option.splits)
qed auto

lemma and_then_map_args: "and_then (map_args h r) g = and_then r (\<lambda>(f, a). g (f, map (map_arg h) a))"
  by (cases r) auto

lemma map_args_and_then: "map_args h (and_then r g) = and_then r (\<lambda>(f, a). map_args h (g (f, a)))"
  by (cases r) auto

lemma map_args_if: "map_args h (if b then r else r') = (if b then map_args h r else map_args h r')"
  by simp

lemmas map_args_push = and_then_map_args map_args_and_then map_args_if

lemma compile_list_map:
  assumes "\<And>v args. v \<in> set vs \<Longrightarrow> compile s u c (map_strings h v) (map (map_arg h) args) =
      map_args h (compile s u c v args)"
  shows "compile_list s u c (map (map_strings h) vs) (map (map_arg h) args) =
    map_args h (compile_list s u c vs args)"
  using assms
proof (induction vs arbitrary: args)
  case (Cons v vs)
  have "compile s u c (map_strings h v) (map (map_arg h) args) = map_args h (compile s u c v args)"
    by (rule Cons.prems) simp
  moreover have "compile_list s u c (map (map_strings h) vs) (map (map_arg h) a) =
      map_args h (compile_list s u c vs a)" for a
    by (rule Cons.IH) (rule Cons.prems, simp)
  ultimately show ?case by (simp add: map_args_push)
qed simp

lemma compile_map_strings:
  assumes "relations c = Map.empty" "user_env c = None"
  shows "compile s u c (map_strings h e) (map (map_arg h) args) = map_args h (compile s u c e args)"
proof (induction e arbitrary: args)
  case (InExpr e vs)
  note list = compile_list_map[OF InExpr(2)]
  show ?case by (simp add: assms InExpr(1) list map_args_push)
qed (simp_all add: assms literal_map map_args_push cong: if_cong)

section \<open>Placeholders\<close>

text \<open>The parameter numbers of a fragment, in the order of its text.\<close>

primrec placeholders :: "string \<Rightarrow> nat list" where
  "placeholders [] = []"
| "placeholders (c # cs) =
     (if c = CHR ''$'' then [nat_of_digits (takeWhile isDigit cs)] else []) @ placeholders cs"

lemma digits_append:
  "b = [] \<or> \<not> isDigit (hd b) \<Longrightarrow> takeWhile isDigit (a @ b) = takeWhile isDigit a"
  by (cases b; induction a; simp)

lemma placeholders_append:
  "b = [] \<or> \<not> isDigit (hd b) \<Longrightarrow> placeholders (a @ b) = placeholders a @ placeholders b"
  by (induction a) (simp_all add: digits_append)

lemma placeholders_none: "CHR ''$'' \<notin> set a \<Longrightarrow> placeholders a = []"
  by (induction a) auto

lemma placeholders_Cons:
  "c \<noteq> CHR ''$'' \<Longrightarrow> placeholders (c # cs) = placeholders cs"
  by simp

lemma placeholders_bind [simp]: "placeholders (CHR ''$'' # show_nat n) = [n]"
proof -
  have digits: "takeWhile isDigit (show_nat n) = show_nat n"
    using show_nat_digits[of _ n] by (simp add: takeWhile_eq_all_conv)
  have "CHR ''$'' \<notin> set (show_nat n)"
    using show_nat_digits[of "CHR ''$''" n] by (auto simp: isDigit_def)
  then show ?thesis
    by (simp add: digits placeholders_none del: takeWhile_eq_all_conv)
qed

lemma placeholders_join: "placeholders (join '', '' ws) = concat (map placeholders ws)"
proof (induction ws rule: induct_list012)
  case (3 w v ws)
  then show ?case by (simp add: placeholders_append isDigit_def)
qed simp_all

text \<open>What the code relies on in \<^verbatim>\<open>pgx.Identifier.Sanitize\<close>: it drops NUL bytes, doubles the double
  quotes of the name and puts it in double quotes.\<close>

abbreviation dquote :: char where
  "dquote \<equiv> CHR 0x22"

definition quotes_identifiers :: "(string \<Rightarrow> string) \<Rightarrow> bool" where
  "quotes_identifiers sanitize \<longleftrightarrow>
     (\<forall>f. sanitize f = dquote # replace_char dquote [dquote, dquote] (filter (\<lambda>c. c \<noteq> CHR 0x00) f) @ [dquote])"

lemma set_replace_char: "set (replace_char c r s) \<subseteq> set s \<union> set r"
  by (induction s) auto

lemma sanitize_chars:
  assumes "quotes_identifiers sanitize"
  shows "set (sanitize f) \<subseteq> insert dquote (set f)"
  using assms set_replace_char[of dquote "[dquote, dquote]" "filter (\<lambda>c. c \<noteq> CHR 0x00) f"]
  by (auto simp: quotes_identifiers_def)

lemma name_no_dollar: "name_ok f \<Longrightarrow> CHR ''$'' \<notin> set f"
proof -
  have "\<not> isIdentPart (CHR ''$'')" by code_simp
  moreover assume "name_ok f"
  ultimately show ?thesis by (cases f) (auto simp: name_ok_def is_ident_def list_all_iff)
qed

definition numbered :: "nat \<Rightarrow> arg list \<Rightarrow> arg list \<Rightarrow> nat list \<Rightarrow> bool" where
  "numbered before args args' ps \<longleftrightarrow>
     (\<exists>new. args' = args @ new) \<and> ps = [before + length args + 1 ..< before + length args' + 1]"

lemma numbered_refl [simp]: "numbered before args args []"
  by (simp add: numbered_def)

lemma numbered_trans:
  "numbered before a b ps \<Longrightarrow> numbered before b c qs \<Longrightarrow> numbered before a c (ps @ qs)"
proof -
  assume "numbered before a b ps" "numbered before b c qs"
  then obtain new new' where "b = a @ new" "c = b @ new'"
    and "ps = [before + length a + 1 ..< before + length a + 1 + length new]"
    and "qs = [before + length a + 1 + length new ..< before + length a + 1 + length new + length new']"
    by (auto simp: numbered_def ac_simps)
  then show ?thesis
    using upt_add_eq_append[of "before + length a + 1" "before + length a + 1 + length new" "length new'"]
    by (auto simp: numbered_def ac_simps)
qed

lemma numbered_bind: "bindArg c v args = (p, args') \<Longrightarrow> numbered (paramsBefore c) args args' (placeholders p)"
  by (auto simp: bindArg_def numbered_def simp del: placeholders.simps)

lemma placeholders_infix:
  "oper \<in> set sql_operators \<Longrightarrow> placeholders (infix_sql oper l r) = placeholders l @ placeholders r"
  by (auto simp: infix_sql_def sql_operators_def placeholders_append isDigit_def)

lemma compile_list_numbered:
  assumes "\<And>v args f args'. v \<in> set vs \<Longrightarrow> compile s u c v args = Inr (f, args') \<Longrightarrow>
      numbered (paramsBefore c) args args' (placeholders f)"
  shows "compile_list s u c vs args = Inr (fs, args') \<Longrightarrow>
      numbered (paramsBefore c) args args' (concat (map placeholders fs))"
  using assms
proof (induction vs arbitrary: args fs)
  case (Cons v vs)
  from Cons.prems(1) obtain f args1 fs1 where v: "compile s u c v args = Inr (f, args1)"
    and vs: "compile_list s u c vs args1 = Inr (fs1, args')" and fs: "fs = f # fs1"
    by (auto simp: and_then_Inr_iff)
  have "numbered (paramsBefore c) args args1 (placeholders f)" by (rule Cons.prems(2)[OF _ v]) simp
  moreover have "numbered (paramsBefore c) args1 args' (concat (map placeholders fs1))"
    by (rule Cons.IH[OF vs]) (rule Cons.prems(2), auto)
  ultimately show ?case using numbered_trans fs by simp
qed simp

lemma literal_numbered:
  "compileLiteralArg c l args = Inr (f, args') \<Longrightarrow> numbered (paramsBefore c) args args' (placeholders f)"
  by (cases l) (auto simp: numbered_bind split: option.splits if_splits)

lemma userAttr_numbered:
  "userAttr c env a args = Inr (f, args') \<Longrightarrow> numbered (paramsBefore c) args args' (placeholders f)"
  by (auto simp: userAttr_def Let_def numbered_bind split: if_splits)

lemma compile_numbered:
  assumes "relations c = Map.empty" "quotes_identifiers s"
  shows "wf_expr e \<Longrightarrow> compile s u c e args = Inr (f, args') \<Longrightarrow>
    numbered (paramsBefore c) args args' (placeholders f)"
proof (induction e arbitrary: args f args')
  case (RecordField x)
  then have "CHR ''$'' \<notin> set (s x)"
    using sanitize_chars[OF assms(2), of x] name_no_dollar[of x] by auto
  with RecordField show ?case by (auto simp: assms(1) placeholders_none split: if_splits)
next
  case (InExpr e vs)
  then obtain x args1 fs where e: "compile s u c e args = Inr (x, args1)"
    and vs: "compile_list s u c vs args1 = Inr (fs, args')"
    and f: "f = ''('' @ x @ '' IN ('' @ join '', '' fs @ ''))''"
    by (auto simp: assms(1) and_then_Inr_iff)
  have "numbered (paramsBefore c) args args1 (placeholders x)" using InExpr.IH(1) InExpr.prems(1) e by simp
  moreover have "numbered (paramsBefore c) args1 args' (concat (map placeholders fs))"
    by (rule compile_list_numbered[OF _ vs]) (use InExpr.IH(2) InExpr.prems(1) in \<open>auto simp: list_all_iff\<close>)
  moreover have "placeholders f = placeholders x @ concat (map placeholders fs)"
    unfolding f by (simp add: placeholders_append placeholders_join isDigit_def)
  ultimately show ?case using numbered_trans by metis
next
  case (BinaryExpr oper l r)
  then obtain x y args1 where "compile s u c l args = Inr (x, args1)" "compile s u c r args1 = Inr (y, args')"
    and f: "f = infix_sql oper x y" "oper \<in> set sql_operators"
    by (auto simp: assms(1) and_then_Inr_iff split: if_splits)
  with BinaryExpr have "numbered (paramsBefore c) args args1 (placeholders x)"
    "numbered (paramsBefore c) args1 args' (placeholders y)" by auto
  then show ?case unfolding f(1) placeholders_infix[OF f(2)] by (rule numbered_trans)
next
  case (UnaryExpr oper e)
  then show ?case by (auto simp: and_then_Inr_iff placeholders_append isDigit_def)
next
  case (IsNullExpr e n)
  then show ?case by (auto simp: assms(1) and_then_Inr_iff placeholders_append isDigit_def)
qed (auto simp: sqlBool_def literal_numbered userAttr_numbered split: option.splits)

section \<open>Quoting\<close>

text \<open>A scanner for the lexical structure of SQL: string literals, quoted identifiers, nesting of
  parentheses, statement separators. Leaving a string at a quote and entering it again at the next
  one reads a doubled quote as part of the string.\<close>

datatype sql_mode = Plain | InString | InIdent

fun sql_scan :: "sql_mode \<Rightarrow> nat \<Rightarrow> string \<Rightarrow> (sql_mode \<times> nat) option" where
  "sql_scan m d [] = Some (m, d)"
| "sql_scan InString d (c # cs) = sql_scan (if c = quote then Plain else InString) d cs"
| "sql_scan InIdent d (c # cs) = sql_scan (if c = dquote then Plain else InIdent) d cs"
| "sql_scan Plain d (c # cs) =
     (if c = quote then sql_scan InString d cs
      else if c = dquote then sql_scan InIdent d cs
      else if c = CHR ''('' then sql_scan Plain (Suc d) cs
      else if c = CHR '')'' then (if d = 0 then None else sql_scan Plain (d - 1) cs)
      else if c = CHR '';'' then None
      else sql_scan Plain d cs)"

definition standalone :: "string \<Rightarrow> bool" where
  "standalone s \<longleftrightarrow> (\<forall>d. sql_scan Plain d s = Some (Plain, d))"

lemma scan_append:
  "sql_scan m d (a @ b) = (case sql_scan m d a of None \<Rightarrow> None | Some (m', d') \<Rightarrow> sql_scan m' d' b)"
  by (induction m d a rule: sql_scan.induct) auto

lemma scan_standalone [simp]: "standalone a \<Longrightarrow> sql_scan Plain d (a @ b) = sql_scan Plain d b"
  by (simp add: standalone_def scan_append)

lemma scan_standalone_end [simp]: "standalone a \<Longrightarrow> sql_scan Plain d a = Some (Plain, d)"
  by (simp add: standalone_def)

lemma standalone_Nil [simp]: "standalone []"
  by (simp add: standalone_def)

lemma standalone_append: "standalone a \<Longrightarrow> standalone b \<Longrightarrow> standalone (a @ b)"
  by (simp add: standalone_def scan_append)

definition plain_char :: "char \<Rightarrow> bool" where
  "plain_char c \<longleftrightarrow> c \<notin> {quote, dquote, CHR ''('', CHR '')'', CHR '';''}"

lemma standalone_plain: "list_all plain_char s \<Longrightarrow> standalone s"
  by (induction s) (auto simp: standalone_def plain_char_def)

lemma scan_escaped: "sql_scan InString d (replace_char quote [quote, quote] s) = Some (InString, d)"
  by (induction s) auto

lemma scan_escaped_ident: "sql_scan InIdent d (replace_char dquote [dquote, dquote] s) = Some (InIdent, d)"
  by (induction s) auto

lemma standalone_quoted [simp]: "standalone (sql_quoted (EscapeSQLString s))"
  by (simp add: standalone_def sql_quoted_def EscapeSQLString_def scan_append scan_escaped)

lemma standalone_quoted_plain [simp]: "quote \<notin> set v \<Longrightarrow> standalone (sql_quoted v)"
  using standalone_quoted[of v] by (simp add: EscapeSQLString_def replace_char_id)

lemma standalone_sanitize: "quotes_identifiers q \<Longrightarrow> standalone (q f)"
  by (simp add: standalone_def quotes_identifiers_def scan_append scan_escaped_ident)

lemma standalone_setting_uuid:
  "standalone (setting_uuid ''app.current_user_id'')"
  "standalone (setting_uuid ''app.current_user_contact_id'')"
  by (simp_all add: standalone_def setting_uuid_def sql_quoted_def)

lemma standalone_setting_member:
  "standalone (setting_member ''app.current_user_roles'' x)"
  "standalone (setting_member ''app.current_user_permissions'' x)"
  unfolding standalone_def setting_member_def by simp_all

lemma numeral_plain:
  assumes "numeral_text n"
  shows "standalone n"
proof (rule standalone_plain)
  have "\<not> isDigit quote" "\<not> isDigit dquote" "\<not> isDigit (CHR ''('')" "\<not> isDigit (CHR '')'')" "\<not> isDigit (CHR '';'')"
    by code_simp+
  then have "isDigit c \<or> c = CHR ''.'' \<Longrightarrow> plain_char c" for c
    by (auto simp: plain_char_def)
  with assms show "list_all plain_char n" by (auto simp: numeral_text_def list_all_iff)
qed

lemma standalone_join: "(\<And>w. w \<in> set ws \<Longrightarrow> standalone w) \<Longrightarrow> standalone (join '', '' ws)"
proof (induction ws rule: induct_list012)
  case (3 w v ws)
  then have "standalone w" "standalone (join '', '' (v # ws))" by auto
  then show ?case by (simp add: standalone_def scan_append)
qed simp_all

lemma standalone_infix:
  "oper \<in> set sql_operators \<Longrightarrow> standalone l \<Longrightarrow> standalone r \<Longrightarrow> standalone (infix_sql oper l r)"
  unfolding sql_operators_def infix_sql_def by (auto simp: standalone_def scan_append)

lemma rls_operators_sub: "oper \<in> set rls_operators \<Longrightarrow> oper \<in> set sql_operators"
  by (auto simp: rls_operators_def sql_operators_def)

lemma standalone_not: "standalone f \<Longrightarrow> standalone (''(NOT '' @ f @ '')'')"
  by (simp add: standalone_def scan_append)

lemma standalone_is_null:
  "standalone f \<Longrightarrow> standalone (''('' @ f @ '' IS NOT NULL)'')"
  "standalone f \<Longrightarrow> standalone (''('' @ f @ '' IS NULL)'')"
  by (simp_all add: standalone_def scan_append)

lemma standalone_in:
  "standalone f \<Longrightarrow> standalone vs \<Longrightarrow> standalone (''('' @ f @ '' IN ('' @ vs @ ''))'')"
  by (simp add: standalone_def scan_append)

lemma compileLiteral_standalone: "wf_expr (Literal l) \<Longrightarrow> standalone (compileLiteral l)"
  by (cases l rule: compileLiteral.cases)
     (auto simp: numeral_plain intro!: standalone_plain simp: plain_char_def)

lemma compileRLS_standalone:
  assumes "quotes_identifiers q"
  shows "wf_expr e \<Longrightarrow> compileRLS q e = Inr f \<Longrightarrow> standalone f"
proof (induction e arbitrary: f)
  case (InExpr e vs)
  then obtain x fs where "compileRLS q e = Inr x" and vs: "map_res (compileRLS q) vs = Inr fs"
    and f: "f = ''('' @ x @ '' IN ('' @ join '', '' fs @ ''))''"
    by (auto simp: and_then_Inr_iff)
  then have "standalone x" using InExpr by simp
  moreover have "standalone w" if "w \<in> set fs" for w
    using that vs InExpr.IH(2) InExpr.prems(1)
    by (auto simp: map_res_Inr_iff in_set_conv_nth list_all_iff)
  ultimately show ?case unfolding f by (intro standalone_in standalone_join)
next
  case (BinaryExpr oper l r)
  then show ?case
    by (auto simp: and_then_Inr_iff intro!: standalone_infix rls_operators_sub split: if_splits)
qed (auto simp: and_then_Inr_iff standalone_sanitize[OF assms] standalone_setting_uuid standalone_setting_member
     compileLiteral_standalone standalone_not standalone_is_null simp del: append_Cons wf_expr.simps(6) split: if_splits)

lemma show_nat_plain: "list_all plain_char (CHR ''$'' # show_nat n)"
proof -
  have "\<not> isDigit quote" "\<not> isDigit dquote" "\<not> isDigit (CHR ''('')" "\<not> isDigit (CHR '')'')" "\<not> isDigit (CHR '';'')"
    by code_simp+
  then show ?thesis using show_nat_digits[of _ n] by (auto simp: plain_char_def list_all_iff)
qed

lemma bindArg_standalone: "bindArg c v args = (p, args') \<Longrightarrow> standalone p"
  using standalone_plain[OF show_nat_plain] by (auto simp: bindArg_def)

lemma standalone_words [simp]:
  "standalone ''NULL''" "standalone ''true''" "standalone ''false''" "standalone ''TRUE''" "standalone ''FALSE''"
  by (simp_all add: standalone_def)

lemma compile_list_standalone:
  assumes "\<And>v args f args'. v \<in> set vs \<Longrightarrow> compile s u c v args = Inr (f, args') \<Longrightarrow> standalone f"
  shows "compile_list s u c vs args = Inr (fs, args') \<Longrightarrow> w \<in> set fs \<Longrightarrow> standalone w"
  using assms
proof (induction vs arbitrary: args fs)
  case (Cons v vs)
  from Cons.prems(1) obtain f args1 fs1 where v: "compile s u c v args = Inr (f, args1)"
    and vs: "compile_list s u c vs args1 = Inr (fs1, args')" and fs: "fs = f # fs1"
    by (auto simp: and_then_Inr_iff)
  have "standalone f" by (rule Cons.prems(3)[OF _ v]) simp
  moreover have "w \<in> set fs1 \<Longrightarrow> standalone w"
    by (rule Cons.IH[OF vs]) (assumption, rule Cons.prems(3), auto)
  ultimately show ?case using Cons.prems(2) fs by auto
qed simp

lemma compile_standalone:
  assumes "relations c = Map.empty" "quotes_identifiers s"
  shows "compile s u c e args = Inr (f, args') \<Longrightarrow> standalone f"
proof (induction e arbitrary: args f args')
  case (InExpr e vs)
  then obtain x args1 fs where "compile s u c e args = Inr (x, args1)"
    and vs: "compile_list s u c vs args1 = Inr (fs, args')"
    and f: "f = ''('' @ x @ '' IN ('' @ join '', '' fs @ ''))''"
    by (auto simp: assms(1) and_then_Inr_iff)
  then have "standalone x" using InExpr by simp
  moreover have "standalone w" if "w \<in> set fs" for w
    by (rule compile_list_standalone[OF _ vs that]) (rule InExpr.IH(2))
  ultimately show ?case unfolding f by (intro standalone_in standalone_join)
next
  case (BinaryExpr oper l r)
  then show ?case
    by (auto simp: assms(1) and_then_Inr_iff intro!: standalone_infix split: if_splits)
next
  case (Literal l)
  then show ?case by (cases l) (auto dest: bindArg_standalone split: option.splits if_splits)
next
  case (UserAttr a)
  then show ?case by (auto simp: userAttr_def Let_def dest: bindArg_standalone split: option.splits if_splits)
next
  case (IsNullExpr e n)
  then show ?case
    by (auto simp: assms(1) and_then_Inr_iff standalone_is_null simp del: append_Cons split: if_splits)
qed (auto simp: assms(1) and_then_Inr_iff standalone_sanitize[OF assms(2)] sqlBool_def
     standalone_not simp del: append_Cons split: if_splits option.splits)

section \<open>Filter and row-level security\<close>

fun number_texts :: "expr \<Rightarrow> string set" where
  "number_texts (Literal (LNumber n)) = {n}"
| "number_texts (BinaryExpr _ l r) = number_texts l \<union> number_texts r"
| "number_texts (UnaryExpr _ e) = number_texts e"
| "number_texts (IsNullExpr e _) = number_texts e"
| "number_texts (InExpr e vs) = number_texts e \<union> (\<Union>v \<in> set vs. number_texts v)"
| "number_texts _ = {}"

fun user_attrs :: "expr \<Rightarrow> string set" where
  "user_attrs (UserAttr a) = {a}"
| "user_attrs (BinaryExpr _ l r) = user_attrs l \<union> user_attrs r"
| "user_attrs (UnaryExpr _ e) = user_attrs e"
| "user_attrs (IsNullExpr e _) = user_attrs e"
| "user_attrs (InExpr e vs) = user_attrs e \<union> (\<Union>v \<in> set vs. user_attrs v)"
| "user_attrs _ = {}"

definition accepts :: "('e, 'a) result \<Rightarrow> bool" where
  "accepts r \<longleftrightarrow> (\<exists>x. r = Inr x)"

lemma accepts_simps [simp]: "accepts (Inr x)" "\<not> accepts (Inl err)"
  by (simp_all add: accepts_def)

lemma accepts_and_then: "accepts (and_then r f) \<longleftrightarrow> (\<exists>x. r = Inr x \<and> accepts (f x))"
  by (cases r) simp_all

lemma accepts_map_res: "accepts (map_res f xs) \<longleftrightarrow> (\<forall>x \<in> set xs. accepts (f x))"
  by (induction xs) (auto simp: accepts_def split: sum.splits)

lemma accepts_compile_list:
  assumes "\<And>v args. v \<in> set vs \<Longrightarrow> accepts (compile s u c v args) \<longleftrightarrow> P v"
  shows "accepts (compile_list s u c vs args) \<longleftrightarrow> (\<forall>v \<in> set vs. P v)"
  using assms
proof (induction vs arbitrary: args)
  case (Cons v vs)
  have "accepts (compile s u c v args) \<longleftrightarrow> P v" by (rule Cons.prems) simp
  moreover have "accepts (compile_list s u c vs a) \<longleftrightarrow> (\<forall>v \<in> set vs. P v)" for a
    by (rule Cons.IH) (rule Cons.prems, simp)
  ultimately show ?case by (auto simp: accepts_and_then) (auto simp: accepts_def)
qed simp

lemma accepts_const: "(\<And>x. accepts (f x) \<longleftrightarrow> b) \<Longrightarrow> accepts (and_then r f) \<longleftrightarrow> accepts r \<and> b"
  by (cases r) simp_all

lemma filter_accepts_iff:
  assumes c: "relations c = Map.empty" "user_env c = Some env" "HasPermission env \<noteq> None"
  shows "(\<forall>n \<in> number_texts e. ParseFloat n \<noteq> None) \<Longrightarrow> ''tenant_id'' \<notin> user_attrs e \<Longrightarrow> wf_expr e \<Longrightarrow>
    accepts (compile s u c e args) \<longleftrightarrow> accepts (compileRLS q e)"
proof (induction e arbitrary: args)
  case (Literal l)
  then show ?case by (cases l) (auto split: option.splits)
next
  case (UserAttr a)
  then show ?case by (auto simp: c userAttr_def Let_def)
next
  case (PermCheck p)
  then show ?case using c by auto
next
  case (UnaryExpr oper e)
  then show ?case by (auto simp: accepts_const split: prod.splits)
next
  case (IsNullExpr e n)
  then show ?case by (auto simp: c accepts_const split: prod.splits)
next
  case (BinaryExpr oper l r)
  have "oper \<in> set sql_operators" "oper \<noteq> ''LIKE'' \<Longrightarrow> oper \<noteq> ''ILIKE'' \<Longrightarrow> oper \<in> set rls_operators"
    using BinaryExpr.prems(3)
    by (auto simp: sql_operators_def rls_operators_def comparison_ops_def logical_ops_def)
  with BinaryExpr show ?case
    by (auto simp: c accepts_const split: prod.splits)
next
  case (InExpr e vs)
  have "accepts (compile s u c v args) \<longleftrightarrow> accepts (compileRLS q v)" if "v \<in> set vs" for v args
    using that InExpr.prems by (intro InExpr.IH(2)) (auto simp: list_all_iff)
  from accepts_compile_list[OF this] InExpr show ?case
    by (auto simp: c accepts_const accepts_map_res split: prod.splits)
qed (auto simp: c)

section \<open>Binding the user\<close>

text \<open>The condition with everything about the user replaced by its value.\<close>

definition bound_value :: "string \<Rightarrow> expr" where
  "bound_value s = Literal (if s = [] then LNull else LString s)"

fun bind_user :: "env \<Rightarrow> expr \<Rightarrow> expr" where
  "bind_user env (UserAttr a) =
     (if a = ''id'' then bound_value (UserID env)
      else if a = ''contact_id'' then bound_value (ContactID env)
      else if a = ''tenant_id'' then bound_value (TenantID env)
      else UserAttr a)"
| "bind_user env (RoleCheck r) = Literal (LBool (r \<in> set (Roles env)))"
| "bind_user env (PermCheck p) =
     (case HasPermission env of None \<Rightarrow> PermCheck p | Some has \<Rightarrow> Literal (LBool (has p)))"
| "bind_user env (BinaryExpr oper l r) = BinaryExpr oper (bind_user env l) (bind_user env r)"
| "bind_user env (UnaryExpr oper e) = UnaryExpr oper (bind_user env e)"
| "bind_user env (IsNullExpr e neg) = IsNullExpr (bind_user env e) neg"
| "bind_user env (InExpr e vs) = InExpr (bind_user env e) (map (bind_user env) vs)"
| "bind_user env (TreeExpr oper e) = TreeExpr oper (bind_user env e)"
| "bind_user env e = e"

lemma evalIn_map:
  "(\<And>v. v \<in> set vs \<Longrightarrow> eval env' (h v) = eval env v) \<Longrightarrow> evalIn env' x n m (map h vs) = evalIn env x n m vs"
  by (induction vs arbitrary: n m) (auto simp: and_then_def split: sum.splits)

lemma eval_bind_user:
  assumes "Record env' = Record env" "HasPermission env \<noteq> None"
  shows "eval env' (bind_user env e) = eval env e"
proof (induction e)
  case (UserAttr a)
  then show ?case by (simp add: evalUserAttr_def bound_value_def Let_def)
next
  case (PermCheck p)
  then show ?case using assms by auto
next
  case (InExpr e vs)
  from evalIn_map[OF InExpr(2)] InExpr(1) show ?case by simp
qed (simp_all add: assms)

text \<open>Compilations that agree up to the case of the letters of the fragment.\<close>

abbreviation same_sql :: "cresult \<Rightarrow> cresult \<Rightarrow> bool" where
  "same_sql \<equiv> rel_sum (=) (rel_prod (\<lambda>f g. to_lower f = to_lower g) (=))"

abbreviation same_list :: "(compile_error, string list \<times> arg list) result \<Rightarrow> (compile_error, string list \<times> arg list) result \<Rightarrow> bool" where
  "same_list \<equiv> rel_sum (=) (rel_prod (\<lambda>fs gs. map to_lower fs = map to_lower gs) (=))"

lemma to_lower_append [simp]: "to_lower (a @ b) = to_lower a @ to_lower b"
  by (simp add: to_lower_def)

lemma to_lower_Cons [simp]: "to_lower (c # s) = lower_char c # to_lower s"
  by (simp add: to_lower_def)

lemma to_lower_join: "map to_lower fs = map to_lower gs \<Longrightarrow> to_lower (join sep fs) = to_lower (join sep gs)"
proof (induction fs arbitrary: gs rule: induct_list012)
  case (3 f f' fs)
  then obtain g g' gs' where gs: "gs = g # g' # gs'" "to_lower f = to_lower g"
    "map to_lower (f' # fs) = map to_lower (g' # gs')"
    by (auto simp: Cons_eq_map_conv)
  from "3.IH"(2)[OF gs(3)] gs show ?case by simp
qed auto

lemma same_and_then:
  assumes "rel_sum (=) R r1 r2" "\<And>x y. R x y \<Longrightarrow> rel_sum (=) S (g x) (h y)"
  shows "rel_sum (=) S (and_then r1 g) (and_then r2 h)"
  using assms by (cases r1; cases r2) auto

lemma same_compile_list:
  assumes "\<And>v args. v \<in> set vs \<Longrightarrow> same_sql (compile s u c' (h v) args) (compile s u c v args)"
  shows "same_list (compile_list s u c' (map h vs) args) (compile_list s u c vs args)"
  using assms
proof (induction vs arbitrary: args)
  case (Cons v vs)
  have v: "same_sql (compile s u c' (h v) args) (compile s u c v args)" by (rule Cons.prems) simp
  have vs: "same_list (compile_list s u c' (map h vs) a) (compile_list s u c vs a)" for a
    by (rule Cons.IH) (rule Cons.prems, simp)
  show ?case
    unfolding list.map compile_list.simps
    by (rule same_and_then[OF v], clarsimp, rule same_and_then[OF vs], clarsimp)
qed simp

lemma same_user_attr:
  assumes "user_env c = Some env" "user_env c' = Some env'" "paramsBefore c' = paramsBefore c"
  shows "same_sql (compile s u c' (bind_user env (UserAttr a)) args) (compile s u c (UserAttr a) args)"
  using assms by (simp add: userAttr_def bound_value_def Let_def bindArg_def)

lemma compile_bind_user:
  assumes c: "relations c = Map.empty" "user_env c = Some env" "HasPermission env \<noteq> None"
    and c': "relations c' = Map.empty" "user_env c' = Some env'" "paramsBefore c' = paramsBefore c"
  shows "same_sql (compile s u c' (bind_user env e) args) (compile s u c e args)"
proof (induction e arbitrary: args)
  case (UserAttr a)
  show ?case by (rule same_user_attr[OF c(2) c'(2,3)])
next
  case (RoleCheck r)
  have "to_lower ''TRUE'' = to_lower ''true''" "to_lower ''FALSE'' = to_lower ''false''" by code_simp+
  then show ?case by (simp add: c sqlBool_def)
next
  case (PermCheck p)
  have "to_lower ''TRUE'' = to_lower ''true''" "to_lower ''FALSE'' = to_lower ''false''" by code_simp+
  then show ?case using c by (auto simp: sqlBool_def)
next
  case (Literal l)
  then show ?case using c' by (cases l) (auto simp: bindArg_def split: option.splits)
next
  case (BinaryExpr oper l r)
  show ?case
    unfolding bind_user.simps compile.simps relation_none[OF c(1)] relation_none[OF c'(1)] option.case
    by (simp add: c c', intro impI same_and_then[OF BinaryExpr(1)], clarsimp,
        intro same_and_then[OF BinaryExpr(2)], clarsimp simp: infix_sql_def)
next
  case (UnaryExpr oper e)
  show ?case unfolding bind_user.simps compile.simps
    by (intro same_and_then[OF UnaryExpr]) clarsimp
next
  case (IsNullExpr e n)
  show ?case
    unfolding bind_user.simps compile.simps relation_none[OF c(1)] relation_none[OF c'(1)] option.case
    by (intro same_and_then[OF IsNullExpr]) clarsimp
next
  case (InExpr e vs)
  have vs: "same_list (compile_list s u c' (map (bind_user env) vs) args) (compile_list s u c vs args)" for args
    by (rule same_compile_list) (rule InExpr(2))
  show ?case
    unfolding bind_user.simps compile.simps relation_none[OF c(1)] relation_none[OF c'(1)] option.case
    by (intro same_and_then[OF InExpr(1)], clarsimp, intro same_and_then[OF vs], clarsimp, erule to_lower_join)
qed (simp_all add: c c')

section \<open>Properties of the SQL compilers\<close>

text \<open>
  (C21) String literals are data, never SQL: changing the strings of a search domain in any way
  leaves the compiled fragment (or the compile error) as it was and changes the bound arguments in
  the same way, so no string can alter the query.
\<close>
theorem CompileToSQL_parametric:
  "CompileToSQL sanitize parse_uuid (map_strings h e) = map_args h (CompileToSQL sanitize parse_uuid e)"
  using compile_map_strings[of "\<lparr>relations = Map.empty, user_env = None, paramsBefore = 0\<rparr>" sanitize parse_uuid h e "[]"]
  by (simp add: CompileToSQL_def CompileToSQLWithRelations_def)

text \<open>
  (C31) Placeholders are numbered without gaps or repetition: reading the compiled filter from left to
  right, its parameters are \<^verbatim>\<open>$(before+1)\<close> to \<^verbatim>\<open>$(before+n)\<close> for the \<open>n\<close> arguments it returns, so the
  fragments of several policies can share one parameter list.
\<close>
theorem CompileToFilter_placeholders:
  assumes "quotes_identifiers sanitize" "Parse src = Inr e"
    and "CompileToFilter sanitize parse_uuid e env before = Inr (fragment, args)"
  shows "placeholders fragment = [before + 1 ..< before + 1 + length args]"
  using compile_numbered[OF _ assms(1) Parse_wf_expr[OF assms(2)],
      of "\<lparr>relations = Map.empty, user_env = Some env, paramsBefore = before\<rparr>" parse_uuid "[]" fragment args] assms(3)
  by (simp add: CompileToFilter_def numbered_def)

definition dquoting :: "string \<Rightarrow> string" where
  "dquoting f = dquote # replace_char dquote [dquote, dquote] (filter (\<lambda>c. c \<noteq> CHR 0x00) f) @ [dquote]"

lemma dquoting_ok: "quotes_identifiers dquoting"
  by (simp add: quotes_identifiers_def dquoting_def)

definition sample_user :: env where
  "sample_user = \<lparr>Record = Map.empty, UserID = ''u1'', ContactID = [], TenantID = ''t1'',
     Roles = [''admin''], HasPermission = Some (\<lambda>p. False)\<rparr>"

theorem CompileToFilter_placeholders_witness:
  "placeholders (dquoting ''a'' @ '' = $3'') = [3] \<and>
   CompileToFilter dquoting (\<lambda>s. None) (BinaryExpr ''='' (RecordField ''a'') (UserAttr ''id'')) sample_user 2 =
     Inr (''('' @ dquoting ''a'' @ '' = $3)'', [ArgString ''u1'']) \<and>
   placeholders (''('' @ dquoting ''a'' @ '' = $3)'') = [3]"
proof -
  let ?e = "BinaryExpr ''='' (RecordField ''a'') (UserAttr ''id'')"
  have p: "Parse ''record.a = user.id'' = Inr ?e" by code_simp
  have c: "CompileToFilter dquoting (\<lambda>s. None) ?e sample_user 2 =
     Inr (''('' @ dquoting ''a'' @ '' = $3)'', [ArgString ''u1''])" by code_simp
  have "[2 + 1 ..< 2 + 1 + length [ArgString ''u1'']] = [3]" by simp
  with CompileToFilter_placeholders[OF dquoting_ok p c]
  have "placeholders (''('' @ dquoting ''a'' @ '' = $3)'') = [3]" by simp
  moreover have "placeholders (dquoting ''a'' @ '' = $3'') = [3]" by code_simp
  ultimately show ?thesis using c by simp
qed

text \<open>
  (C7) A compiled row-level-security clause is self-contained: read with SQL's own quoting rules, it
  leaves every string and every quoted identifier it opens, closes every parenthesis it opens
  without closing one of its surroundings, and holds no statement separator outside quotes. No
  literal, role name or permission name can break out of the policy it is written in.
\<close>
theorem CompileToRLS_contained:
  assumes "quotes_identifiers sanitize" "Parse src = Inr e" "CompileToRLS sanitize e = Inr clause"
  shows "sql_scan Plain depth clause = Some (Plain, depth)"
  using compileRLS_standalone[OF assms(1) Parse_wf_expr[OF assms(2)], of clause] assms(3)
  by (simp add: CompileToRLS_def)

theorem CompileToRLS_contained_witness:
  "CompileToRLS dquoting (RoleCheck ''x') OR (1=1'') = Inr (setting_member ''app.current_user_roles'' ''x') OR (1=1'') \<and>
   sql_scan Plain 0 (setting_member ''app.current_user_roles'' ''x') OR (1=1'') = Some (Plain, 0)"
proof -
  have "Parse (''user_has_role('' @ [quote] @ ''x'' @ [quote, quote] @ '') OR (1=1'' @ [quote] @ '')'') =
      Inr (RoleCheck ''x') OR (1=1'')" by code_simp
  moreover have c: "CompileToRLS dquoting (RoleCheck ''x') OR (1=1'') =
      Inr (setting_member ''app.current_user_roles'' ''x') OR (1=1'')"
    by (simp add: CompileToRLS_def)
  ultimately show ?thesis using CompileToRLS_contained[OF dquoting_ok _ c, of _ 0] by blast
qed



text \<open>
  (C20) The per-user filter is the condition with the user substituted: replacing every user
  attribute, role test and permission test by its value gives a condition that evaluates to the
  same verdict for any user on the same record, and that compiles to the same filter (up to the
  spelling of TRUE and FALSE) with the same arguments.
\<close>
theorem CompileToFilter_binds_user:
  assumes "HasPermission env \<noteq> None" "Record env' = Record env"
  shows "Eval (bind_user env e) env' = Eval e env \<and>
    same_sql (CompileToFilter sanitize parse_uuid (bind_user env e) env' before)
      (CompileToFilter sanitize parse_uuid e env before)"
  using eval_bind_user[OF assms(2,1), of e] compile_bind_user[OF _ _ assms(1),
      of "\<lparr>relations = Map.empty, user_env = Some env, paramsBefore = before\<rparr>"
         "\<lparr>relations = Map.empty, user_env = Some env', paramsBefore = before\<rparr>" env']
  by (simp add: Eval_def CompileToFilter_def)

theorem CompileToFilter_binds_user_witness:
  "Eval (bind_user sample_user (RoleCheck ''admin'')) no_env = Eval (RoleCheck ''admin'') sample_user \<and>
   bind_user sample_user (RoleCheck ''admin'') = Literal (LBool True)"
  using CompileToFilter_binds_user[of sample_user no_env "RoleCheck ''admin''" dquoting "\<lambda>s. None" 0]
  by (simp add: sample_user_def no_env_def)

end
