(* ===== verification/Permission_Bits.thy ===== *)
theory Permission_Bits
  imports Go_Prelude "HOL-Library.Word"
begin

text \<open>
  Permission bitfields and the permission registry (\<^verbatim>\<open>permission/bitfield.go\<close>,
  \<^verbatim>\<open>permission/permission.go\<close>). A bitfield is a slice of 64-bit words; the interface locale
  \<open>index_set\<close> says what its operations promise of the set of indices it stands for, and the
  bitfield interprets it. The registry hands out indices that are never reused.
\<close>

unbundle bit_operations_syntax

section \<open>Bitfields\<close>

type_synonym bitfield = "64 word list"

definition bitsPerWord :: nat where
  "bitsPerWord = 64"

definition Has :: "bitfield \<Rightarrow> nat \<Rightarrow> bool" where
  "Has b idx =
     (let word = idx div bitsPerWord in
      if word \<ge> length b then False
      else (b ! word) AND push_bit (idx mod bitsPerWord) 1 \<noteq> 0)"

text \<open>\<^verbatim>\<open>grown := make(PermissionBitfield, n); copy(grown, b)\<close>\<close>

definition grow :: "nat \<Rightarrow> bitfield \<Rightarrow> bitfield" where
  "grow n b = b @ replicate (n - length b) 0"

definition Set :: "nat \<Rightarrow> bitfield \<Rightarrow> bitfield" where
  "Set idx b =
     (let word = idx div bitsPerWord;
          b' = if word \<ge> length b then grow (word + 1) b else b
      in b'[word := (b' ! word) OR push_bit (idx mod bitsPerWord) 1])"

text \<open>\<^verbatim>\<open>for word, bits := range other { (*b)[word] |= bits }\<close>\<close>

fun or_words :: "bitfield \<Rightarrow> bitfield \<Rightarrow> bitfield" where
  "or_words (x # b) (y # other) = (x OR y) # or_words b other"
| "or_words b _ = b"

definition Or :: "bitfield \<Rightarrow> bitfield \<Rightarrow> bitfield" where
  "Or other b = or_words (if length other > length b then grow (length other) b else b) other"

fun And :: "bitfield \<Rightarrow> bitfield \<Rightarrow> bitfield" where
  "And other [] = []"
| "And [] (x # b) = 0 # And [] b"
| "And (y # other) (x # b) = (x AND y) # And other b"

section \<open>The interface\<close>

locale index_set =
  fixes empty :: 'b
    and has :: "'b \<Rightarrow> nat \<Rightarrow> bool"
    and add :: "nat \<Rightarrow> 'b \<Rightarrow> 'b"
    and join :: "'b \<Rightarrow> 'b \<Rightarrow> 'b"
    and meet :: "'b \<Rightarrow> 'b \<Rightarrow> 'b"
  assumes has_empty: "\<not> has empty i"
    and has_add: "has (add j b) i \<longleftrightarrow> i = j \<or> has b i"
    and has_join: "has (join c b) i \<longleftrightarrow> has b i \<or> has c i"
    and has_meet: "has (meet c b) i \<longleftrightarrow> has b i \<and> has c i"
begin

lemma has_fold_add: "has (fold add is b) i \<longleftrightarrow> i \<in> set is \<or> has b i"
  by (induction "is" arbitrary: b) (auto simp: has_add)

lemma has_fold_join: "has (fold join bs b) i \<longleftrightarrow> has b i \<or> (\<exists>c \<in> set bs. has c i)"
  by (induction bs arbitrary: b) (auto simp: has_join)

lemma meet_narrows: "has (meet c b) i \<Longrightarrow> has b i"
  by (simp add: has_meet)

lemma join_absorbs: "has (join c (join c b)) i \<longleftrightarrow> has (join c b) i"
  by (auto simp: has_join)

end

section \<open>Bitfields implement it\<close>

lemma bit_single: "bit (2 ^ k :: 64 word) n \<longleftrightarrow> n = k \<and> n < 64"
  by (auto simp: bit_exp_iff)

lemma and_single_nonzero:
  fixes w :: "64 word"
  assumes "k < 64"
  shows "w AND 2 ^ k \<noteq> 0 \<longleftrightarrow> bit w k"
proof
  assume "w AND 2 ^ k \<noteq> 0"
  then obtain n where "bit (w AND 2 ^ k) n" by (auto simp: bit_eq_iff)
  then show "bit w k" by (auto simp: bit_and_iff bit_single)
next
  assume "bit w k"
  then have "bit (w AND 2 ^ k) k" using assms by (simp add: bit_and_iff bit_single)
  then show "w AND 2 ^ k \<noteq> 0" by (metis bit_0_eq bot_apply bot_bool_def)
qed

lemma Has_bit: "Has b i \<longleftrightarrow> i div 64 < length b \<and> bit (b ! (i div 64)) (i mod 64)"
  using and_single_nonzero[of "i mod 64" "b ! (i div 64)"] by (auto simp: Has_def Let_def bitsPerWord_def)

lemma Has_grow [simp]: "Has (grow n b) i = Has b i"
  by (auto simp: Has_bit grow_def nth_append)

lemma Set_length: "i div 64 < length (if i div 64 \<ge> length b then grow (i div 64 + 1) b else b)"
  by (auto simp: grow_def)

lemma Has_update:
  assumes "j div 64 < length b"
  shows "Has (b[j div 64 := (b ! (j div 64)) OR push_bit (j mod 64) 1]) i \<longleftrightarrow> i = j \<or> Has b i"
proof -
  have "i div 64 = j div 64 \<Longrightarrow> i mod 64 = j mod 64 \<Longrightarrow> i = j"
    by (metis div_mult_mod_eq)
  with assms show ?thesis
    by (auto simp: Has_bit nth_list_update bit_or_iff bit_single)
qed

lemma Has_Set [simp]: "Has (Set j b) i \<longleftrightarrow> i = j \<or> Has b i"
  using Has_update[OF Set_length[of j b], of i] by (simp add: Set_def Let_def bitsPerWord_def split: if_splits)

lemma or_words_length [simp]: "length (or_words b c) = length b"
  by (induction b c rule: or_words.induct) auto

lemma or_words_nth:
  "k < length b \<Longrightarrow> or_words b c ! k = (if k < length c then (b ! k) OR (c ! k) else b ! k)"
  by (induction b c arbitrary: k rule: or_words.induct) (auto simp: nth_Cons split: nat.splits)

lemma Has_or_words: "length c \<le> length b \<Longrightarrow> Has (or_words b c) i \<longleftrightarrow> Has b i \<or> Has c i"
  by (auto simp: Has_bit or_words_nth bit_or_iff split: if_splits)

lemma Has_Or [simp]: "Has (Or c b) i \<longleftrightarrow> Has b i \<or> Has c i"
proof (cases "length c > length b")
  case True
  then have "length c \<le> length (grow (length c) b)" by (simp add: grow_def)
  from Has_or_words[OF this, of i] True show ?thesis by (simp add: Or_def)
qed (simp add: Or_def Has_or_words)

lemma And_length [simp]: "length (And c b) = length b"
  by (induction c b rule: And.induct) auto

lemma And_nth: "k < length b \<Longrightarrow> And c b ! k = (if k < length c then (b ! k) AND (c ! k) else 0)"
  by (induction c b arbitrary: k rule: And.induct) (auto simp: nth_Cons split: nat.splits)

lemma Has_And [simp]: "Has (And c b) i \<longleftrightarrow> Has b i \<and> Has c i"
  by (auto simp: Has_bit And_nth bit_and_iff split: if_splits)

interpretation bf: index_set "[]" Has Set Or And
  by unfold_locales (auto simp: Has_bit[of "[]"])

section \<open>The registry\<close>

record permission =
  perm_Name :: string
  perm_Description :: string
  perm_Category :: string
  perm_DefaultRoles :: "string list"

record permission_registry =
  indices :: "string \<rightharpoonup> nat"
  nextIdx :: nat
  modulePerms :: "string \<rightharpoonup> permission list"

definition NewPermissionRegistry :: permission_registry where
  "NewPermissionRegistry = \<lparr>indices = Map.empty, nextIdx = 0, modulePerms = Map.empty\<rparr>"

definition register1 :: "permission \<Rightarrow> permission_registry \<Rightarrow> permission_registry" where
  "register1 p r =
     (if indices r (perm_Name p) \<noteq> None then r
      else r\<lparr>indices := (indices r)(perm_Name p \<mapsto> nextIdx r), nextIdx := nextIdx r + 1\<rparr>)"

definition Register :: "string \<Rightarrow> permission list \<Rightarrow> permission_registry \<Rightarrow> permission_registry" where
  "Register moduleName permissions r =
     fold register1 permissions (r\<lparr>modulePerms := (modulePerms r)(moduleName \<mapsto> permissions)\<rparr>)"

definition Unregister :: "string \<Rightarrow> permission_registry \<Rightarrow> permission_registry" where
  "Unregister moduleName r = r\<lparr>modulePerms := (modulePerms r)(moduleName := None)\<rparr>"

definition Index :: "permission_registry \<Rightarrow> string \<Rightarrow> nat option" where
  "Index r p = indices r p"

definition ModulePermissions :: "permission_registry \<Rightarrow> string \<Rightarrow> permission list" where
  "ModulePermissions r moduleName = (case modulePerms r moduleName of None \<Rightarrow> [] | Some ps \<Rightarrow> ps)"

definition Names :: "permission_registry \<Rightarrow> string list" where
  "Names r = sorted_list_of_set (dom (indices r))"

datatype registry_op = OpRegister string "permission list" | OpUnregister string

fun apply_op :: "registry_op \<Rightarrow> permission_registry \<Rightarrow> permission_registry" where
  "apply_op (OpRegister m ps) r = Register m ps r"
| "apply_op (OpUnregister m) r = Unregister m r"

definition run_ops :: "registry_op list \<Rightarrow> permission_registry \<Rightarrow> permission_registry" where
  "run_ops ops r = fold apply_op ops r"

text \<open>Indices are handed out in order, each to one name.\<close>

definition registry_ok :: "permission_registry \<Rightarrow> bool" where
  "registry_ok r \<longleftrightarrow> finite (dom (indices r)) \<and> inj_on (indices r) (dom (indices r)) \<and> ran (indices r) = {..<nextIdx r}"

lemma new_registry_ok: "registry_ok NewPermissionRegistry"
  by (auto simp: registry_ok_def NewPermissionRegistry_def)

lemma register1_ok: "registry_ok r \<Longrightarrow> registry_ok (register1 p r)"
proof (cases "indices r (perm_Name p)")
  case None
  assume ok: "registry_ok r"
  then have new: "nextIdx r \<notin> ran (indices r)" by (simp add: registry_ok_def)
  have "inj_on ((indices r)(perm_Name p \<mapsto> nextIdx r)) (insert (perm_Name p) (dom (indices r)))"
    using ok new None by (auto simp: registry_ok_def inj_on_def ran_def)
  moreover have "ran ((indices r)(perm_Name p \<mapsto> nextIdx r)) = insert (nextIdx r) (ran (indices r))"
    using None by (rule ran_map_upd)
  ultimately show ?thesis using ok None by (simp add: registry_ok_def register1_def lessThan_Suc)
qed (simp add: register1_def)

lemma fold_register1_ok: "registry_ok r \<Longrightarrow> registry_ok (fold register1 ps r)"
  by (induction ps arbitrary: r) (simp_all add: register1_ok)

lemma modulePerms_ok [simp]: "registry_ok (r\<lparr>modulePerms := m\<rparr>) = registry_ok r"
  by (simp add: registry_ok_def)

lemma apply_op_ok: "registry_ok r \<Longrightarrow> registry_ok (apply_op oper r)"
  by (cases oper) (simp_all add: Register_def Unregister_def fold_register1_ok)

lemma run_ops_ok: "registry_ok r \<Longrightarrow> registry_ok (run_ops ops r)"
  unfolding run_ops_def by (induction ops arbitrary: r) (simp_all add: apply_op_ok)

lemma register1_stable: "indices r \<subseteq>\<^sub>m indices (register1 p r)"
  by (auto simp: register1_def map_le_def)

lemma fold_register1_stable: "indices r \<subseteq>\<^sub>m indices (fold register1 ps r)"
  by (induction ps arbitrary: r) (auto intro: map_le_trans register1_stable)

lemma apply_op_stable: "indices r \<subseteq>\<^sub>m indices (apply_op oper r)"
  using fold_register1_stable[of "r\<lparr>modulePerms := _\<rparr>"]
  by (cases oper) (auto simp: Register_def Unregister_def)

lemma run_ops_stable: "indices r \<subseteq>\<^sub>m indices (run_ops ops r)"
  unfolding run_ops_def by (induction ops arbitrary: r) (auto intro: map_le_trans apply_op_stable)

lemma run_ops_append: "run_ops (ops @ ops') r = run_ops ops' (run_ops ops r)"
  by (simp add: run_ops_def)

lemma fold_register1_registers: "p \<in> set ps \<Longrightarrow> indices (fold register1 ps r) (perm_Name p) \<noteq> None"
proof (induction ps arbitrary: r)
  case (Cons q ps)
  show ?case
  proof (cases "p = q")
    case True
    have "indices (register1 q r) (perm_Name q) \<noteq> None" by (auto simp: register1_def)
    with True fold_register1_stable[of "register1 q r" ps] show ?thesis
      by (auto simp: map_le_def dom_def)
  next
    case False
    with Cons show ?thesis by simp
  qed
qed simp

lemma index_injective:
  "registry_ok r \<Longrightarrow> Index r n = Some k \<Longrightarrow> Index r n' = Some k \<Longrightarrow> n = n'"
  by (auto simp: registry_ok_def Index_def inj_on_def dom_def)

section \<open>Properties of permissions\<close>

text \<open>
  (C29) A bitfield is a set of indices: \<^verbatim>\<open>Set\<close> adds one index, \<^verbatim>\<open>Or\<close> is union and \<^verbatim>\<open>And\<close> intersection,
  whatever the lengths of the two slices, and the empty slice is the empty set.
\<close>
theorem bitfield_refines_sets:
  "{i. Has [] i} = {} \<and>
   {i. Has (Set j b) i} = insert j {i. Has b i} \<and>
   {i. Has (Or c b) i} = {i. Has b i} \<union> {i. Has c i} \<and>
   {i. Has (And c b) i} = {i. Has b i} \<inter> {i. Has c i}"
  using bf.has_empty by auto


definition perm_named :: "string \<Rightarrow> permission" where
  "perm_named n = \<lparr>perm_Name = n, perm_Description = [], perm_Category = [], perm_DefaultRoles = []\<rparr>"


end
