(* ===== verification/Permcache.thy ===== *)
theory Permcache
  imports Permission_Bits
begin

text \<open>
  The in-process map from roles to effective permissions
  (\<^verbatim>\<open>permcache/role_permission_map.go\<close>): resolution of single-parent role inheritance with
  memoisation and cycle detection, the per-tenant build, and the two rebuild operations on the
  published snapshot. What the role store reads from the database is an argument.

  The map \<open>resolving\<close> that the Go code marks and unmarks around a recursive call is a set passed
  down; the memo table \<open>dest\<close> is threaded through.
\<close>

section \<open>Roles\<close>

record role =
  role_ID :: string
  role_Name :: string
  role_ParentID :: "string option"

datatype resolve_error = Cycle string | DanglingParent string

text \<open>\<^verbatim>\<open>byID[r.ID] = r\<close> over the rows in order: the last row of an id wins.\<close>

definition byID :: "role list \<Rightarrow> string \<rightharpoonup> role" where
  "byID roles = map_of (rev (map (\<lambda>r. (role_ID r, r)) roles))"

type_synonym memo = "string \<rightharpoonup> bitfield"
type_synonym grants = "string \<Rightarrow> string list"

definition setGrants :: "permission_registry \<Rightarrow> string list \<Rightarrow> bitfield \<Rightarrow> bitfield" where
  "setGrants reg names bits =
     fold (\<lambda>name b. case Index reg name of None \<Rightarrow> b | Some idx \<Rightarrow> Set idx b) names bits"

lemma byID_ID: "byID roles i = Some r \<Longrightarrow> role_ID r = i \<and> r \<in> set roles"
  by (auto simp: byID_def dest: map_of_SomeD)

function resolveRoleBitfield :: "role list \<Rightarrow> grants \<Rightarrow> permission_registry \<Rightarrow> string \<Rightarrow> memo \<Rightarrow> string set \<Rightarrow>
    (resolve_error, bitfield) result \<times> memo" where
  "resolveRoleBitfield roles rolePerms reg roleID dest resolving =
     (case dest roleID of
        Some bits \<Rightarrow> (Inr bits, dest)
      | None \<Rightarrow>
          if roleID \<in> resolving then (Inl (Cycle roleID), dest)
          else case byID roles roleID of
            None \<Rightarrow> (Inl (DanglingParent roleID), dest)
          | Some r \<Rightarrow>
              (case role_ParentID r of
                 None \<Rightarrow>
                   let bits = setGrants reg (rolePerms roleID) [] in (Inr bits, dest(roleID \<mapsto> bits))
               | Some parent \<Rightarrow>
                   (case resolveRoleBitfield roles rolePerms reg parent dest (insert roleID resolving) of
                      (Inl err, dest1) \<Rightarrow> (Inl err, dest1)
                    | (Inr parentBits, dest1) \<Rightarrow>
                        let bits = setGrants reg (rolePerms roleID) (Or parentBits []) in
                        (Inr bits, dest1(roleID \<mapsto> bits)))))"
  by pat_completeness auto

termination
proof (relation "measure (\<lambda>(roles, _, _, roleID, _, resolving). card (role_ID ` set roles - resolving))")
  fix roles :: "role list" and roleID :: string and resolving :: "string set" and r :: role
  assume "roleID \<notin> resolving" "byID roles roleID = Some r"
  then have "role_ID ` set roles - insert roleID resolving \<subset> role_ID ` set roles - resolving"
    using byID_ID by blast
  then show "((roles, rolePerms, reg, parent, dest, insert roleID resolving), roles, rolePerms, reg, roleID, dest, resolving)
      \<in> measure (\<lambda>(roles, _, _, roleID, _, resolving). card (role_ID ` set roles - resolving))"
    for rolePerms :: grants and reg :: permission_registry and parent :: string and dest :: memo
    by (simp add: psubset_card_mono)
qed simp

declare resolveRoleBitfield.simps [simp del]

section \<open>The published map\<close>

record snapshot =
  bits :: memo
  byTenant :: "string \<rightharpoonup> string list"

definition NewRolePermissionMap :: snapshot where
  "NewRolePermissionMap = \<lparr>bits = Map.empty, byTenant = Map.empty\<rparr>"

definition Lookup :: "snapshot \<Rightarrow> string \<Rightarrow> bitfield option" where
  "Lookup m roleID = bits m roleID"

text \<open>The role store: the rows of a tenant's tables, or the error of the query.\<close>

record role_store =
  AllRoles :: "string \<Rightarrow> (string, role list) result"
  AllRolePermissions :: "string \<Rightarrow> (string, grants) result"

datatype rebuild_error = ListTenants string | ListRoles string | ListRolePermissions string

definition resolveAll :: "role list \<Rightarrow> grants \<Rightarrow> permission_registry \<Rightarrow> memo \<Rightarrow> memo" where
  "resolveAll roles rolePerms reg dest =
     fold (\<lambda>r dest. snd (resolveRoleBitfield roles rolePerms reg (role_ID r) dest {})) roles dest"

definition buildTenantRoles :: "role_store \<Rightarrow> permission_registry \<Rightarrow> string \<Rightarrow> memo \<Rightarrow>
    (rebuild_error, string list) result \<times> memo" where
  "buildTenantRoles store reg slug dest =
     (case AllRoles store slug of
        Inl err \<Rightarrow> (Inl (ListRoles err), dest)
      | Inr [] \<Rightarrow> (Inr [], dest)
      | Inr roles \<Rightarrow>
          (case AllRolePermissions store slug of
             Inl err \<Rightarrow> (Inl (ListRolePermissions err), dest)
           | Inr rolePerms \<Rightarrow> (Inr (map role_ID roles), resolveAll roles rolePerms reg dest)))"

definition resync_tenant :: "role_store \<Rightarrow> permission_registry \<Rightarrow> string \<Rightarrow> snapshot \<Rightarrow> snapshot" where
  "resync_tenant store reg slug built =
     (case buildTenantRoles store reg slug (bits built) of
        (Inl err, dest) \<Rightarrow> built\<lparr>bits := dest\<rparr>
      | (Inr ids, dest) \<Rightarrow> built\<lparr>bits := dest, byTenant := (byTenant built)(slug \<mapsto> ids)\<rparr>)"

definition Resync :: "(string, string list) result \<Rightarrow> role_store \<Rightarrow> permission_registry \<Rightarrow> snapshot \<Rightarrow>
    rebuild_error option \<times> snapshot" where
  "Resync active store reg m =
     (case active of
        Inl err \<Rightarrow> (Some (ListTenants err), m)
      | Inr slugs \<Rightarrow> (None, fold (resync_tenant store reg) slugs NewRolePermissionMap))"

text \<open>\<^verbatim>\<open>maps.Copy(next.bits, fresh)\<close> is \<open>++\<close>.\<close>

definition RebuildTenant :: "role_store \<Rightarrow> permission_registry \<Rightarrow> string \<Rightarrow> snapshot \<Rightarrow>
    rebuild_error option \<times> snapshot" where
  "RebuildTenant store reg slug old =
     (case buildTenantRoles store reg slug Map.empty of
        (Inl err, fresh) \<Rightarrow> (Some err, old)
      | (Inr ids, fresh) \<Rightarrow>
          let gone = (case byTenant old slug of None \<Rightarrow> [] | Some is \<Rightarrow> is) in
          (None, \<lparr>bits = (bits old |` (- set gone)) ++ fresh, byTenant = (byTenant old)(slug \<mapsto> ids)\<rparr>))"

end
