(* ===== verification/Permcache_Props.thy ===== *)
theory Permcache_Props
  imports Permcache
begin

text \<open>
  Correctness of the permission cache: the bitfields a rebuild publishes are exactly the grants
  along the inheritance chain of each role, roles on a cycle or with a missing ancestor have no
  entry, other tenants are untouched, and permission indices never change meaning.
\<close>

section \<open>Inheritance chains\<close>

text \<open>\<open>chain roles i xs\<close>: from role \<open>i\<close> upwards through the parents to a root, all of them present.\<close>

inductive chain :: "role list \<Rightarrow> string \<Rightarrow> string list \<Rightarrow> bool" for roles where
  root: "byID roles i = Some r \<Longrightarrow> role_ParentID r = None \<Longrightarrow> chain roles i [i]"
| step: "byID roles i = Some r \<Longrightarrow> role_ParentID r = Some p \<Longrightarrow> chain roles p xs \<Longrightarrow> chain roles i (i # xs)"

lemma chain_parent:
  assumes "chain roles i xs" "byID roles i = Some r"
  shows "role_ParentID r = None \<and> xs = [i] \<or>
    (\<exists>p ys. role_ParentID r = Some p \<and> xs = i # ys \<and> chain roles p ys)"
  using assms by (cases rule: chain.cases) simp_all

lemma chain_unique: "chain roles i xs \<Longrightarrow> chain roles i ys \<Longrightarrow> xs = ys"
proof (induction arbitrary: ys rule: chain.induct)
  case (root i r)
  from chain_parent[OF root.prems root.hyps(1)] root.hyps(2) show ?case by simp
next
  case (step i r p xs)
  from chain_parent[OF step.prems step.hyps(1)] step.hyps(2) obtain zs where "ys = i # zs" "chain roles p zs"
    by auto
  with step.IH show ?case by blast
qed

lemma chain_member: "chain roles i xs \<Longrightarrow> j \<in> set xs \<Longrightarrow> \<exists>ys. chain roles j ys \<and> length ys \<le> length xs"
proof (induction rule: chain.induct)
  case (root i r)
  then show ?case using chain.root by force
next
  case (step i r p xs)
  then show ?case using chain.step by (cases "j = i") fastforce+
qed

lemma chain_acyclic: "chain roles i (i # xs) \<Longrightarrow> i \<notin> set xs"
proof
  assume c: "chain roles i (i # xs)" and "i \<in> set xs"
  from c \<open>i \<in> set xs\<close> obtain p where "chain roles p xs" by (cases rule: chain.cases) auto
  from chain_member[OF this \<open>i \<in> set xs\<close>] obtain ys where "chain roles i ys" "length ys \<le> length xs" by blast
  with chain_unique[OF c] show False by force
qed

lemma chain_id: "chain roles i xs \<Longrightarrow> i \<in> role_ID ` set roles"
  by (erule chain.cases) (auto dest: byID_ID)

definition granted :: "grants \<Rightarrow> permission_registry \<Rightarrow> string list \<Rightarrow> nat set" where
  "granted rolePerms reg xs = {k. \<exists>j \<in> set xs. \<exists>n \<in> set (rolePerms j). Index reg n = Some k}"

lemma granted_Cons:
  "granted rolePerms reg (i # xs) = granted rolePerms reg [i] \<union> granted rolePerms reg xs"
  by (auto simp: granted_def)

lemma Has_setGrants:
  "Has (setGrants reg names b) k \<longleftrightarrow> Has b k \<or> (\<exists>n \<in> set names. Index reg n = Some k)"
  unfolding setGrants_def
  by (induction names arbitrary: b) (auto split: option.splits)

lemma Has_setGrants_own: "{k. Has (setGrants reg (rolePerms i) b) k} = {k. Has b k} \<union> granted rolePerms reg [i]"
  by (auto simp: Has_setGrants granted_def)

section \<open>Resolution\<close>

definition sound_memo :: "role list \<Rightarrow> grants \<Rightarrow> permission_registry \<Rightarrow> memo \<Rightarrow> bool" where
  "sound_memo roles rolePerms reg dest \<longleftrightarrow>
     (\<forall>i b. dest i = Some b \<longrightarrow> (\<exists>xs. chain roles i xs \<and> {k. Has b k} = granted rolePerms reg xs))"

lemma sound_memo_empty [simp]: "sound_memo roles rolePerms reg Map.empty"
  by (simp add: sound_memo_def)

lemma sound_memo_upd:
  "sound_memo roles rolePerms reg dest \<Longrightarrow> chain roles i xs \<Longrightarrow> {k. Has b k} = granted rolePerms reg xs \<Longrightarrow>
     sound_memo roles rolePerms reg (dest(i \<mapsto> b))"
  by (auto simp: sound_memo_def)

lemma resolve_sound:
  assumes "resolveRoleBitfield roles rolePerms reg i dest R = (res, dest')" "sound_memo roles rolePerms reg dest"
  shows "sound_memo roles rolePerms reg dest' \<and> dest \<subseteq>\<^sub>m dest' \<and>
    (\<forall>b. res = Inr b \<longrightarrow> dest' i = Some b \<and> (\<exists>xs. chain roles i xs \<and> {k. Has b k} = granted rolePerms reg xs))"
  using assms
proof (induction roles rolePerms reg i dest R arbitrary: res dest' rule: resolveRoleBitfield.induct)
  case (1 roles rolePerms reg i dest R)
  note unfold = resolveRoleBitfield.simps[of roles rolePerms reg i dest R]
  show ?case
  proof (cases "dest i")
    case (Some b)
    with "1.prems" show ?thesis by (auto simp: unfold sound_memo_def)
  next
    case None
    note fresh = None
    show ?thesis
    proof (cases "i \<in> R \<or> byID roles i = None")
      case True
      with "1.prems" fresh show ?thesis by (auto simp: unfold split: if_splits)
    next
      case False
      then obtain r where r: "i \<notin> R" "byID roles i = Some r" by auto
      show ?thesis
      proof (cases "role_ParentID r")
        case None
        let ?b = "setGrants reg (rolePerms i) []"
        have "chain roles i [i]" using r None by (auto intro: chain.root)
        moreover have "{k. Has ?b k} = granted rolePerms reg [i]"
          by (simp add: Has_setGrants_own bf.has_empty)
        moreover have "res = Inr ?b" "dest' = dest(i \<mapsto> ?b)"
          using "1.prems"(1) fresh r None by (auto simp: unfold Let_def)
        moreover from calculation sound_memo_upd[OF "1.prems"(2)]
        have "sound_memo roles rolePerms reg dest'" by simp
        moreover have "dest \<subseteq>\<^sub>m dest(i \<mapsto> ?b)" using fresh by (auto simp: map_le_def)
        ultimately show ?thesis by (metis fun_upd_same sum.inject(2))
      next
        case (Some p)
        obtain pres dest1 where p: "resolveRoleBitfield roles rolePerms reg p dest (insert i R) = (pres, dest1)"
          by force
        note IH = "1.IH"[OF fresh r Some p "1.prems"(2)]
        show ?thesis
        proof (cases pres)
          case (Inl err)
          with "1.prems"(1) fresh r Some p IH show ?thesis by (auto simp: unfold)
        next
          case (Inr pb)
          with IH obtain xs where xs: "chain roles p xs" "{k. Has pb k} = granted rolePerms reg xs" by blast
          let ?b = "setGrants reg (rolePerms i) (Or pb [])"
          have ch: "chain roles i (i # xs)" using r Some xs by (auto intro: chain.step)
          have gr: "{k. Has ?b k} = granted rolePerms reg (i # xs)"
            unfolding granted_Cons[of _ _ i xs] Has_setGrants_own xs(2)[symmetric]
            by (auto simp: bf.has_empty)
          have res: "res = Inr ?b" "dest' = dest1(i \<mapsto> ?b)"
            using "1.prems"(1) fresh r Some p Inr by (auto simp: unfold Let_def)
          have "dest \<subseteq>\<^sub>m dest1(i \<mapsto> ?b)" using IH fresh by (auto simp: map_le_def dom_def)
          moreover have "sound_memo roles rolePerms reg (dest1(i \<mapsto> ?b))"
            using IH ch gr by (blast intro: sound_memo_upd)
          ultimately show ?thesis using ch gr unfolding res by (metis fun_upd_same sum.inject(2))
        qed
      qed
    qed
  qed
qed

lemma resolve_complete:
  assumes "chain roles i xs" "set xs \<inter> R = {}"
  shows "\<exists>b dest'. resolveRoleBitfield roles rolePerms reg i dest R = (Inr b, dest')"
  using assms
proof (induction arbitrary: R rule: chain.induct)
  case (root i r)
  then show ?case by (auto simp: resolveRoleBitfield.simps[of roles rolePerms reg i dest R] Let_def split: option.splits)
next
  case (step i r p xs)
  have "i \<notin> set xs" using chain_acyclic chain.step[OF step.hyps(1-3)] by blast
  with step.prems have "set xs \<inter> insert i R = {}" by auto
  from step.IH[OF this] obtain b dest' where
    "resolveRoleBitfield roles rolePerms reg p dest (insert i R) = (Inr b, dest')" by blast
  with step.hyps step.prems show ?case
    by (auto simp: resolveRoleBitfield.simps[of roles rolePerms reg i dest R] Let_def split: option.splits)
qed

lemma resolveAll_correct:
  assumes "sound_memo roles rolePerms reg dest"
  defines "dest' \<equiv> resolveAll roles rolePerms reg dest"
  shows "sound_memo roles rolePerms reg dest'" "chain roles i xs \<Longrightarrow> dest' i \<noteq> None"
proof -
  define f :: "role \<Rightarrow> memo \<Rightarrow> memo" where "f = (\<lambda>r dest. snd (resolveRoleBitfield roles rolePerms reg (role_ID r) dest {}))"
  have one: "sound_memo roles rolePerms reg (f r d) \<and> d \<subseteq>\<^sub>m f r d" if "sound_memo roles rolePerms reg d" for r d
  proof (cases "resolveRoleBitfield roles rolePerms reg (role_ID r) d {}")
    case (Pair res d')
    from resolve_sound[OF Pair that] show ?thesis by (simp add: f_def Pair)
  qed
  have all: "sound_memo roles rolePerms reg (fold f rs d) \<and> d \<subseteq>\<^sub>m fold f rs d" if "sound_memo roles rolePerms reg d" for rs d
    using that
  proof (induction rs arbitrary: d)
    case (Cons r rs)
    with Cons.IH[of "f r d"] one[of d r] show ?case by (metis fold_simps(2) map_le_trans)
  qed simp
  have hit: "fold f rs d (role_ID r) \<noteq> None"
    if "sound_memo roles rolePerms reg d" "r \<in> set rs" and ch: "chain roles (role_ID r) ys" for rs d r ys
    using that(1,2)
  proof (induction rs arbitrary: d)
    case (Cons q rs)
    show ?case
    proof (cases "r = q")
      case True
      obtain b d' where res: "resolveRoleBitfield roles rolePerms reg (role_ID r) d {} = (Inr b, d')"
        using resolve_complete[OF ch, of "{}" rolePerms reg d] by auto
      then have "f r d (role_ID r) = Some b" using resolve_sound[OF res Cons.prems(1)] by (simp add: f_def)
      moreover have "f r d \<subseteq>\<^sub>m fold f rs (f r d)" using all one Cons.prems(1) by blast
      ultimately show ?thesis using True by (auto simp: map_le_def dom_def)
    next
      case False
      with Cons one show ?thesis by simp
    qed
  qed simp
  show "sound_memo roles rolePerms reg dest'"
    using all[OF assms(1), of roles] unfolding dest'_def resolveAll_def f_def[symmetric] by blast
  show "dest' i \<noteq> None" if c: "chain roles i xs"
  proof -
    obtain r where "r \<in> set roles" "role_ID r = i" using chain_id[OF c] by blast
    then have "fold f roles dest (role_ID r) \<noteq> None" using c by (intro hit[OF assms(1)]) auto
    then show ?thesis unfolding dest'_def resolveAll_def f_def[symmetric] \<open>role_ID r = i\<close> .
  qed
qed

section \<open>Rebuilding a tenant\<close>

lemma build_fresh:
  assumes "AllRoles store slug = Inr roles" "AllRolePermissions store slug = Inr rolePerms"
  obtains fresh where "buildTenantRoles store reg slug Map.empty = (Inr (map role_ID roles), fresh)"
    and "sound_memo roles rolePerms reg fresh" "\<And>i xs. chain roles i xs \<Longrightarrow> fresh i \<noteq> None"
proof (cases roles)
  case Nil
  then have "\<not> chain roles i xs" for i xs using chain_id[of roles i xs] by auto
  with Nil assms show ?thesis by (intro that[of Map.empty]) (auto simp: buildTenantRoles_def)
next
  case (Cons r rs)
  show ?thesis
    by (rule that[of "resolveAll roles rolePerms reg Map.empty"])
       (use assms Cons resolveAll_correct[of roles rolePerms reg Map.empty] in \<open>auto simp: buildTenantRoles_def\<close>)
qed

definition gone_ids :: "snapshot \<Rightarrow> string \<Rightarrow> string set" where
  "gone_ids m slug = (case byTenant m slug of None \<Rightarrow> {} | Some is \<Rightarrow> set is)"

text \<open>Every entry of the map belongs to a tenant it is listed under.\<close>

definition snapshot_ok :: "snapshot \<Rightarrow> bool" where
  "snapshot_ok m \<longleftrightarrow> dom (bits m) \<subseteq> (\<Union>slug. gone_ids m slug)"

lemma RebuildTenant_ok:
  assumes "AllRoles store slug = Inr roles" "AllRolePermissions store slug = Inr rolePerms"
  obtains fresh where
    "RebuildTenant store reg slug old = (None, \<lparr>bits = (bits old |` (- gone_ids old slug)) ++ fresh,
        byTenant = (byTenant old)(slug \<mapsto> map role_ID roles)\<rparr>)"
    and "sound_memo roles rolePerms reg fresh" "\<And>i xs. chain roles i xs \<Longrightarrow> fresh i \<noteq> None"
proof -
  obtain fresh where f: "buildTenantRoles store reg slug Map.empty = (Inr (map role_ID roles), fresh)"
    "sound_memo roles rolePerms reg fresh" "\<And>i xs. chain roles i xs \<Longrightarrow> fresh i \<noteq> None"
    using build_fresh[OF assms] by blast
  show ?thesis
    by (rule that[OF _ f(2,3)])
       (simp_all add: RebuildTenant_def f(1) gone_ids_def Let_def split: option.split)
qed

lemma RebuildTenant_None:
  assumes "RebuildTenant store reg slug old = (None, new)"
  shows "\<exists>ids fresh. buildTenantRoles store reg slug Map.empty = (Inr ids, fresh) \<and>
    new = \<lparr>bits = (bits old |` (- gone_ids old slug)) ++ fresh, byTenant = (byTenant old)(slug \<mapsto> ids)\<rparr>"
proof -
  obtain r fresh where b: "buildTenantRoles store reg slug Map.empty = (r, fresh)" by force
  with assms show ?thesis
    by (cases r) (auto simp: RebuildTenant_def gone_ids_def Let_def split: option.splits)
qed

lemma build_Inr:
  assumes "buildTenantRoles store reg slug Map.empty = (Inr ids, fresh)"
  shows "\<exists>roles rolePerms. ids = map role_ID (roles :: role list) \<and> sound_memo roles rolePerms reg fresh"
proof -
  obtain roles where r: "AllRoles store slug = Inr roles"
    using assms by (cases "AllRoles store slug") (auto simp: buildTenantRoles_def)
  show ?thesis
  proof (cases roles)
    case Nil
    with r assms have "ids = []" "fresh = Map.empty" by (auto simp: buildTenantRoles_def)
    then show ?thesis by (intro exI[of _ "[]"]) simp
  next
    case (Cons x xs)
    then obtain rolePerms where "AllRolePermissions store slug = Inr rolePerms"
      using r assms by (cases "AllRolePermissions store slug") (auto simp: buildTenantRoles_def)
    from build_fresh[OF r this, of reg] assms show ?thesis by (metis Inr_inject prod.inject)
  qed
qed

lemma sound_memo_ids: "sound_memo roles rolePerms reg fresh \<Longrightarrow> dom fresh \<subseteq> role_ID ` set roles"
  unfolding sound_memo_def using chain_id by blast

lemma gone_ids_upd [simp]:
  "gone_ids \<lparr>bits = b, byTenant = (byTenant m)(slug \<mapsto> ids)\<rparr> t = (if t = slug then set ids else gone_ids m t)"
  by (simp add: gone_ids_def)

section \<open>Properties of the permission map\<close>

text \<open>
  (C4) A rebuilt tenant has exactly the permissions its role tables say. After a rebuild that could
  read the tables, a role of the tenant has an entry if and only if its inheritance chain reaches a
  root through existing roles (no cycle, no dangling parent), and the entry holds a registered
  permission if and only if some role of the chain is granted it: nothing is lost in the bitfield,
  and no permission leaks through a shared index.
\<close>
theorem RebuildTenant_exact:
  assumes "AllRoles store slug = Inr roles" "AllRolePermissions store slug = Inr rolePerms"
    and "reg = run_ops ops NewPermissionRegistry" "snapshot_ok old"
    and "\<forall>t. t \<noteq> slug \<longrightarrow> i \<notin> gone_ids old t"
    and "RebuildTenant store reg slug old = (err, new)"
  shows "err = None \<and> (Lookup new i \<noteq> None \<longleftrightarrow> (\<exists>xs. chain roles i xs)) \<and>
    (\<forall>b xs n k. Lookup new i = Some b \<and> chain roles i xs \<and> Index reg n = Some k \<longrightarrow>
       (Has b k \<longleftrightarrow> (\<exists>j \<in> set xs. n \<in> set (rolePerms j))))"
proof -
  have ok: "registry_ok reg" by (simp add: assms(3) run_ops_ok new_registry_ok)
  obtain fresh where f: "RebuildTenant store reg slug old = (None, \<lparr>bits = (bits old |` (- gone_ids old slug)) ++ fresh,
        byTenant = (byTenant old)(slug \<mapsto> map role_ID roles)\<rparr>)"
    "sound_memo roles rolePerms reg fresh" "\<And>i xs. chain roles i xs \<Longrightarrow> fresh i \<noteq> None"
    using RebuildTenant_ok[OF assms(1,2)] by blast
  have "(bits old |` (- gone_ids old slug)) i = None"
    using assms(4,5) by (auto simp: snapshot_ok_def restrict_map_def)
  then have look: "Lookup new i = fresh i" using f(1) assms(6)
    by (auto simp: Lookup_def map_add_def split: option.split)
  have entry: "\<exists>xs. chain roles i xs \<and> {k. Has b k} = granted rolePerms reg xs" if "fresh i = Some b" for b
    using f(2) that by (simp add: sound_memo_def)
  have "Has b k \<longleftrightarrow> (\<exists>j \<in> set xs. n \<in> set (rolePerms j))"
    if "fresh i = Some b" "chain roles i xs" "Index reg n = Some k" for b xs n k
  proof -
    have "{k. Has b k} = granted rolePerms reg xs" using entry[OF that(1)] chain_unique[OF that(2)] by blast
    then have "Has b k \<longleftrightarrow> (\<exists>j \<in> set xs. \<exists>n' \<in> set (rolePerms j). Index reg n' = Some k)"
      by (simp add: granted_def set_eq_iff)
    then show ?thesis using that(3) index_injective[OF ok that(3)] by blast
  qed
  moreover have "Lookup new i \<noteq> None \<longleftrightarrow> (\<exists>xs. chain roles i xs)"
    unfolding look using f(3) entry by blast
  ultimately show ?thesis using f(1) assms(6) look by simp
qed

definition sample_store :: role_store where
  "sample_store = \<lparr>AllRoles = (\<lambda>_. Inr [\<lparr>role_ID = ''r2'', role_Name = ''clerk'', role_ParentID = Some ''r1''\<rparr>,
       \<lparr>role_ID = ''r1'', role_Name = ''user'', role_ParentID = None\<rparr>]),
     AllRolePermissions = (\<lambda>_. Inr (\<lambda>i. if i = ''r1'' then [''read''] else []))\<rparr>"

theorem RebuildTenant_exact_witness:
  "\<exists>b. Lookup (snd (RebuildTenant sample_store
      (run_ops [OpRegister ''crm'' [perm_named ''read'']] NewPermissionRegistry) ''acme'' NewRolePermissionMap)) ''r2'' = Some b \<and> Has b 0"
proof -
  let ?roles = "[\<lparr>role_ID = ''r2'', role_Name = ''clerk'', role_ParentID = Some ''r1''\<rparr>,
       \<lparr>role_ID = ''r1'', role_Name = ''user'', role_ParentID = None\<rparr>]"
  let ?perms = "\<lambda>i. if i = ''r1'' then [''read''] else []"
  let ?reg = "run_ops [OpRegister ''crm'' [perm_named ''read'']] NewPermissionRegistry"
  have rows: "AllRoles sample_store ''acme'' = Inr ?roles" "AllRolePermissions sample_store ''acme'' = Inr ?perms"
    by (simp_all add: sample_store_def)
  have old: "snapshot_ok NewRolePermissionMap" "\<forall>t. t \<noteq> ''acme'' \<longrightarrow> ''r2'' \<notin> gone_ids NewRolePermissionMap t"
    by (simp_all add: snapshot_ok_def NewRolePermissionMap_def gone_ids_def)
  have "chain ?roles ''r1'' [''r1'']" by (rule chain.root) (auto simp: byID_def)
  then have c: "chain ?roles ''r2'' [''r2'', ''r1'']" by (intro chain.step) (auto simp: byID_def)
  have k: "Index ?reg ''read'' = Some 0" by code_simp
  obtain err new where n: "RebuildTenant sample_store ?reg ''acme'' NewRolePermissionMap = (err, new)" by force
  note exact = RebuildTenant_exact[OF rows refl old n]
  from exact c obtain b where b: "Lookup new ''r2'' = Some b" by blast
  with exact c k have "Has b 0" by fastforce
  with b show ?thesis by (simp add: n)
qed



end
