(* ===== verification/Go_Strings.thy ===== *)
theory Go_Strings
  imports Go_Prelude
begin

text \<open>
  More of Go's package \<^verbatim>\<open>strings\<close>: prefixes and suffixes, the last separator, and the small facts
  about them the component theories use.
\<close>

definition has_prefix :: "string \<Rightarrow> string \<Rightarrow> bool" where
  "has_prefix s p = prefix p s"

definition has_suffix :: "string \<Rightarrow> string \<Rightarrow> bool" where
  "has_suffix s p = suffix p s"

text \<open>\<^verbatim>\<open>strings.CutSuffix\<close>: the stem, when the suffix is there.\<close>

definition cut_suffix :: "string \<Rightarrow> string \<Rightarrow> string option" where
  "cut_suffix s p = (if has_suffix s p then Some (take (length s - length p) s) else None)"

definition trim_suffix :: "string \<Rightarrow> string \<Rightarrow> string" where
  "trim_suffix s p = (case cut_suffix s p of Some stem \<Rightarrow> stem | None \<Rightarrow> s)"

text \<open>\<^verbatim>\<open>strings.CutPrefix\<close>\<close>

definition cut_prefix :: "string \<Rightarrow> string \<Rightarrow> string option" where
  "cut_prefix s p = (if has_prefix s p then Some (drop (length p) s) else None)"

text \<open>\<^verbatim>\<open>strings.CutLast(s, sep)\<close> for a one-byte separator: the parts around the last one.\<close>

definition cut_last :: "char \<Rightarrow> string \<Rightarrow> string \<times> string \<times> bool" where
  "cut_last sep s =
     (if sep \<in> set s
      then (rev (tl (dropWhile (\<lambda>c. c \<noteq> sep) (rev s))), rev (takeWhile (\<lambda>c. c \<noteq> sep) (rev s)), True)
      else (s, [], False))"

text \<open>
  \<^verbatim>\<open>strings.NewReplacer\<close>: at each position the first pair whose old string is a prefix is
  replaced, and the scan goes on after it.
\<close>

fun first_old :: "(string \<times> string) list \<Rightarrow> string \<Rightarrow> (string \<times> string) option" where
  "first_old [] s = None"
| "first_old ((old, new) # ps) s = (if has_prefix s old then Some (old, new) else first_old ps s)"

fun replacer :: "(string \<times> string) list \<Rightarrow> nat \<Rightarrow> string \<Rightarrow> string" where
  "replacer ps skip [] = []"
| "replacer ps (Suc skip) (c # cs) = replacer ps skip cs"
| "replacer ps 0 (c # cs) =
     (case first_old ps (c # cs) of
        None \<Rightarrow> c # replacer ps 0 cs
      | Some (old, new) \<Rightarrow> new @ replacer ps (length old - 1) cs)"

text \<open>\<^verbatim>\<open>strings.ReplaceAll\<close> for a non-empty old string.\<close>

definition replace_all :: "string \<Rightarrow> string \<Rightarrow> string \<Rightarrow> string" where
  "replace_all old new s = replacer [(old, new)] 0 s"

lemma has_prefix_append [simp]: "has_prefix (p @ s) p"
  by (simp add: has_prefix_def)

lemma cut_prefix_append [simp]: "cut_prefix (p @ s) p = Some s"
  by (simp add: cut_prefix_def)

lemma cut_suffix_append [simp]: "cut_suffix (s @ p) p = Some s"
  by (simp add: cut_suffix_def has_suffix_def suffix_def)

lemma cut_suffix_Some: "cut_suffix s p = Some t \<longleftrightarrow> s = t @ p"
  by (auto simp: cut_suffix_def has_suffix_def suffix_def split: if_splits)

lemma cut_prefix_Some: "cut_prefix s p = Some t \<longleftrightarrow> s = p @ t"
  by (auto simp: cut_prefix_def has_prefix_def prefix_def split: if_splits)

text \<open>\<^verbatim>\<open>strings.Split\<close> gives parts without the separator; joining them gives the string back.\<close>

lemma split_on_parts: "w \<in> set (split_on sep s) \<Longrightarrow> sep \<notin> set w"
  by (induction s arbitrary: w) (auto split: if_splits list.splits)

lemma split_on_append_sep: "sep \<notin> set a \<Longrightarrow> split_on sep (a @ sep # b) = a # split_on sep b"
  by (induction a) auto

lemma split_on_single: "sep \<notin> set a \<Longrightarrow> split_on sep a = [a]"
  by (induction a) auto

lemma map_sum_Inr_iff [res_simps]: "map_sum id f r = Inr y \<longleftrightarrow> (\<exists>x. r = Inr x \<and> y = f x)"
  by (cases r) auto

section \<open>Loops that keep their state when they stop\<close>

text \<open>
  A Go loop over a slice whose body updates variables and may return an error: the updates made
  before the error stay. The body returns the new state and the error, if any.
\<close>

fun each :: "('a \<Rightarrow> 's \<Rightarrow> 's \<times> 'e option) \<Rightarrow> 'a list \<Rightarrow> 's \<Rightarrow> 's \<times> 'e option" where
  "each body [] s = (s, None)"
| "each body (x # xs) s =
     (case body x s of (s', Some e) \<Rightarrow> (s', Some e) | (s', None) \<Rightarrow> each body xs s')"

lemma each_invariant:
  assumes "\<And>x s s' r. \<lbrakk>x \<in> set xs; I s; body x s = (s', r)\<rbrakk> \<Longrightarrow> I s'"
    and "I s" and "each body xs s = (s', r)"
  shows "I s'"
  using assms
proof (induction xs arbitrary: s)
  case (Cons x xs)
  obtain s1 r1 where b: "body x s = (s1, r1)" by (cases "body x s")
  with Cons.prems have I1: "I s1" by (meson list.set_intros(1))
  show ?case
  proof (cases r1)
    case None
    then have "each body xs s1 = (s', r)" using Cons.prems(3) b by simp
    from Cons.IH[OF _ I1 this] Cons.prems(1) show ?thesis
      by (meson list.set_intros(2))
  next
    case (Some e)
    with Cons.prems(3) b I1 show ?thesis by simp
  qed
qed simp

lemma each_done:
  assumes "\<And>x s s'. \<lbrakk>x \<in> set xs; body x s = (s', None)\<rbrakk> \<Longrightarrow> Q x s'"
    and "\<And>x y s s' r. \<lbrakk>Q y s; body x s = (s', r)\<rbrakk> \<Longrightarrow> Q y s'"
    and "each body xs s = (s', None)"
  shows "\<forall>x \<in> set xs. Q x s'"
  using assms(1, 3)
proof (induction xs arbitrary: s)
  case (Cons x xs)
  obtain s1 where b: "body x s = (s1, None)" "each body xs s1 = (s', None)"
    using Cons.prems(2) by (auto split: prod.splits option.splits)
  from b(1) have "Q x s1" by (rule Cons.prems(1)[rotated]) simp
  moreover have "Q x s'" if "Q x s1"
  proof (rule each_invariant[where I = "Q x" and xs = xs and body = body])
    show "Q x s1" by (rule that)
    show "each body xs s1 = (s', None)" by (rule b(2))
  qed (rule assms(2))
  moreover have "\<forall>y \<in> set xs. Q y s'"
    using Cons.IH[OF _ b(2)] Cons.prems(1) by (meson list.set_intros(2))
  ultimately show ?case by simp
qed simp

lemma each_append:
  "each body (xs @ ys) s =
     (case each body xs s of (s', Some e) \<Rightarrow> (s', Some e) | (s', None) \<Rightarrow> each body ys s')"
  by (induction xs arbitrary: s) (auto split: prod.splits option.splits)

end
