(* ===== verification/Sdk_Model.thy ===== *)
theory Sdk_Model
  imports Go_Strings
begin

text \<open>
  The declarations a module hands to the engine: the structs of \<^verbatim>\<open>sdk/go/model\<close> (models, fields,
  operations, lifecycle events, workflow transitions, indexes, extensions) and the route
  declaration of \<^verbatim>\<open>contract/abi/v1\<close>. Go pointers that may be nil are options.
\<close>

datatype field_kind =
    KindChar | KindText | KindInteger | KindBigInt | KindFloat | KindDecimal | KindBoolean
  | KindUUID | KindTimestampTZ | KindDate | KindTime | KindJSONB | KindBytea | KindSelection
  | KindEnum | KindMany2One | KindSequence | KindDynamicLink | KindOne2Many | KindMany2Many
  | KindFile | KindFileMulti | KindDelegate

fun kind_name :: "field_kind \<Rightarrow> string" where
  "kind_name KindChar = ''char''"
| "kind_name KindText = ''text''"
| "kind_name KindInteger = ''integer''"
| "kind_name KindBigInt = ''bigint''"
| "kind_name KindFloat = ''float''"
| "kind_name KindDecimal = ''decimal''"
| "kind_name KindBoolean = ''boolean''"
| "kind_name KindUUID = ''uuid''"
| "kind_name KindTimestampTZ = ''timestamptz''"
| "kind_name KindDate = ''date''"
| "kind_name KindTime = ''time''"
| "kind_name KindJSONB = ''jsonb''"
| "kind_name KindBytea = ''bytea''"
| "kind_name KindSelection = ''selection''"
| "kind_name KindEnum = ''enum''"
| "kind_name KindMany2One = ''many2one''"
| "kind_name KindSequence = ''sequence''"
| "kind_name KindDynamicLink = ''dynamic_link''"
| "kind_name KindOne2Many = ''one2many''"
| "kind_name KindMany2Many = ''many2many''"
| "kind_name KindFile = ''file''"
| "kind_name KindFileMulti = ''file_multi''"
| "kind_name KindDelegate = ''delegate''"

datatype on_delete = Restrict | SetNull | Cascade

datatype denied_read = Omit | Nullify | Mask string

datatype denied_write = Reject | Ignore

record lifecycle_field =
  lf_Name :: string
  lf_Record :: string

record lifecycle_event =
  le_Name :: string
  le_Version :: int
  le_Description :: string
  le_Fields :: "lifecycle_field list"
  le_ChangedFields :: bool

record workflow_transition =
  wt_From :: string
  wt_To :: string
  wt_ActionName :: string
  wt_Permission :: string
  wt_ConditionExpr :: string
  wt_Event :: "lifecycle_event option"

record field_def =
  fd_Kind :: field_kind
  fd_Length :: int
  fd_Precision :: int
  fd_Scale :: int
  fd_SelectionValues :: "string list"
  fd_EnumType :: string
  fd_IsRequired :: bool
  fd_IsReadonly :: bool
  fd_IsPrimaryKey :: bool
  fd_IsPrimary :: bool
  fd_DefaultExpr :: "string option"
  fd_RelatedModel :: string
  fd_RelationDomain :: string
  fd_RelationLabel :: string
  fd_RelationOnDelete :: on_delete
  fd_JoinTable :: string
  fd_Column1 :: string
  fd_Column2 :: string
  fd_RetainArchived :: bool
  fd_IsTree :: bool
  fd_SequenceFormat :: string
  fd_ReferenceTypeField :: string
  fd_InverseField :: string
  fd_IsComputed :: bool
  fd_ComputeFn :: string
  fd_IsStored :: bool
  fd_DependsOn :: "string list"
  fd_WorkflowTransitions :: "workflow_transition list"
  fd_IsTracked :: bool
  fd_ReadPermission :: string
  fd_WritePermission :: string
  fd_DeniedRead :: "denied_read option"
  fd_DeniedWrite :: "denied_write option"

record named_field =
  nf_Name :: string
  nf_Def :: field_def
  nf_DeclaringModule :: string

datatype index_kind = KindBTree | KindGIN | KindPartial | KindBRIN | KindGiST

record index_def =
  ix_Kind :: index_kind
  ix_Columns :: "string list"
  ix_IsUnique :: bool
  ix_WhereExpr :: string
  ix_Ops :: string
  ix_Pages :: int

record named_index =
  ni_Name :: string
  ni_Def :: index_def

record op =
  op_Name :: string
  op_Permission :: string
  op_Condition :: string

text \<open>\<^verbatim>\<open>ModelBackend\<close>: the empty string is the Postgres table.\<close>

definition BackendVirtual :: string where
  "BackendVirtual = ''virtual''"

definition BackendTransient :: string where
  "BackendTransient = ''transient''"

record nav_declaration =
  nd_Group :: string
  nd_Label :: string
  nd_Order :: int

record model_declaration =
  md_Name :: string
  md_Table :: string
  md_Label :: string
  md_LabelPlural :: string
  md_Fields :: "named_field list"
  md_Indexes :: "named_index list"
  md_EnabledOps :: "op list"
  md_EnabledViews :: "string list"
  md_NavDecl :: "nav_declaration option"
  md_Backend :: string
  md_TransientTTLSeconds :: int
  md_RoutePrefixOverride :: string
  md_Shareable :: bool
  md_SharePerms :: "string list"
  md_OnCreateEvent :: "lifecycle_event option"
  md_OnUpdateEvent :: "lifecycle_event option"
  md_OnDeleteEvent :: "lifecycle_event option"

record model_extension =
  me_Model :: string
  me_Fields :: "named_field list"
  me_Indexes :: "named_index list"

record type_declaration =
  td_Name :: string
  td_Values :: "string list"

definition QualifiedName :: "model_declaration \<Rightarrow> string \<Rightarrow> string" where
  "QualifiedName d module =
     (if has_prefix (md_Name d) (module @ ''.'') then md_Name d else module @ ''.'' @ md_Name d)"

definition ResourceName :: "model_declaration \<Rightarrow> string" where
  "ResourceName d =
     (case cut_last (CHR ''.'') (md_Name d) of (_, name, ok) \<Rightarrow> if ok then name else md_Name d)"

text \<open>A field definition with Go's zero values, and a model with nothing but its name.\<close>

definition zero_field :: field_def where
  "zero_field = \<lparr>fd_Kind = KindChar, fd_Length = 0, fd_Precision = 0, fd_Scale = 0,
     fd_SelectionValues = [], fd_EnumType = [], fd_IsRequired = False, fd_IsReadonly = False,
     fd_IsPrimaryKey = False, fd_IsPrimary = False, fd_DefaultExpr = None, fd_RelatedModel = [],
     fd_RelationDomain = [], fd_RelationLabel = [], fd_RelationOnDelete = Restrict,
     fd_JoinTable = [], fd_Column1 = [], fd_Column2 = [], fd_RetainArchived = False,
     fd_IsTree = False, fd_SequenceFormat = [], fd_ReferenceTypeField = [], fd_InverseField = [],
     fd_IsComputed = False, fd_ComputeFn = [], fd_IsStored = False, fd_DependsOn = [],
     fd_WorkflowTransitions = [], fd_IsTracked = False, fd_ReadPermission = [],
     fd_WritePermission = [], fd_DeniedRead = None, fd_DeniedWrite = None\<rparr>"

definition Define :: "string \<Rightarrow> model_declaration" where
  "Define name = \<lparr>md_Name = name, md_Table = [], md_Label = [], md_LabelPlural = [], md_Fields = [],
     md_Indexes = [], md_EnabledOps = [], md_EnabledViews = [], md_NavDecl = None, md_Backend = [],
     md_TransientTTLSeconds = 0, md_RoutePrefixOverride = [], md_Shareable = False,
     md_SharePerms = [], md_OnCreateEvent = None, md_OnUpdateEvent = None,
     md_OnDeleteEvent = None\<rparr>"

text \<open>The field constructors and the builder methods, each returning the updated value.\<close>

definition of_kind :: "field_kind \<Rightarrow> field_def" where
  "of_kind k = zero_field\<lparr>fd_Kind := k\<rparr>"

definition Char_field :: "int list \<Rightarrow> field_def" where
  "Char_field n = (of_kind KindChar)\<lparr>fd_Length := (case n of [] \<Rightarrow> 0 | l # _ \<Rightarrow> l)\<rparr>"

definition Decimal_field :: "int \<Rightarrow> int \<Rightarrow> field_def" where
  "Decimal_field p s = (of_kind KindDecimal)\<lparr>fd_Precision := p, fd_Scale := s\<rparr>"

definition Selection_field :: "string list \<Rightarrow> field_def" where
  "Selection_field vs = (of_kind KindSelection)\<lparr>fd_SelectionValues := vs\<rparr>"

definition Enum_field :: "string \<Rightarrow> field_def" where
  "Enum_field t = (of_kind KindEnum)\<lparr>fd_EnumType := t\<rparr>"

definition Many2One_field :: "string \<Rightarrow> field_def" where
  "Many2One_field m = (of_kind KindMany2One)\<lparr>fd_RelatedModel := m, fd_RelationOnDelete := Restrict\<rparr>"

definition Delegate_field :: "string \<Rightarrow> field_def" where
  "Delegate_field m = (of_kind KindDelegate)\<lparr>fd_RelatedModel := m, fd_RelationOnDelete := Restrict\<rparr>"

definition Sequence_field :: "string \<Rightarrow> field_def" where
  "Sequence_field f = (of_kind KindSequence)\<lparr>fd_SequenceFormat := f\<rparr>"

definition DynamicLink_field :: "string \<Rightarrow> field_def" where
  "DynamicLink_field f = (of_kind KindDynamicLink)\<lparr>fd_ReferenceTypeField := f\<rparr>"

definition One2Many_field :: "string \<Rightarrow> string \<Rightarrow> field_def" where
  "One2Many_field m f = (of_kind KindOne2Many)\<lparr>fd_RelatedModel := m, fd_InverseField := f\<rparr>"

definition FileMulti_field :: "string \<Rightarrow> field_def" where
  "FileMulti_field jt = (of_kind KindFileMulti)\<lparr>fd_JoinTable := jt\<rparr>"

definition Required :: "field_def \<Rightarrow> field_def" where
  "Required f = f\<lparr>fd_IsRequired := True\<rparr>"

definition Readonly :: "field_def \<Rightarrow> field_def" where
  "Readonly f = f\<lparr>fd_IsReadonly := True\<rparr>"

definition PrimaryKey :: "field_def \<Rightarrow> field_def" where
  "PrimaryKey f = f\<lparr>fd_IsPrimaryKey := True\<rparr>"

definition Default :: "string \<Rightarrow> field_def \<Rightarrow> field_def" where
  "Default e f = f\<lparr>fd_DefaultExpr := Some e\<rparr>"

text \<open>Access options; the constructors panic on the zero permission, here \<^const>\<open>None\<close>.\<close>

definition AccessRead :: "string \<Rightarrow> (field_def \<Rightarrow> field_def) option" where
  "AccessRead perm = (if perm = [] then None else Some (\<lambda>f. f\<lparr>fd_ReadPermission := perm\<rparr>))"

definition AccessWrite :: "string \<Rightarrow> (field_def \<Rightarrow> field_def) option" where
  "AccessWrite perm = (if perm = [] then None else Some (\<lambda>f. f\<lparr>fd_WritePermission := perm\<rparr>))"

definition Access :: "(field_def \<Rightarrow> field_def) list \<Rightarrow> field_def \<Rightarrow> field_def" where
  "Access opts f = fold (\<lambda>opt. opt) opts f"

definition OnDeniedRead :: "denied_read \<Rightarrow> field_def \<Rightarrow> field_def" where
  "OnDeniedRead b f = f\<lparr>fd_DeniedRead := Some b\<rparr>"

definition OnDeniedWrite :: "denied_write \<Rightarrow> field_def \<Rightarrow> field_def" where
  "OnDeniedWrite b f = f\<lparr>fd_DeniedWrite := Some b\<rparr>"

definition Field :: "string \<Rightarrow> field_def \<Rightarrow> model_declaration \<Rightarrow> model_declaration" where
  "Field name def d =
     d\<lparr>md_Fields := md_Fields d @ [\<lparr>nf_Name = name, nf_Def = def, nf_DeclaringModule = []\<rparr>]\<rparr>"

definition EnableOps :: "op list \<Rightarrow> model_declaration \<Rightarrow> model_declaration" where
  "EnableOps ops d = d\<lparr>md_EnabledOps := md_EnabledOps d @ ops\<rparr>"

definition EnableViews :: "string list \<Rightarrow> model_declaration \<Rightarrow> model_declaration" where
  "EnableViews vs d = d\<lparr>md_EnabledViews := md_EnabledViews d @ vs\<rparr>"

definition Nav :: "string \<Rightarrow> string \<Rightarrow> int \<Rightarrow> model_declaration \<Rightarrow> model_declaration" where
  "Nav grp label ord d =
     d\<lparr>md_NavDecl := Some \<lparr>nd_Group = grp, nd_Label = label, nd_Order = ord\<rparr>\<rparr>"

definition WithStandardFields :: "model_declaration \<Rightarrow> model_declaration" where
  "WithStandardFields d =
     (Field ''etag'' (Readonly (Default [CHR 0x27, CHR 0x27] (Required (of_kind KindText)))) \<circ>
      Field ''created_by'' (Readonly (of_kind KindUUID)) \<circ>
      Field ''deleted_at'' (Readonly (of_kind KindTimestampTZ)) \<circ>
      Field ''updated_at'' (Readonly (Default ''NOW()'' (Required (of_kind KindTimestampTZ)))) \<circ>
      Field ''created_at'' (Readonly (Default ''NOW()'' (Required (of_kind KindTimestampTZ)))) \<circ>
      Field ''tenant_id'' (Readonly (Required (of_kind KindUUID))) \<circ>
      Field ''id'' (Readonly (Default ''uuidv7()'' (PrimaryKey (of_kind KindUUID))))) d"

definition plain_op :: "string \<Rightarrow> op" where
  "plain_op name = \<lparr>op_Name = name, op_Permission = [], op_Condition = []\<rparr>"

lemma QualifiedName_prefix: "\<exists>rest. QualifiedName d m = m @ ''.'' @ rest"
  by (auto simp: QualifiedName_def has_prefix_def prefix_def)

end
