(* ===== verification/Route_Manifest.thy ===== *)
theory Route_Manifest
  imports Sdk_Model Domain_Ast
begin

text \<open>
  The data of the route package: the manifest a route entry carries
  (\<^verbatim>\<open>internal/engine/route/manifest.go\<close>), the entry itself (\<^verbatim>\<open>route.go\<close>), and the declarations a module
  exports (\<^verbatim>\<open>contract/abi/v1/route.go\<close>). Durations are nanoseconds, as in Go's package \<^verbatim>\<open>time\<close>.
\<close>

datatype type_kind =
    TypeKindString | TypeKindNumber | TypeKindBoolean | TypeKindUnknown | TypeKindArray
  | TypeKindRecord | TypeKindObject

text \<open>\<^verbatim>\<open>TypeDesc\<close> and its \<^verbatim>\<open>FieldDesc\<close>s (name, type, optional).\<close>

datatype type_desc =
  TypeDesc (ty_Kind: type_kind) (ty_Name: string) (ty_Elem: "type_desc option")
    (ty_Fields: "(string \<times> type_desc \<times> bool) list") (ty_Nullable: bool)

record rate_limit =
  rl_Requests :: int
  rl_WindowSeconds :: int
  rl_Scope :: string

record transition_ref =
  tr_From :: string
  tr_To :: string

record embedded_decl =
  em_Field :: string
  em_Resource :: string
  em_IsList :: bool

record route_declaration =
  rd_Method :: string
  rd_Path :: string
  rd_Auth :: string
  rd_Permissions :: "string list"
  rd_RateLimit :: "rate_limit option"
  rd_MaxBodyBytes :: int
  rd_TimeoutMs :: int
  rd_PollIntervalMs :: int
  rd_Streaming :: bool
  rd_Websocket :: bool
  rd_RawBody :: bool
  rd_Model :: string
  rd_Name :: string
  rd_Scope :: string
  rd_Transition :: "transition_ref option"
  rd_CRUDAction :: string
  rd_ResponseIsList :: bool
  rd_Embedded :: "embedded_decl list"
  rd_PathParams :: "(string \<rightharpoonup> string) option"
  rd_RequestType :: "type_desc option"
  rd_ResponseType :: "type_desc option"

record workflow_manifest =
  wm_Field :: string
  wm_From :: string
  wm_To :: string
  wm_Condition :: string
  wm_ConditionExpr :: "expr option"
  wm_Event :: "lifecycle_event option"

record route_manifest =
  rm_Auth :: string
  rm_Permissions :: "string list"
  rm_RateLimit :: "rate_limit option"
  rm_Model :: string
  rm_ResponseIsList :: bool
  rm_Name :: string
  rm_MaxBodyBytes :: int
  rm_RawBody :: bool
  rm_Timeout :: int
  rm_PollInterval :: int
  rm_Streaming :: bool
  rm_Websocket :: bool
  rm_PathParams :: "(string \<rightharpoonup> string) option"
  rm_CrudAction :: string
  rm_EngineNative :: bool
  rm_EngineBuiltin :: bool
  rm_OwnRateLimit :: bool
  rm_StorageBackend :: string
  rm_RequestType :: "type_desc option"
  rm_ResponseType :: "type_desc option"
  rm_Workflow :: "workflow_manifest option"

record route_entry =
  re_ModuleName :: string
  re_Manifest :: route_manifest
  re_PathTemplate :: string

text \<open>The manifest with Go's zero values.\<close>

definition zero_manifest :: route_manifest where
  "zero_manifest = \<lparr>rm_Auth = [], rm_Permissions = [], rm_RateLimit = None, rm_Model = [],
     rm_ResponseIsList = False, rm_Name = [], rm_MaxBodyBytes = 0, rm_RawBody = False,
     rm_Timeout = 0, rm_PollInterval = 0, rm_Streaming = False, rm_Websocket = False,
     rm_PathParams = None, rm_CrudAction = [], rm_EngineNative = False, rm_EngineBuiltin = False,
     rm_OwnRateLimit = False, rm_StorageBackend = [], rm_RequestType = None,
     rm_ResponseType = None, rm_Workflow = None\<rparr>"

end
