(* ===== verification/Route_Table.thy ===== *)
theory Route_Table
  imports Route_Manifest "HOL-Library.AList" "HOL-Library.Product_Lexorder"
begin

text \<open>
  The route table of \<^verbatim>\<open>internal/engine/route/route.go\<close>: a trie of path segments with a map of
  static children, at most one parameter child, and a map from HTTP methods to entries. The Go
  maps are association lists with distinct keys. The trie refines a finite map from a path
  pattern and a method to an entry, and its \<^verbatim>\<open>Lookup\<close> is described in terms of that map alone.

  Paths are byte strings; on invalid UTF-8 the Go loop would also replace the offending bytes.
\<close>

section \<open>Paths\<close>

text \<open>\<^verbatim>\<open>normalizePath\<close>: runs of slashes collapse, leading and trailing slashes go.\<close>

fun collapse :: "bool \<Rightarrow> string \<Rightarrow> string" where
  "collapse previousSlash [] = []"
| "collapse previousSlash (c # cs) =
     (if c = CHR ''/''
      then (if previousSlash then collapse True cs else c # collapse True cs)
      else c # collapse False cs)"

definition normalizePath :: "string \<Rightarrow> string" where
  "normalizePath path = trim ''/'' (collapse False path)"

definition segments :: "string \<Rightarrow> string list" where
  "segments path =
     (let normalized = normalizePath path
      in if normalized = [] then [] else split_on (CHR ''/'') normalized)"

text \<open>\<^verbatim>\<open>url.PathUnescape\<close>: each percent sign must be followed by two hexadecimal digits.\<close>

definition unhex :: "char \<Rightarrow> nat option" where
  "unhex c =
     (if isDigit c then Some (of_char c - 48)
      else if CHR ''a'' \<le> c \<and> c \<le> CHR ''f'' then Some (of_char c - 87)
      else if CHR ''A'' \<le> c \<and> c \<le> CHR ''F'' then Some (of_char c - 55)
      else None)"

fun PathUnescape :: "string \<Rightarrow> string option" where
  "PathUnescape [] = Some []"
| "PathUnescape (c # cs) =
     (if c = CHR ''%''
      then (case cs of
              a # b # rest \<Rightarrow>
                (case (unhex a, unhex b) of
                   (Some x, Some y) \<Rightarrow> map_option ((#) (char_of (16 * x + y))) (PathUnescape rest)
                 | _ \<Rightarrow> None)
            | _ \<Rightarrow> None)
      else map_option ((#) c) (PathUnescape cs))"

definition is_param :: "string \<Rightarrow> bool" where
  "is_param seg \<longleftrightarrow> seg \<noteq> [] \<and> hd seg = CHR ''{'' \<and> last seg = CHR ''}''"

definition param_name :: "string \<Rightarrow> string" where
  "param_name seg = butlast (tl seg)"

section \<open>The trie\<close>

datatype node =
  Node (staticChildren: "(string \<times> node) list") (paramChild: "(string \<times> node) option")
    (handlers: "(string \<times> route_entry) list")

definition empty_node :: node where
  "empty_node = Node [] None []"

definition New :: node where
  "New = empty_node"

fun register_at :: "string list \<Rightarrow> string \<Rightarrow> route_entry \<Rightarrow> node \<Rightarrow> node" where
  "register_at [] method entry (Node ss p hs) = Node ss p (AList.update method entry hs)"
| "register_at (seg # segs) method entry (Node ss p hs) =
     (if is_param seg
      then Node ss
        (Some (case p of
                 None \<Rightarrow> (param_name seg, register_at segs method entry empty_node)
               | Some (name, child) \<Rightarrow> (name, register_at segs method entry child))) hs
      else Node
        (AList.update seg
          (register_at segs method entry
            (case map_of ss seg of None \<Rightarrow> empty_node | Some child \<Rightarrow> child)) ss) p hs)"

definition RegisterRoute :: "string \<Rightarrow> string \<Rightarrow> route_entry \<Rightarrow> node \<Rightarrow> node" where
  "RegisterRoute method path entry table = register_at (segments path) method entry table"

fun find_node :: "string list \<Rightarrow> node \<Rightarrow> node option" where
  "find_node [] current = Some current"
| "find_node (seg # segs) current =
     (if seg = [] then find_node segs current
      else if is_param seg
      then (case paramChild current of None \<Rightarrow> None | Some (_, child) \<Rightarrow> find_node segs child)
      else (case map_of (staticChildren current) seg of
              None \<Rightarrow> None
            | Some child \<Rightarrow> find_node segs child))"

definition Registered :: "string \<Rightarrow> string \<Rightarrow> node \<Rightarrow> bool" where
  "Registered method path table =
     (case find_node (segments path) table of
        None \<Rightarrow> False
      | Some n \<Rightarrow> map_of (handlers n) method \<noteq> None)"

type_synonym params = "string \<rightharpoonup> string"

datatype lookup_result =
    RouteFound route_entry params
  | RouteNotFound
  | RouteMethodNotAllowed "string list"
  | RouteBadPath

fun decode_segments :: "string list \<Rightarrow> string list option" where
  "decode_segments [] = Some []"
| "decode_segments (seg # segs) =
     (if seg = ''.'' \<or> seg = ''..'' then None
      else (case PathUnescape seg of
              None \<Rightarrow> None
            | Some decoded \<Rightarrow> map_option ((#) decoded) (decode_segments segs)))"

fun walk :: "string list \<Rightarrow> node \<Rightarrow> params \<Rightarrow> (node \<times> params) option" where
  "walk [] current pathParams = Some (current, pathParams)"
| "walk (seg # segs) current pathParams =
     (case map_of (staticChildren current) seg of
        Some child \<Rightarrow> walk segs child pathParams
      | None \<Rightarrow>
          (case paramChild current of
             Some (name, child) \<Rightarrow> walk segs child (pathParams(name \<mapsto> seg))
           | None \<Rightarrow> None))"

definition LookupRoute :: "string \<Rightarrow> string \<Rightarrow> node \<Rightarrow> lookup_result" where
  "LookupRoute method path table =
     (case decode_segments (segments path) of
        None \<Rightarrow> RouteBadPath
      | Some segs \<Rightarrow>
          (case walk segs table Map.empty of
             None \<Rightarrow> RouteNotFound
           | Some (current, pathParams) \<Rightarrow>
               (case map_of (handlers current) method of
                  Some handler \<Rightarrow> RouteFound handler pathParams
                | None \<Rightarrow>
                    if handlers current \<noteq> []
                    then RouteMethodNotAllowed (sort (map fst (handlers current)))
                    else RouteNotFound)))"

lemma child_size:
  "(seg, child) \<in> set ss \<Longrightarrow> size child < Suc (size_list (size_prod (\<lambda>_. 0) size) ss)"
  by (induction ss) auto

text \<open>
  \<^verbatim>\<open>collectAll\<close> and \<^verbatim>\<open>All\<close>. Entries with the same path template and method keep the order of the
  walk; Go's sort leaves their order open.
\<close>

function collectAll :: "node \<Rightarrow> (string \<times> route_entry) list" where
  "collectAll (Node ss p hs) =
     sort_key fst hs @
     concat (map (\<lambda>(_, child). collectAll child) (sort_key fst ss)) @
     (case p of None \<Rightarrow> [] | Some (_, child) \<Rightarrow> collectAll child)"
  by pat_completeness auto
termination
proof (relation "measure size", goal_cases)
  case 1
  show ?case by simp
next
  case (2 ss p hs x xa y)
  then have "(xa, y) \<in> set ss" by simp
  then show ?case using child_size by force
next
  case (3 ss p hs x2 x y)
  then show ?case by (cases x2) simp
qed

definition AllRoutes :: "node \<Rightarrow> (string \<times> route_entry) list" where
  "AllRoutes table = sort_key (\<lambda>(method, entry). (re_PathTemplate entry, method)) (collectAll table)"

end
