(* ===== verification/Route_Register.thy ===== *)
theory Route_Register
  imports Route_Table Domain_Eval
begin

text \<open>
  How a module's routes get into the table: \<^verbatim>\<open>route_module.go\<close> (explicit routes), \<^verbatim>\<open>route_action.go\<close>
  (action routes and transition overrides), \<^verbatim>\<open>route_model.go\<close> (routes derived from models) and
  \<^verbatim>\<open>condition.go\<close>. The table is updated in place, so every operation returns it next to its error.
  Pluralisation (\<^verbatim>\<open>inflect.Parameterize(inflect.Pluralize(label))\<close>, a third-party package) is the
  parameter \<open>inflect\<close>.
\<close>

section \<open>Explicit routes\<close>

record explicit_route =
  er_Method :: string
  er_Path :: string
  er_Auth :: string
  er_Permissions :: "string list"
  er_RateLimit :: "rate_limit option"
  er_MaxBodyBytes :: int
  er_RawBody :: bool
  er_Timeout :: int
  er_PollInterval :: int
  er_Streaming :: bool
  er_Websocket :: bool
  er_PathParams :: "(string \<rightharpoonup> string) option"
  er_Model :: string
  er_ResponseIsList :: bool
  er_CrudAction :: string
  er_Name :: string
  er_Scope :: string
  er_Transition :: "transition_ref option"
  er_Workflow :: "workflow_manifest option"
  er_StorageBackend :: string
  er_RequestType :: "type_desc option"
  er_ResponseType :: "type_desc option"

datatype route_error =
    PathNoSlash string
  | DotSegment string string
  | ReservedNamespace string
  | ConnectorNamespace string
  | DuplicateRoute string string
  | AlreadyRegistered string string
  | BothDerive string string string string
  | TransitionNeedsName string
  | UndeclaredModel string string
  | DuplicateAction string string
  | ShadowsTransition string string
  | NoSuchTransition string string
  | TransitionShape string string
  | UnknownScope string
  | ReservedMethod string
  | ReservedScope string
  | UnsupportedMethod string
  | ConditionParse parse_error
  | ConditionInvalid validate_error

text \<open>\<^verbatim>\<open>time.Duration(ms) * time.Millisecond\<close> on 64-bit integers.\<close>

definition int64 :: "int \<Rightarrow> int" where
  "int64 x = (x + 2 ^ 63) mod 2 ^ 64 - 2 ^ 63"

definition milliseconds :: "int \<Rightarrow> int" where
  "milliseconds ms = int64 (ms * 1000000)"

definition explicit_route_from :: "route_declaration \<Rightarrow> explicit_route" where
  "explicit_route_from d =
     \<lparr>er_Method = rd_Method d, er_Path = rd_Path d, er_Auth = rd_Auth d,
      er_Permissions = rd_Permissions d, er_RateLimit = rd_RateLimit d,
      er_MaxBodyBytes = rd_MaxBodyBytes d, er_RawBody = rd_RawBody d,
      er_Timeout = milliseconds (rd_TimeoutMs d),
      er_PollInterval = milliseconds (rd_PollIntervalMs d), er_Streaming = rd_Streaming d,
      er_Websocket = rd_Websocket d, er_PathParams = rd_PathParams d, er_Model = rd_Model d,
      er_ResponseIsList = rd_ResponseIsList d, er_CrudAction = rd_CRUDAction d,
      er_Name = rd_Name d, er_Scope = rd_Scope d, er_Transition = rd_Transition d,
      er_Workflow = None, er_StorageBackend = [], er_RequestType = rd_RequestType d,
      er_ResponseType = rd_ResponseType d\<rparr>"

definition ExplicitRoutesFrom :: "route_declaration list \<Rightarrow> explicit_route list" where
  "ExplicitRoutesFrom decls = map explicit_route_from decls"

definition ModulePathPrefix :: "string \<Rightarrow> string \<Rightarrow> string" where
  "ModulePathPrefix moduleName moduleType =
     (if moduleType = ''connector'' then ''/connectors/'' @ moduleName else ''/'' @ moduleName)"

definition reserved_namespaces :: "string list" where
  "reserved_namespaces = [''auth'', ''admin'', ''storage'', ''modules'', ''users'']"

text \<open>The checks of one explicit route that do not look at the tables.\<close>

definition path_problem :: "string \<Rightarrow> string \<Rightarrow> explicit_route \<Rightarrow> string \<Rightarrow> route_error option" where
  "path_problem moduleName moduleType r expandedPath =
     (if er_Path r = [] \<or> hd (er_Path r) \<noteq> CHR ''/'' then Some (PathNoSlash (er_Path r))
      else
        case first_err (\<lambda>seg. if seg = ''.'' \<or> seg = ''..'' then Some (DotSegment (er_Path r) seg) else None)
               (segments (er_Path r)) of
          Some e \<Rightarrow> Some e
        | None \<Rightarrow>
            (let first = hd (split_on (CHR ''/'') (normalizePath expandedPath))
             in if has_prefix first ''_'' then Some (ReservedNamespace expandedPath)
                else if first \<in> set reserved_namespaces then Some (ReservedNamespace expandedPath)
                else if first = ''connectors'' \<and> moduleType \<noteq> ''connector''
                then Some (ConnectorNamespace expandedPath)
                else None))"

definition expanded_path :: "string \<Rightarrow> string \<Rightarrow> string \<Rightarrow> string" where
  "expanded_path moduleName moduleType path =
     (let pre = ModulePathPrefix moduleName moduleType
      in if path \<noteq> ''/'' then pre @ path else pre)"

definition explicit_entry :: "string \<Rightarrow> string \<Rightarrow> explicit_route \<Rightarrow> route_entry" where
  "explicit_entry moduleName expandedPath r =
     \<lparr>re_ModuleName = moduleName,
      re_Manifest = zero_manifest
        \<lparr>rm_Auth := er_Auth r, rm_Permissions := er_Permissions r, rm_RateLimit := er_RateLimit r,
         rm_MaxBodyBytes := er_MaxBodyBytes r, rm_RawBody := er_RawBody r,
         rm_Timeout := er_Timeout r, rm_Streaming := er_Streaming r,
         rm_PollInterval := er_PollInterval r, rm_Websocket := er_Websocket r,
         rm_PathParams := er_PathParams r, rm_Model := er_Model r,
         rm_ResponseIsList := er_ResponseIsList r, rm_CrudAction := er_CrudAction r,
         rm_Name := er_Name r, rm_Workflow := er_Workflow r,
         rm_StorageBackend := er_StorageBackend r, rm_RequestType := er_RequestType r,
         rm_ResponseType := er_ResponseType r\<rparr>,
      re_PathTemplate = expandedPath\<rparr>"

text \<open>The first loop of \<^verbatim>\<open>RegisterModuleRoutes\<close>: the scratch table and the pending routes.\<close>

type_synonym pending = "string \<times> string \<times> route_entry"

definition pend :: "node \<Rightarrow> string \<Rightarrow> string \<Rightarrow> explicit_route \<Rightarrow> node \<times> pending list \<Rightarrow>
    (route_error, node \<times> pending list) result" where
  "pend table moduleName moduleType r st =
     (let (scratch, toRegister) = st;
          expandedPath = expanded_path moduleName moduleType (er_Path r);
          entry = explicit_entry moduleName expandedPath r
      in case path_problem moduleName moduleType r expandedPath of
           Some e \<Rightarrow> Inl e
         | None \<Rightarrow>
             if Registered (er_Method r) expandedPath scratch
             then Inl (DuplicateRoute (er_Method r) expandedPath)
             else if Registered (er_Method r) expandedPath table
             then Inl (AlreadyRegistered (er_Method r) expandedPath)
             else Inr (RegisterRoute (er_Method r) expandedPath entry scratch,
                       toRegister @ [(er_Method r, expandedPath, entry)]))"

definition RegisterModuleRoutes :: "string \<Rightarrow> string \<Rightarrow> explicit_route list \<Rightarrow> node \<Rightarrow>
    node \<times> route_error option" where
  "RegisterModuleRoutes moduleName moduleType routes table =
     (case fold_res (pend table moduleName moduleType) routes (New, []) of
        Inl e \<Rightarrow> (table, Some e)
      | Inr (_, toRegister) \<Rightarrow>
          (fold (\<lambda>(method, path, entry). RegisterRoute method path entry) toRegister table, None))"

section \<open>Paths derived from models\<close>

definition pluralPathSegment :: "(string \<Rightarrow> string) \<Rightarrow> model_declaration \<Rightarrow> string" where
  "pluralPathSegment inflect md =
     (if md_RoutePrefixOverride md \<noteq> [] then trim ''/'' (md_RoutePrefixOverride md)
      else inflect (if md_LabelPlural md = [] then ResourceName md else md_LabelPlural md))"

definition deriveCRUDPath :: "(string \<Rightarrow> string) \<Rightarrow> model_declaration \<Rightarrow> string \<Rightarrow> string \<times> string" where
  "deriveCRUDPath inflect md name =
     (let plural = ''/'' @ pluralPathSegment inflect md
      in if name = ''list'' then (''GET'', plural)
         else if name = ''get'' then (''GET'', plural @ ''/{id}'')
         else if name = ''create'' then (''POST'', plural)
         else if name = ''update'' then (''PUT'', plural @ ''/{id}'')
         else if name = ''delete'' then (''DELETE'', plural @ ''/{id}'')
         else if name = ''preview'' then (''POST'', plural @ ''/preview'')
         else if name = ''pivot'' then (''GET'', plural @ ''/pivot'')
         else (''POST'', plural @ ''/{id}/'' @ name))"

definition storageBackendString :: "string \<Rightarrow> string" where
  "storageBackendString b =
     (if b = BackendTransient then ''transient''
      else if b = BackendVirtual then ''virtual''
      else ''table'')"

definition isReservedAction :: "string \<Rightarrow> bool" where
  "isReservedAction name \<longleftrightarrow>
     name \<in> set [''list'', ''get'', ''create'', ''update'', ''delete'', ''preview'', ''pivot'']"

definition actionMethods :: "string list" where
  "actionMethods = [''GET'', ''POST'', ''PUT'', ''PATCH'', ''DELETE'']"

section \<open>Action routes and transition overrides\<close>

definition compileCondition :: "workflow_manifest \<Rightarrow> (route_error, workflow_manifest) result" where
  "compileCondition w =
     (if wm_Condition w = [] then Inr w
      else case Parse (wm_Condition w) of
             Inl e \<Rightarrow> Inl (ConditionParse e)
           | Inr expr \<Rightarrow>
               (case ValidateEval expr of
                  Some e \<Rightarrow> Inl (ConditionInvalid e)
                | None \<Rightarrow> Inr (w\<lparr>wm_ConditionExpr := Some expr\<rparr>)))"

definition transition_manifest :: "named_field \<Rightarrow> workflow_transition \<Rightarrow> workflow_manifest" where
  "transition_manifest f t =
     \<lparr>wm_Field = nf_Name f, wm_From = wt_From t, wm_To = wt_To t, wm_Condition = wt_ConditionExpr t,
      wm_ConditionExpr = None, wm_Event = wt_Event t\<rparr>"

text \<open>The transitions a model declares, in the order of the nested loops over fields.\<close>

definition transitions :: "model_declaration \<Rightarrow> (named_field \<times> workflow_transition) list" where
  "transitions md =
     concat (map (\<lambda>f. map (Pair f) (fd_WorkflowTransitions (nf_Def f))) (md_Fields md))"

definition modelWorkflow :: "model_declaration \<Rightarrow> string \<Rightarrow> (workflow_manifest \<times> string) option" where
  "modelWorkflow md action =
     map_option (\<lambda>(f, t). (transition_manifest f t, wt_Permission t))
       (List.find (\<lambda>(f, t). wt_ActionName t = action) (transitions md))"

definition isActionRoute :: "explicit_route \<Rightarrow> bool" where
  "isActionRoute r \<longleftrightarrow> er_Name r \<noteq> []"

definition deriveActionRoute :: "(string \<Rightarrow> string) \<Rightarrow> model_declaration \<Rightarrow> explicit_route \<Rightarrow>
    (route_error, string \<times> string \<times> (string \<rightharpoonup> string) option) result" where
  "deriveActionRoute inflect md r =
     (if er_Scope r \<noteq> [] \<and> er_Scope r \<noteq> ''record'' \<and> er_Scope r \<noteq> ''collection''
      then Inl (UnknownScope (er_Scope r))
      else if er_Transition r = None \<and> isReservedAction (er_Name r)
      then (if er_Method r \<noteq> [] then Inl (ReservedMethod (er_Method r))
            else if er_Scope r \<noteq> [] then Inl (ReservedScope (er_Scope r))
            else case deriveCRUDPath inflect md (er_Name r) of
                   (method, path) \<Rightarrow> Inr (method, path, er_PathParams r))
      else
        (let method = (if er_Method r \<noteq> [] then er_Method r else ''POST'');
             plural = ''/'' @ pluralPathSegment inflect md;
             pathParams = (case er_PathParams r of None \<Rightarrow> Map.empty | Some m \<Rightarrow> m)
         in if method \<notin> set actionMethods then Inl (UnsupportedMethod method)
            else if er_Scope r = ''collection''
            then Inr (method, plural @ ''/'' @ er_Name r, er_PathParams r)
            else Inr (method, plural @ ''/{id}/'' @ er_Name r,
                      Some (if pathParams ''id'' = None then pathParams(''id'' \<mapsto> ''uuid'')
                            else pathParams))))"

definition permission_list :: "string \<Rightarrow> string list" where
  "permission_list permission = (if permission \<noteq> [] then [permission] else [])"

text \<open>What a transition override takes from the declared transition.\<close>

definition bind_transition :: "model_declaration \<Rightarrow> explicit_route \<Rightarrow>
    (route_error, explicit_route) result" where
  "bind_transition md r =
     (case (er_Transition r, modelWorkflow md (er_Name r)) of
        (None, None) \<Rightarrow> Inr r
      | (None, Some _) \<Rightarrow> Inl (ShadowsTransition (er_Name r) (er_Model r))
      | (Some _, None) \<Rightarrow> Inl (NoSuchTransition (er_Name r) (er_Model r))
      | (Some tr, Some (workflow, permission)) \<Rightarrow>
          if tr_From tr \<noteq> wm_From workflow \<or> tr_To tr \<noteq> wm_To workflow
          then Inl (NoSuchTransition (er_Name r) (er_Model r))
          else if er_Method r \<noteq> [] \<or> er_Scope r \<noteq> [] \<or> er_RequestType r \<noteq> None
          then Inl (TransitionShape (er_Name r) (er_Model r))
          else map_sum id
                 (\<lambda>w. r\<lparr>er_Auth := ''required'', er_Permissions := permission_list permission,
                       er_Workflow := Some w, er_CrudAction := ''workflow_transition'',
                       er_StorageBackend := storageBackendString (md_Backend md),
                       er_ResponseIsList := False\<rparr>)
                 (compileCondition workflow))"

definition resolve_action :: "(string \<Rightarrow> string) \<Rightarrow> (string \<rightharpoonup> model_declaration) \<Rightarrow> explicit_route \<Rightarrow>
    explicit_route list \<times> (string \<times> string) set \<Rightarrow>
    (route_error, explicit_route list \<times> (string \<times> string) set) result" where
  "resolve_action inflect declared r st =
     (let (resolved, seen) = st
      in if er_Transition r \<noteq> None \<and> er_Name r = [] then Inl (TransitionNeedsName (er_Model r))
         else if \<not> isActionRoute r then Inr (resolved @ [r], seen)
         else case declared (er_Model r) of
                None \<Rightarrow> Inl (UndeclaredModel (er_Name r) (er_Model r))
              | Some md \<Rightarrow>
                  if (er_Model r, er_Name r) \<in> seen
                  then Inl (DuplicateAction (er_Name r) (er_Model r))
                  else and_then (bind_transition md r) (\<lambda>r.
                       map_sum id
                         (\<lambda>(method, path, pathParams).
                            (resolved @ [r\<lparr>er_Method := method, er_Path := path, er_PathParams := pathParams\<rparr>],
                             insert (er_Model r, er_Name r) seen))
                         (deriveActionRoute inflect md r)))"

definition declared_models :: "string \<Rightarrow> model_declaration list \<Rightarrow> string \<rightharpoonup> model_declaration" where
  "declared_models moduleName models =
     map_of (rev (map (\<lambda>md. (QualifiedName md moduleName, md)) models))"

definition resolveActionRoutes :: "(string \<Rightarrow> string) \<Rightarrow> string \<Rightarrow> explicit_route list \<Rightarrow>
    model_declaration list \<Rightarrow> (route_error, explicit_route list) result" where
  "resolveActionRoutes inflect moduleName explicit models =
     (if \<not> list_ex (\<lambda>r. isActionRoute r \<or> er_Transition r \<noteq> None) explicit then Inr explicit
      else map_sum id fst
             (fold_res (resolve_action inflect (declared_models moduleName models)) explicit ([], {})))"

definition ValidateActionRoutes :: "(string \<Rightarrow> string) \<Rightarrow> string \<Rightarrow> explicit_route list \<Rightarrow>
    model_declaration list \<Rightarrow> route_error option" where
  "ValidateActionRoutes inflect moduleName explicit models =
     (case resolveActionRoutes inflect moduleName explicit models of Inl e \<Rightarrow> Some e | Inr _ \<Rightarrow> None)"

section \<open>Derived routes\<close>

record suppressed_route =
  sr_Model :: string
  sr_Op :: string
  sr_Kind :: string

definition SuppressedWorkflowTransition :: string where
  "SuppressedWorkflowTransition = ''workflow_transition''"

definition explicitActionIdentities :: "node \<Rightarrow> string \<Rightarrow> (string \<times> string) set" where
  "explicitActionIdentities table moduleName =
     set (map (\<lambda>(_, e). (rm_Model (re_Manifest e), rm_Name (re_Manifest e)))
       (filter (\<lambda>(_, e). re_ModuleName e = moduleName \<and> \<not> rm_EngineNative (re_Manifest e) \<and>
                  rm_Name (re_Manifest e) \<noteq> [])
          (AllRoutes table)))"

definition actionClaimed :: "(string \<times> string) set \<Rightarrow> string \<Rightarrow> model_declaration \<Rightarrow> string \<Rightarrow> bool" where
  "actionClaimed claimed moduleName md action \<longleftrightarrow> (QualifiedName md moduleName, action) \<in> claimed"

text \<open>The variables of the two derivation loops.\<close>

record derive_state =
  ds_table :: node
  ds_suppressed :: "suppressed_route list"
  ds_claimedThisCall :: "string \<rightharpoonup> string"

definition op_entry :: "string \<Rightarrow> string \<Rightarrow> model_declaration \<Rightarrow> op \<Rightarrow> route_entry" where
  "op_entry moduleName expandedPath md oper =
     \<lparr>re_ModuleName = moduleName,
      re_Manifest = zero_manifest
        \<lparr>rm_Auth := ''required'', rm_Permissions := permission_list (op_Permission oper),
         rm_Model := QualifiedName md moduleName, rm_ResponseIsList := (op_Name oper = ''list''),
         rm_CrudAction := op_Name oper, rm_EngineNative := True,
         rm_StorageBackend := storageBackendString (md_Backend md)\<rparr>,
      re_PathTemplate = expandedPath\<rparr>"

definition derive_op :: "(string \<Rightarrow> string) \<Rightarrow> string \<Rightarrow> string \<Rightarrow> (string \<times> string) set \<Rightarrow>
    model_declaration \<times> op \<Rightarrow> derive_state \<Rightarrow> derive_state \<times> route_error option" where
  "derive_op inflect moduleName moduleType claimedActions mo s =
     (let (md, oper) = mo;
          qualifiedModel = QualifiedName md moduleName;
          (method, relPath) = deriveCRUDPath inflect md (op_Name oper);
          expandedPath = ModulePathPrefix moduleName moduleType @ relPath;
          key = method @ '' '' @ expandedPath
      in case ds_claimedThisCall s key of
           Some claimant \<Rightarrow> (s, Some (BothDerive claimant qualifiedModel method expandedPath))
         | None \<Rightarrow>
             if actionClaimed claimedActions moduleName md (op_Name oper) \<or>
                Registered method expandedPath (ds_table s)
             then (s\<lparr>ds_suppressed := ds_suppressed s @
                       [\<lparr>sr_Model = qualifiedModel, sr_Op = op_Name oper, sr_Kind = []\<rparr>]\<rparr>, None)
             else (s\<lparr>ds_table := RegisterRoute method expandedPath
                                  (op_entry moduleName expandedPath md oper) (ds_table s),
                     ds_claimedThisCall := (ds_claimedThisCall s)(key \<mapsto> qualifiedModel)\<rparr>, None))"

definition enabled_ops :: "model_declaration list \<Rightarrow> (model_declaration \<times> op) list" where
  "enabled_ops models = concat (map (\<lambda>md. map (Pair md) (md_EnabledOps md)) models)"

definition derive_start :: "node \<Rightarrow> derive_state" where
  "derive_start table = \<lparr>ds_table = table, ds_suppressed = [], ds_claimedThisCall = Map.empty\<rparr>"

definition RegisterModelRoutes :: "(string \<Rightarrow> string) \<Rightarrow> string \<Rightarrow> string \<Rightarrow> model_declaration list \<Rightarrow>
    node \<Rightarrow> node \<times> suppressed_route list \<times> route_error option" where
  "RegisterModelRoutes inflect moduleName moduleType models table =
     (case each (derive_op inflect moduleName moduleType (explicitActionIdentities table moduleName))
             (enabled_ops models) (derive_start table) of
        (s, err) \<Rightarrow> (ds_table s, ds_suppressed s, err))"

definition action_entry :: "string \<Rightarrow> string \<Rightarrow> model_declaration \<Rightarrow> workflow_transition \<Rightarrow>
    workflow_manifest \<Rightarrow> route_entry" where
  "action_entry moduleName expandedPath md t workflow =
     \<lparr>re_ModuleName = moduleName,
      re_Manifest = zero_manifest
        \<lparr>rm_Auth := ''required'', rm_Permissions := permission_list (wt_Permission t),
         rm_Model := QualifiedName md moduleName, rm_Name := wt_ActionName t,
         rm_CrudAction := ''workflow_transition'', rm_EngineNative := True,
         rm_StorageBackend := storageBackendString (md_Backend md),
         rm_Workflow := Some workflow\<rparr>,
      re_PathTemplate = expandedPath\<rparr>"

definition derive_transition :: "(string \<Rightarrow> string) \<Rightarrow> string \<Rightarrow> string \<Rightarrow> (string \<times> string) set \<Rightarrow>
    model_declaration \<times> named_field \<times> workflow_transition \<Rightarrow> derive_state \<Rightarrow>
    derive_state \<times> route_error option" where
  "derive_transition inflect moduleName moduleType claimedActions mft s =
     (let (md, f, t) = mft;
          qualifiedModel = QualifiedName md moduleName;
          method = ''POST'';
          relPath = ''/'' @ pluralPathSegment inflect md @ ''/{id}/'' @ wt_ActionName t;
          expandedPath = ModulePathPrefix moduleName moduleType @ relPath;
          key = method @ '' '' @ expandedPath
      in case ds_claimedThisCall s key of
           Some claimant \<Rightarrow> (s, Some (BothDerive claimant qualifiedModel method expandedPath))
         | None \<Rightarrow>
             if actionClaimed claimedActions moduleName md (wt_ActionName t) \<or>
                Registered method expandedPath (ds_table s)
             then (s\<lparr>ds_suppressed := ds_suppressed s @
                       [\<lparr>sr_Model = qualifiedModel, sr_Op = wt_ActionName t,
                         sr_Kind = SuppressedWorkflowTransition\<rparr>]\<rparr>, None)
             else (case compileCondition (transition_manifest f t) of
                     Inl e \<Rightarrow> (s, Some e)
                   | Inr workflow \<Rightarrow>
                       (s\<lparr>ds_table := RegisterRoute method expandedPath
                                       (action_entry moduleName expandedPath md t workflow) (ds_table s),
                          ds_claimedThisCall := (ds_claimedThisCall s)(key \<mapsto> qualifiedModel)\<rparr>, None)))"

definition declared_transitions ::
    "model_declaration list \<Rightarrow> (model_declaration \<times> named_field \<times> workflow_transition) list" where
  "declared_transitions models = concat (map (\<lambda>md. map (Pair md) (transitions md)) models)"

definition RegisterModelWorkflowActions :: "(string \<Rightarrow> string) \<Rightarrow> string \<Rightarrow> string \<Rightarrow>
    model_declaration list \<Rightarrow> node \<Rightarrow> node \<times> suppressed_route list \<times> route_error option" where
  "RegisterModelWorkflowActions inflect moduleName moduleType models table =
     (case each (derive_transition inflect moduleName moduleType
                   (explicitActionIdentities table moduleName))
             (declared_transitions models) (derive_start table) of
        (s, err) \<Rightarrow> (ds_table s, ds_suppressed s, err))"

definition RegisterRoutes :: "(string \<Rightarrow> string) \<Rightarrow> string \<Rightarrow> string \<Rightarrow> explicit_route list \<Rightarrow>
    model_declaration list \<Rightarrow> node \<Rightarrow> node \<times> (route_error, suppressed_route list) result" where
  "RegisterRoutes inflect moduleName moduleType explicit models table =
     (case resolveActionRoutes inflect moduleName explicit models of
        Inl e \<Rightarrow> (table, Inl e)
      | Inr explicit' \<Rightarrow>
          (case RegisterModuleRoutes moduleName moduleType explicit' table of
             (table1, Some e) \<Rightarrow> (table1, Inl e)
           | (table1, None) \<Rightarrow>
               (case RegisterModelRoutes inflect moduleName moduleType models table1 of
                  (table2, _, Some e) \<Rightarrow> (table2, Inl e)
                | (table2, suppressed, None) \<Rightarrow>
                    (case RegisterModelWorkflowActions inflect moduleName moduleType models table2 of
                       (table3, _, Some e) \<Rightarrow> (table3, Inl e)
                     | (table3, workflowSuppressed, None) \<Rightarrow>
                         (table3, Inr (suppressed @ workflowSuppressed))))))"

end
