(* ===== verification/Route_Table_Props.thy ===== *)
theory Route_Table_Props
  imports Route_Table
begin

text \<open>
  The trie of \<^verbatim>\<open>Route_Table\<close> against its specification: the entry at a pattern and a method is the
  one registered last for them, and \<^verbatim>\<open>Lookup\<close> is computed from the list of registrations. The
  laws the registration code needs are an interface, interpreted on the trie.
\<close>

section \<open>Patterns\<close>

datatype pat = Lit string | Par

definition shape :: "string \<Rightarrow> pat" where
  "shape seg = (if is_param seg then Par else Lit seg)"

lemma shape_simps [simp]:
  "is_param seg \<Longrightarrow> shape seg = Par"
  "\<not> is_param seg \<Longrightarrow> shape seg = Lit seg"
  "Par = shape seg \<longleftrightarrow> is_param seg"
  "Lit s = shape seg \<longleftrightarrow> \<not> is_param seg \<and> s = seg"
  by (auto simp: shape_def)

definition pattern :: "string \<Rightarrow> pat list" where
  "pattern path = map shape (segments path)"

fun no_double :: "string \<Rightarrow> bool" where
  "no_double (c # d # cs) \<longleftrightarrow> \<not> (c = CHR ''/'' \<and> d = CHR ''/'') \<and> no_double (d # cs)"
| "no_double _ \<longleftrightarrow> True"

lemma collapse_True_hd: "collapse True s \<noteq> [] \<Longrightarrow> hd (collapse True s) \<noteq> CHR ''/''"
  by (induction s) auto

lemma no_double_Cons:
  "no_double (c # s) \<longleftrightarrow> no_double s \<and> (s \<noteq> [] \<longrightarrow> \<not> (c = CHR ''/'' \<and> hd s = CHR ''/''))"
  by (cases s) auto

lemma no_double_collapse: "no_double (collapse b s)"
proof (induction s arbitrary: b)
  case (Cons c s)
  show ?case
    using Cons[of True] Cons[of False] collapse_True_hd[of s] by (auto simp: no_double_Cons)
qed simp

lemma no_double_append: "no_double (a @ b) \<Longrightarrow> no_double a \<and> no_double b"
  by (induction a) (auto simp: no_double_Cons)

lemma no_double_dropWhile: "no_double s \<Longrightarrow> no_double (dropWhile P s)"
  by (metis no_double_append takeWhile_dropWhile_id)

lemma trim_split: "\<exists>a b. s = a @ trim cs s @ b"
proof -
  define u where "u = dropWhile (\<lambda>c. c \<in> set cs) s"
  have s: "s = takeWhile (\<lambda>c. c \<in> set cs) s @ u"
    by (simp add: u_def)
  have "rev u = takeWhile (\<lambda>c. c \<in> set cs) (rev u) @ dropWhile (\<lambda>c. c \<in> set cs) (rev u)"
    by simp
  then have "u = trim cs s @ rev (takeWhile (\<lambda>c. c \<in> set cs) (rev u))"
    unfolding trim_def u_def[symmetric] by (metis rev_append rev_rev_ident)
  with s show ?thesis by metis
qed

lemma trim_last:
  assumes "trim cs s \<noteq> []"
  shows "last (trim cs s) \<notin> set cs"
proof -
  define v where "v = rev (dropWhile (\<lambda>c. c \<in> set cs) s)"
  from assms have "dropWhile (\<lambda>c. c \<in> set cs) v \<noteq> []"
    by (simp add: trim_def v_def)
  then show ?thesis
    using hd_dropWhile[of "\<lambda>c. c \<in> set cs" v] by (simp add: trim_def v_def last_rev)
qed

lemma trim_hd:
  assumes "trim cs s \<noteq> []"
  shows "hd (trim cs s) \<notin> set cs"
proof -
  define u where "u = dropWhile (\<lambda>c. c \<in> set cs) s"
  have u: "u = trim cs s @ rev (takeWhile (\<lambda>c. c \<in> set cs) (rev u))"
    unfolding trim_def u_def[symmetric] by (metis rev_append rev_rev_ident takeWhile_dropWhile_id)
  with assms have ne: "u \<noteq> []" and hd: "hd u = hd (trim cs s)"
    by (metis append_is_Nil_conv, metis hd_append)
  from ne have "hd u \<notin> set cs"
    unfolding u_def by (rule hd_dropWhile)
  with hd show ?thesis by simp
qed

lemma split_on_nonempty_aux:
  "\<lbrakk>no_double s; s \<noteq> []; last s \<noteq> CHR ''/''\<rbrakk> \<Longrightarrow>
     [] \<notin> set (tl (split_on (CHR ''/'') s)) \<and> (hd s \<noteq> CHR ''/'' \<longrightarrow> hd (split_on (CHR ''/'') s) \<noteq> [])"
proof (induction s)
  case (Cons c s)
  show ?case
  proof (cases "s = []")
    case False
    with Cons have IH: "[] \<notin> set (tl (split_on (CHR ''/'') s))"
      "hd s \<noteq> CHR ''/'' \<longrightarrow> hd (split_on (CHR ''/'') s) \<noteq> []"
      by (auto simp: no_double_Cons)
    obtain w ws where sp: "split_on (CHR ''/'') s = w # ws"
      by (meson neq_Nil_conv split_on_not_Nil)
    show ?thesis
      using IH Cons.prems False sp by (auto simp: no_double_Cons)
  qed (use Cons.prems in auto)
qed simp

lemma segments_nonempty: "[] \<notin> set (segments path)"
proof (cases "normalizePath path = []")
  case False
  then have hd: "hd (normalizePath path) \<noteq> CHR ''/''" and last: "last (normalizePath path) \<noteq> CHR ''/''"
    using trim_hd[of "''/''" "collapse False path"] trim_last[of "''/''" "collapse False path"]
    by (simp_all add: normalizePath_def)
  have nd: "no_double (normalizePath path)"
    unfolding normalizePath_def
    by (metis trim_split no_double_append no_double_collapse)
  obtain w ws where sp: "split_on (CHR ''/'') (normalizePath path) = w # ws"
    by (meson neq_Nil_conv split_on_not_Nil)
  from split_on_nonempty_aux[OF nd False last] hd sp show ?thesis
    using False by (auto simp: segments_def Let_def)
qed (simp add: segments_def)

section \<open>Entries of a trie\<close>

fun node_at :: "pat list \<Rightarrow> node \<Rightarrow> node option" where
  "node_at [] n = Some n"
| "node_at (Par # q) n =
     (case paramChild n of None \<Rightarrow> None | Some (_, child) \<Rightarrow> node_at q child)"
| "node_at (Lit s # q) n =
     (case map_of (staticChildren n) s of None \<Rightarrow> None | Some child \<Rightarrow> node_at q child)"

definition entry_at :: "node \<Rightarrow> pat list \<times> string \<Rightarrow> route_entry option" where
  "entry_at n key =
     (case node_at (fst key) n of None \<Rightarrow> None | Some n' \<Rightarrow> map_of (handlers n') (snd key))"

definition param_at :: "node \<Rightarrow> pat list \<Rightarrow> string option" where
  "param_at n q =
     (case node_at q n of None \<Rightarrow> None | Some n' \<Rightarrow> map_option fst (paramChild n'))"

lemma pattern_cases [case_names Nil Par Lit]:
  "\<lbrakk>q = [] \<Longrightarrow> P; \<And>q'. q = Par # q' \<Longrightarrow> P; \<And>s q'. q = Lit s # q' \<Longrightarrow> P\<rbrakk> \<Longrightarrow> P"
  by (metis list.exhaust pat.exhaust)

lemma find_node_eq: "[] \<notin> set segs \<Longrightarrow> find_node segs n = node_at (map shape segs) n"
  by (induction segs arbitrary: n) (auto simp: shape_def split: option.splits)

lemma node_at_empty [simp]: "node_at q empty_node = (if q = [] then Some empty_node else None)"
  by (cases q rule: node_at.cases[where x = "(q, empty_node)" for q, simplified])
     (auto simp: empty_node_def)

lemma node_at_append:
  "node_at (q @ r) n = (case node_at q n of None \<Rightarrow> None | Some n' \<Rightarrow> node_at r n')"
  by (induction q n rule: node_at.induct) (auto split: option.splits)

lemma entry_at_empty [simp]: "entry_at empty_node = Map.empty"
  by (rule ext) (simp add: entry_at_def, simp add: empty_node_def)

lemma entry_at_simps [simp]:
  "entry_at n ([], m) = map_of (handlers n) m"
  "entry_at n (Par # q, m) =
     (case paramChild n of None \<Rightarrow> None | Some (_, child) \<Rightarrow> entry_at child (q, m))"
  "entry_at n (Lit s # q, m) =
     (case map_of (staticChildren n) s of None \<Rightarrow> None | Some child \<Rightarrow> entry_at child (q, m))"
  by (auto simp: entry_at_def split: option.splits)

lemma param_at_simps [simp]:
  "param_at n [] = map_option fst (paramChild n)"
  "param_at n (Par # q) =
     (case paramChild n of None \<Rightarrow> None | Some (_, child) \<Rightarrow> param_at child q)"
  "param_at n (Lit s # q) =
     (case map_of (staticChildren n) s of None \<Rightarrow> None | Some child \<Rightarrow> param_at child q)"
  by (auto simp: param_at_def split: option.splits)

lemma param_at_empty [simp]: "param_at empty_node q = None"
  by (simp add: param_at_def) (simp add: empty_node_def)

lemma entry_at_register:
  "entry_at (register_at segs m e n) (q, m') =
     (if q = map shape segs \<and> m' = m then Some e else entry_at n (q, m'))"
proof (induction segs arbitrary: n q m')
  case Nil
  obtain ss p hs where n: "n = Node ss p hs" by (cases n)
  show ?case
    by (cases q rule: pattern_cases) (auto simp: n update_conv' split: option.splits)
next
  case (Cons seg segs)
  obtain ss p hs where n: "n = Node ss p hs" by (cases n)
  show ?case
    by (cases q rule: pattern_cases)
       (auto simp: n update_conv' Cons.IH split: option.splits)
qed

lemma node_at_register:
  "node_at q (register_at segs m e n) \<noteq> None \<longleftrightarrow> node_at q n \<noteq> None \<or> prefix q (map shape segs)"
proof (induction segs arbitrary: n q)
  case Nil
  obtain ss p hs where n: "n = Node ss p hs" by (cases n)
  show ?case
    by (cases q rule: pattern_cases) (auto simp: n)
next
  case (Cons seg segs)
  obtain ss p hs where n: "n = Node ss p hs" by (cases n)
  have IH': "(\<exists>y. node_at q (register_at segs m e n) = Some y) \<longleftrightarrow>
      (\<exists>y. node_at q n = Some y) \<or> prefix q (map shape segs)" for q n
    using Cons.IH[of q n] by auto
  show ?case
    by (cases q rule: pattern_cases)
       (auto simp: n update_conv' IH' split: option.splits)
qed

lemma param_at_register:
  "param_at (register_at segs m e n) q =
     (case param_at n q of
        Some name \<Rightarrow> Some name
      | None \<Rightarrow> if prefix (q @ [Par]) (map shape segs) then Some (param_name (segs ! length q)) else None)"
proof (induction segs arbitrary: n q)
  case Nil
  obtain ss p hs where n: "n = Node ss p hs" by (cases n)
  show ?case
    by (cases q rule: pattern_cases) (auto simp: n split: option.splits)
next
  case (Cons seg segs)
  obtain ss p hs where n: "n = Node ss p hs" by (cases n)
  show ?case
    by (cases q rule: pattern_cases)
       (auto simp: n update_conv' Cons.IH split: option.splits)
qed

section \<open>Keys of the maps are distinct\<close>

inductive wf_node :: "node \<Rightarrow> bool" where
  "\<lbrakk>distinct (map fst ss); distinct (map fst hs); \<forall>c \<in> snd ` set ss. wf_node c;
    \<forall>name c. p = Some (name, c) \<longrightarrow> wf_node c\<rbrakk> \<Longrightarrow> wf_node (Node ss p hs)"

inductive_simps wf_node_Node [simp]: "wf_node (Node ss p hs)"

lemma wf_empty_node [simp]: "wf_node empty_node"
  by (simp add: empty_node_def)

lemma wf_child:
  "wf_node (Node ss p hs) \<Longrightarrow> wf_node (case map_of ss seg of None \<Rightarrow> empty_node | Some c \<Rightarrow> c)"
  by (auto split: option.splits dest: map_of_SomeD)

lemma update_values:
  "(k', c) \<in> set (AList.update k v ss) \<Longrightarrow> c = v \<or> (k', c) \<in> set ss"
  by (induction ss) (auto split: if_splits)

lemma wf_register: "wf_node n \<Longrightarrow> wf_node (register_at segs m e n)"
proof (induction segs m e n rule: register_at.induct)
  case (1 m e ss p hs)
  then show ?case by (simp add: distinct_update)
next
  case (2 seg segs m e ss p hs)
  show ?case
  proof (cases "is_param seg")
    case True
    with 2 show ?thesis by (auto split: option.splits)
  next
    case False
    with 2 have "wf_node (register_at segs m e (case map_of ss seg of None \<Rightarrow> empty_node | Some c \<Rightarrow> c))"
      using wf_child by blast
    with 2 False show ?thesis
      by (fastforce simp: distinct_update dest: update_values)
  qed
qed

lemma wf_node_at: "\<lbrakk>wf_node n; node_at q n = Some n'\<rbrakk> \<Longrightarrow> wf_node n'"
proof (induction q arbitrary: n)
  case (Cons s q)
  obtain ss p hs where n: "n = Node ss p hs" by (cases n)
  show ?case
  proof (cases s)
    case (Lit a)
    then obtain c where c: "map_of ss a = Some c" "node_at q c = Some n'"
      using Cons.prems(2) by (auto simp: n split: option.splits)
    then have "(a, c) \<in> set ss" by (simp add: map_of_SomeD)
    then have "wf_node c" using Cons.prems(1) by (auto simp: n)
    then show ?thesis using c(2) by (rule Cons.IH)
  next
    case Par
    then obtain name c where c: "p = Some (name, c)" "node_at q c = Some n'"
      using Cons.prems(2) by (auto simp: n split: option.splits)
    then have "wf_node c" using Cons.prems(1) by (auto simp: n)
    then show ?thesis using c(2) by (rule Cons.IH)
  qed
qed simp

lemma handlers_methods:
  assumes "wf_node n"
  shows "sort (map fst (handlers n)) = sorted_list_of_set (dom (map_of (handlers n)))"
proof -
  from assms have "distinct (map fst (handlers n))" by (cases n) simp
  then show ?thesis
    by (simp add: dom_map_of_conv_image_fst sorted_list_of_set_sort_remdups
        distinct_remdups_id flip: set_map)
qed

lemma entry_at_ex:
  "(\<exists>q. entry_at (Node ss p hs) (q, m) = Some e) \<longleftrightarrow>
     map_of hs m = Some e \<or>
     (\<exists>seg c. map_of ss seg = Some c \<and> (\<exists>q. entry_at c (q, m) = Some e)) \<or>
     (\<exists>name c. p = Some (name, c) \<and> (\<exists>q. entry_at c (q, m) = Some e))"
  (is "?l \<longleftrightarrow> ?a \<or> ?b \<or> ?c")
proof
  assume ?l
  then obtain q where q: "entry_at (Node ss p hs) (q, m) = Some e" ..
  then show "?a \<or> ?b \<or> ?c"
    by (cases q rule: pattern_cases) (auto split: option.splits)
next
  assume "?a \<or> ?b \<or> ?c"
  then consider ?a | seg c q where "map_of ss seg = Some c" "entry_at c (q, m) = Some e"
    | name c q where "p = Some (name, c)" "entry_at c (q, m) = Some e"
    by blast
  then show ?l
  proof cases
    case 1
    then show ?thesis by (intro exI[of _ "[]"]) simp
  next
    case (2 seg c q)
    then show ?thesis by (intro exI[of _ "Lit seg # q"]) simp
  next
    case (3 name c q)
    then show ?thesis by (intro exI[of _ "Par # q"]) simp
  qed
qed

lemma set_collectAll:
  "wf_node n \<Longrightarrow> (m, e) \<in> set (collectAll n) \<longleftrightarrow> (\<exists>q. entry_at n (q, m) = Some e)"
proof (induction n rule: collectAll.induct)
  case (1 ss p hs)
  have child: "(m, e) \<in> set (collectAll c) \<longleftrightarrow> (\<exists>q. entry_at c (q, m) = Some e)"
    if "(seg, c) \<in> set ss" for seg c
  proof -
    from 1(3) that have "wf_node c" by fastforce
    then show ?thesis using 1(1)[of "(seg, c)" seg c] that by simp
  qed
  have param: "(m, e) \<in> set (collectAll c) \<longleftrightarrow> (\<exists>q. entry_at c (q, m) = Some e)"
    if "p = Some (name, c)" for name c
    using 1(2)[of "(name, c)" name c] 1(3) that by auto
  from 1(3) have hs: "map_of hs m = Some e \<longleftrightarrow> (m, e) \<in> set hs"
    and ss: "map_of ss seg = Some c \<longleftrightarrow> (seg, c) \<in> set ss" for seg c
    by simp_all
  have "(m, e) \<in> set (collectAll (Node ss p hs)) \<longleftrightarrow>
      (m, e) \<in> set hs \<or> (\<exists>seg c. (seg, c) \<in> set ss \<and> (m, e) \<in> set (collectAll c)) \<or>
      (\<exists>name c. p = Some (name, c) \<and> (m, e) \<in> set (collectAll c))"
    by (cases p) auto
  also have "\<dots> \<longleftrightarrow> (\<exists>q. entry_at (Node ss p hs) (q, m) = Some e)"
    unfolding entry_at_ex hs ss using child param by blast
  finally show ?case .
qed

section \<open>The interface the registration code uses\<close>

text \<open>
  A store of routes under keys: what is registered is what was put there, and nothing else
  changes. The registration loops rely on these laws only.
\<close>

locale route_store =
  fixes registered :: "string \<Rightarrow> string \<Rightarrow> 't \<Rightarrow> bool"
    and register :: "string \<Rightarrow> string \<Rightarrow> 'e \<Rightarrow> 't \<Rightarrow> 't"
    and entries :: "'t \<Rightarrow> 'k \<rightharpoonup> 'e"
    and key :: "string \<Rightarrow> string \<Rightarrow> 'k"
  assumes registered_iff: "registered m p t \<longleftrightarrow> entries t (key m p) \<noteq> None"
    and entries_register: "entries (register m p e t) = (entries t)(key m p \<mapsto> e)"
begin

text \<open>A list of registrations whose keys are all free, and distinct, only adds to the store.\<close>

definition put :: "string \<times> string \<times> 'e \<Rightarrow> 't \<Rightarrow> 't" where
  "put r t = (case r of (m, p, e) \<Rightarrow> register m p e t)"

definition key_of :: "string \<times> string \<times> 'e \<Rightarrow> 'k" where
  "key_of r = (case r of (m, p, e) \<Rightarrow> key m p)"

lemma entries_put_all:
  "entries (fold put rs t) = entries t ++ map_of (rev (map (\<lambda>r. (key_of r, snd (snd r))) rs))"
proof (induction rs arbitrary: t)
  case (Cons r rs)
  obtain m p e where r: "r = (m, p, e)" by (cases r)
  have put: "put r t = register m p e t" and key: "key_of r = key m p"
    by (simp_all add: r put_def key_of_def)
  have "entries (fold put (r # rs) t) =
      (entries t)(key m p \<mapsto> e) ++ map_of (rev (map (\<lambda>r. (key_of r, snd (snd r))) rs))"
    by (simp only: fold.simps comp_apply Cons.IH put entries_register)
  also have "\<dots> = entries t ++ map_of (rev (map (\<lambda>r. (key_of r, snd (snd r))) (r # rs)))"
    by (simp only: list.map rev.simps map_of_append map_add_assoc key) (simp add: r)
  finally show ?case .
qed simp

lemma put_all_keeps:
  assumes "entries t k = Some e" "\<forall>r \<in> set rs. entries t (key_of r) = None"
  shows "entries (fold put rs t) k = Some e"
proof -
  have "k \<notin> fst ` set (map (\<lambda>r. (key_of r, snd (snd r))) rs)"
    using assms by force
  then have "map_of (rev (map (\<lambda>r. (key_of r, snd (snd r))) rs)) k = None"
    by (simp add: map_of_eq_None_iff)
  then show ?thesis
    by (simp add: entries_put_all map_add_def assms(1))
qed

lemma put_all_new:
  assumes "entries (fold put rs t) k = Some e" "entries t k = None"
  shows "\<exists>r \<in> set rs. k = key_of r \<and> e = snd (snd r)"
proof -
  from assms have "map_of (rev (map (\<lambda>r. (key_of r, snd (snd r))) rs)) k = Some e"
    by (auto simp: entries_put_all map_add_def split: option.splits)
  then have "(k, e) \<in> set (rev (map (\<lambda>r. (key_of r, snd (snd r))) rs))"
    by (rule map_of_SomeD)
  then show ?thesis by auto
qed

lemma put_all_adds:
  assumes "r \<in> set rs" "distinct (map key_of rs)"
  shows "entries (fold put rs t) (key_of r) = Some (snd (snd r))"
proof -
  let ?kvs = "rev (map (\<lambda>r. (key_of r, snd (snd r))) rs)"
  have "distinct (map fst ?kvs)"
    using assms(2) by (simp add: comp_def rev_map[symmetric])
  moreover have "(key_of r, snd (snd r)) \<in> set ?kvs"
    using assms(1) by auto
  ultimately show ?thesis
    by (simp add: entries_put_all map_add_def map_of_is_SomeI)
qed

end

definition route_key :: "string \<Rightarrow> string \<Rightarrow> pat list \<times> string" where
  "route_key method path = (pattern path, method)"

interpretation rt: route_store Registered RegisterRoute entry_at route_key
proof
  fix m p e t
  show "Registered m p t \<longleftrightarrow> entry_at t (route_key m p) \<noteq> None"
    by (auto simp: Registered_def entry_at_def route_key_def pattern_def
        find_node_eq[OF segments_nonempty] split: option.splits)
  show "entry_at (RegisterRoute m p e t) = (entry_at t)(route_key m p \<mapsto> e)"
  proof
    fix k
    show "entry_at (RegisterRoute m p e t) k = ((entry_at t)(route_key m p \<mapsto> e)) k"
      by (cases k) (simp add: RegisterRoute_def route_key_def pattern_def entry_at_register)
  qed
qed

section \<open>Lookup from the list of registrations\<close>

type_synonym registration = "string \<times> string \<times> route_entry"

definition build :: "registration list \<Rightarrow> node" where
  "build rs = fold (\<lambda>(m, p, e). RegisterRoute m p e) rs New"

text \<open>The entry registered last for a pattern and a method.\<close>

definition last_entry :: "registration list \<Rightarrow> pat list \<times> string \<Rightarrow> route_entry option" where
  "last_entry rs = map_of (rev (map (\<lambda>(m, p, e). ((pattern p, m), e)) rs))"

text \<open>Some registered pattern starts with \<open>q\<close>.\<close>

definition extends_some :: "registration list \<Rightarrow> pat list \<Rightarrow> bool" where
  "extends_some rs q \<longleftrightarrow> (\<exists>(m, p, e) \<in> set rs. prefix q (pattern p))"

text \<open>The name a parameter after \<open>q\<close> has: the one of the first route registered with it.\<close>

fun first_param :: "registration list \<Rightarrow> pat list \<Rightarrow> string option" where
  "first_param [] q = None"
| "first_param ((m, p, e) # rs) q =
     (if prefix (q @ [Par]) (pattern p) then Some (param_name (segments p ! length q))
      else first_param rs q)"

text \<open>A literal segment is preferred whenever some registered pattern has it there.\<close>

fun match :: "registration list \<Rightarrow> string list \<Rightarrow> pat list \<Rightarrow> params \<Rightarrow> (pat list \<times> params) option" where
  "match rs [] q ps = Some (q, ps)"
| "match rs (seg # segs) q ps =
     (if extends_some rs (q @ [Lit seg]) then match rs segs (q @ [Lit seg]) ps
      else (case first_param rs q of
              Some name \<Rightarrow> match rs segs (q @ [Par]) (ps(name \<mapsto> seg))
            | None \<Rightarrow> None))"

definition lookup_spec :: "string \<Rightarrow> string \<Rightarrow> registration list \<Rightarrow> lookup_result" where
  "lookup_spec method path rs =
     (case decode_segments (segments path) of
        None \<Rightarrow> RouteBadPath
      | Some segs \<Rightarrow>
          (case match rs segs [] Map.empty of
             None \<Rightarrow> RouteNotFound
           | Some (q, ps) \<Rightarrow>
               (case last_entry rs (q, method) of
                  Some e \<Rightarrow> RouteFound e ps
                | None \<Rightarrow>
                    (let methods = {m. last_entry rs (q, m) \<noteq> None}
                     in if methods = {} then RouteNotFound
                        else RouteMethodNotAllowed (sorted_list_of_set methods)))))"

lemma build_snoc: "build (rs @ [(m, p, e)]) = RegisterRoute m p e (build rs)"
  by (simp add: build_def)

lemma build_entry: "entry_at (build rs) = last_entry rs"
proof (induction rs rule: rev_induct)
  case Nil
  show ?case by (simp add: build_def last_entry_def New_def)
next
  case (snoc r rs)
  then show ?case
    by (cases r) (simp add: build_snoc rt.entries_register last_entry_def route_key_def)
qed

lemma build_live: "node_at q (build rs) \<noteq> None \<longleftrightarrow> q = [] \<or> extends_some rs q"
proof (induction rs rule: rev_induct)
  case Nil
  show ?case by (simp add: build_def extends_some_def New_def)
next
  case (snoc r rs)
  obtain m p e where r: "r = (m, p, e)" by (cases r)
  have "node_at q (build (rs @ [r])) \<noteq> None \<longleftrightarrow>
      node_at q (build rs) \<noteq> None \<or> prefix q (pattern p)"
    unfolding r build_snoc RegisterRoute_def pattern_def by (rule node_at_register)
  with snoc show ?case by (auto simp: extends_some_def r)
qed

lemma first_param_snoc:
  "first_param (rs @ [(m, p, e)]) q =
     (case first_param rs q of
        Some name \<Rightarrow> Some name
      | None \<Rightarrow> if prefix (q @ [Par]) (pattern p) then Some (param_name (segments p ! length q)) else None)"
  by (induction rs) auto

lemma build_param: "param_at (build rs) q = first_param rs q"
proof (induction rs rule: rev_induct)
  case Nil
  show ?case by (simp add: build_def New_def)
next
  case (snoc r rs)
  obtain m p e where r: "r = (m, p, e)" by (cases r)
  show ?case
    unfolding r build_snoc first_param_snoc RegisterRoute_def param_at_register pattern_def[symmetric] snoc
    by simp
qed

lemma build_wf: "wf_node (build rs)"
proof (induction rs rule: rev_induct)
  case Nil
  show ?case by (simp add: build_def New_def)
next
  case (snoc r rs)
  then show ?case by (cases r) (simp add: build_snoc RegisterRoute_def wf_register)
qed

lemma walk_build:
  assumes "node_at q (build rs) = Some n"
  shows "rel_option (\<lambda>(n', ps) (q', ps'). node_at q' (build rs) = Some n' \<and> ps = ps')
           (walk segs n ps) (match rs segs q ps)"
  using assms
proof (induction segs arbitrary: n q ps)
  case (Cons seg segs)
  show ?case
  proof (cases "map_of (staticChildren n) seg")
    case (Some c)
    then have c: "node_at (q @ [Lit seg]) (build rs) = Some c"
      using Cons.prems by (simp add: node_at_append)
    then have "extends_some rs (q @ [Lit seg])"
      using build_live[of "q @ [Lit seg]" rs] by simp
    with Cons.IH[OF c] Some show ?thesis by simp
  next
    case None
    then have none: "node_at (q @ [Lit seg]) (build rs) = None"
      using Cons.prems by (simp add: node_at_append)
    then have live: "\<not> extends_some rs (q @ [Lit seg])"
      using build_live[of "q @ [Lit seg]" rs] by simp
    have param: "first_param rs q = map_option fst (paramChild n)"
      using Cons.prems by (simp add: build_param[symmetric] param_at_def)
    show ?thesis
    proof (cases "paramChild n")
      case None
      with \<open>map_of (staticChildren n) seg = None\<close> live param show ?thesis by simp
    next
      case (Some nc)
      obtain name c where nc: "nc = (name, c)" by (cases nc)
      then have "node_at (q @ [Par]) (build rs) = Some c"
        using Cons.prems Some by (simp add: node_at_append)
      from Cons.IH[OF this, of "ps(name \<mapsto> seg)"] Some nc live param
        \<open>map_of (staticChildren n) seg = None\<close>
      show ?thesis by (simp del: fun_upd_apply)
    qed
  qed
qed simp

text \<open>
  (C18) The trie implements the list of its registrations. Whatever sequence of
  registrations built the table, \<^verbatim>\<open>Lookup\<close> answers as the specification does: it walks the
  registered patterns, preferring a literal segment to a parameter, gives parameters the names
  of the first route registered there, returns the entry registered last for the pattern and
  the method, and otherwise exactly the sorted methods the pattern has.
\<close>

theorem LookupRoute_refines: "LookupRoute method path (build rs) = lookup_spec method path rs"
proof (cases "decode_segments (segments path)")
  case None
  then show ?thesis by (simp add: LookupRoute_def lookup_spec_def)
next
  case (Some segs)
  have "rel_option (\<lambda>(n', ps) (q', ps'). node_at q' (build rs) = Some n' \<and> ps = ps')
      (walk segs (build rs) Map.empty) (match rs segs [] Map.empty)"
    by (rule walk_build) simp
  then show ?thesis
  proof (cases rule: option.rel_cases)
    case None
    with Some show ?thesis by (simp add: LookupRoute_def lookup_spec_def)
  next
    case (Some n_ps q_ps)
    then obtain n q ps where w: "walk segs (build rs) Map.empty = Some (n, ps)"
      "match rs segs [] Map.empty = Some (q, ps)" and n: "node_at q (build rs) = Some n"
      by auto
    have ent: "last_entry rs (q, m) = map_of (handlers n) m" for m
      using n by (simp add: build_entry[symmetric] entry_at_def)
    have methods: "{m. map_of (handlers n) m \<noteq> None} = dom (map_of (handlers n))"
      by auto
    have empty: "dom (map_of (handlers n)) = {} \<longleftrightarrow> handlers n = []"
      by simp
    have sorted: "sort (map fst (handlers n)) = sorted_list_of_set (dom (map_of (handlers n)))"
      by (rule handlers_methods[OF wf_node_at[OF build_wf n]])
    have "lookup_spec method path rs =
        (case map_of (handlers n) method of
           Some e \<Rightarrow> RouteFound e ps
         | None \<Rightarrow> if handlers n \<noteq> [] then RouteMethodNotAllowed (sort (map fst (handlers n)))
                   else RouteNotFound)"
      unfolding lookup_spec_def Let_def \<open>decode_segments (segments path) = Some segs\<close>
        option.case w(2) prod.case ent methods sorted empty
      by (cases "map_of (handlers n) method") simp_all
    then show ?thesis
      using w(1) \<open>decode_segments (segments path) = Some segs\<close> by (simp add: LookupRoute_def)
  qed
qed

end
