(* ===== verification/Route_Register_Props.thy ===== *)
theory Route_Register_Props
  imports Route_Register Route_Table_Props
begin

text \<open>
  What registration does to the table: it never replaces a route, it only adds routes of the
  module under the module's own prefix, explicit routes go in together or not at all, every
  declared operation ends up served, and no action route of a declared workflow transition
  escapes the transition's guards.
\<close>

section \<open>Tables that grow\<close>

definition own_entry :: "string \<Rightarrow> string \<Rightarrow> pat list \<times> string \<Rightarrow> route_entry \<Rightarrow> bool" where
  "own_entry moduleName moduleType k e \<longleftrightarrow>
     re_ModuleName e = moduleName \<and> fst k = pattern (re_PathTemplate e) \<and>
     prefix (ModulePathPrefix moduleName moduleType) (re_PathTemplate e)"

text \<open>
  Everything in the old table stays, what is new satisfies \<open>P\<close>, and the maps keep distinct keys.
\<close>

definition grows :: "(pat list \<times> string \<Rightarrow> route_entry \<Rightarrow> bool) \<Rightarrow> node \<Rightarrow> node \<Rightarrow> bool" where
  "grows P t t' \<longleftrightarrow>
     entry_at t \<subseteq>\<^sub>m entry_at t' \<and>
     (\<forall>k e. entry_at t' k = Some e \<longrightarrow> entry_at t k = None \<longrightarrow> P k e) \<and>
     (wf_node t \<longrightarrow> wf_node t')"

lemma grows_refl [simp]: "grows P t t"
  by (simp add: grows_def)

lemma grows_keeps: "\<lbrakk>grows P t t'; entry_at t k = Some e\<rbrakk> \<Longrightarrow> entry_at t' k = Some e"
  unfolding grows_def map_le_def by (metis domI)

lemma grows_wf: "\<lbrakk>grows P t t'; wf_node t\<rbrakk> \<Longrightarrow> wf_node t'"
  by (simp add: grows_def)

lemma grows_new: "\<lbrakk>grows P t t'; entry_at t' k = Some e; entry_at t k = None\<rbrakk> \<Longrightarrow> P k e"
  unfolding grows_def by blast

lemma growsI:
  "\<lbrakk>\<And>k e. entry_at t k = Some e \<Longrightarrow> entry_at t' k = Some e;
    \<And>k e. \<lbrakk>entry_at t' k = Some e; entry_at t k = None\<rbrakk> \<Longrightarrow> P k e;
    wf_node t \<Longrightarrow> wf_node t'\<rbrakk> \<Longrightarrow> grows P t t'"
  unfolding grows_def map_le_def by (metis domD)

lemma grows_trans:
  assumes "grows P t1 t2" "grows P t2 t3"
  shows "grows P t1 t3"
proof (rule growsI)
  fix k e
  assume "entry_at t1 k = Some e"
  with assms show "entry_at t3 k = Some e" by (metis grows_keeps)
next
  fix k e
  assume e: "entry_at t3 k = Some e" "entry_at t1 k = None"
  show "P k e"
  proof (cases "entry_at t2 k")
    case None
    with assms(2) e(1) show ?thesis by (rule grows_new)
  next
    case (Some e')
    with assms(2) e(1) have "e' = e" by (metis grows_keeps option.inject)
    with assms(1) Some e(2) show ?thesis by (simp add: grows_new)
  qed
next
  assume "wf_node t1"
  with assms show "wf_node t3" by (metis grows_wf)
qed

lemma key_of_simp [simp]: "rt.key_of (m, p, e) = route_key m p"
  by (simp add: rt.key_of_def)

lemma wf_RegisterRoute: "wf_node t \<Longrightarrow> wf_node (RegisterRoute m p e t)"
  by (simp add: RegisterRoute_def wf_register)

lemma grows_register:
  "\<lbrakk>\<not> Registered m p t; P (route_key m p) e\<rbrakk> \<Longrightarrow> grows P t (RegisterRoute m p e t)"
  by (auto simp: grows_def rt.registered_iff rt.entries_register map_le_def wf_RegisterRoute)

lemma grows_put_all:
  assumes "\<forall>r \<in> set rs. entry_at t (rt.key_of r) = None \<and> P (rt.key_of r) (snd (snd r))"
  shows "grows P t (fold rt.put rs t)"
proof (rule growsI)
  fix k e
  assume "entry_at t k = Some e"
  then show "entry_at (fold rt.put rs t) k = Some e"
    by (rule rt.put_all_keeps) (use assms in blast)
next
  fix k e
  assume "entry_at (fold rt.put rs t) k = Some e" "entry_at t k = None"
  then show "P k e"
    using rt.put_all_new[of rs t k e] assms by blast
next
  assume "wf_node t"
  then show "wf_node (fold rt.put rs t)"
    by (induction rs arbitrary: t) (auto simp: rt.put_def wf_RegisterRoute)
qed

lemma Registered_grows: "\<lbrakk>grows P t t'; Registered m p t\<rbrakk> \<Longrightarrow> Registered m p t'"
  unfolding rt.registered_iff by (metis grows_keeps not_None_eq)

section \<open>Explicit routes\<close>

lemma pend_cases:
  assumes "pend table mn mt r (scratch, rs) = Inr st"
  obtains ep where
    "ep = expanded_path mn mt (er_Path r)"
    "path_problem mn mt r ep = None"
    "\<not> Registered (er_Method r) ep scratch" "\<not> Registered (er_Method r) ep table"
    "st = (RegisterRoute (er_Method r) ep (explicit_entry mn ep r) scratch,
           rs @ [(er_Method r, ep, explicit_entry mn ep r)])"
  using assms by (auto simp: pend_def Let_def split: option.splits if_splits)

text \<open>The pending list of a run of the loop, in terms of the routes alone.\<close>

definition pending_of :: "string \<Rightarrow> string \<Rightarrow> explicit_route \<Rightarrow> pending" where
  "pending_of mn mt r =
     (let ep = expanded_path mn mt (er_Path r) in (er_Method r, ep, explicit_entry mn ep r))"

definition scratch_ok :: "node \<Rightarrow> node \<times> pending list \<Rightarrow> bool" where
  "scratch_ok table st \<longleftrightarrow>
     dom (entry_at (fst st)) = rt.key_of ` set (snd st) \<and> distinct (map rt.key_of (snd st)) \<and>
     (\<forall>r \<in> set (snd st). entry_at table (rt.key_of r) = None)"

lemma pend_ok:
  assumes "pend table mn mt r st = Inr st'" "scratch_ok table st"
  shows "scratch_ok table st' \<and> snd st' = snd st @ [pending_of mn mt r] \<and>
    path_problem mn mt r (expanded_path mn mt (er_Path r)) = None"
proof -
  obtain scratch rs where st: "st = (scratch, rs)" by (cases st)
  from assms(1)[unfolded st] show ?thesis
  proof (cases rule: pend_cases)
    case (1 ep)
    let ?r = "(er_Method r, ep, explicit_entry mn ep r)"
    have "rt.key_of ?r \<notin> rt.key_of ` set rs" "entry_at table (rt.key_of ?r) = None"
      using 1(3,4) assms(2) by (auto simp: st scratch_ok_def rt.registered_iff)
    then show ?thesis
      using assms(2) 1(1,2,5)
      by (auto simp: st scratch_ok_def rt.entries_register pending_of_def Let_def)
  qed
qed

lemma pend_all:
  assumes "fold_res (pend table mn mt) routes st = Inr st'" "scratch_ok table st"
  shows "scratch_ok table st' \<and> snd st' = snd st @ map (pending_of mn mt) routes \<and>
    (\<forall>r \<in> set routes. path_problem mn mt r (expanded_path mn mt (er_Path r)) = None)"
  using assms
proof (induction routes arbitrary: st)
  case (Cons r routes)
  then obtain st1 where step: "pend table mn mt r st = Inr st1"
    and rest: "fold_res (pend table mn mt) routes st1 = Inr st'"
    by (auto split: sum.splits)
  note one = pend_ok[OF step Cons.prems(2)]
  from Cons.IH[OF rest] one show ?case by simp
qed simp

lemma scratch_ok_start [simp]: "scratch_ok table (New, [])"
  by (simp add: scratch_ok_def New_def)

lemma put_eq: "(\<lambda>(m, p, e). RegisterRoute m p e) = rt.put"
  by (auto simp: rt.put_def fun_eq_iff)

lemma own_explicit: "own_entry mn mt (rt.key_of (pending_of mn mt r)) (snd (snd (pending_of mn mt r)))"
  by (auto simp: own_entry_def pending_of_def Let_def route_key_def explicit_entry_def
      expanded_path_def)

lemma RegisterModuleRoutes_cases:
  obtains (error) e where "RegisterModuleRoutes mn mt routes t = (t, Some e)"
  | (registered) "RegisterModuleRoutes mn mt routes t = (fold rt.put (map (pending_of mn mt) routes) t, None)"
      "distinct (map rt.key_of (map (pending_of mn mt) routes))"
      "\<forall>r \<in> set (map (pending_of mn mt) routes). entry_at t (rt.key_of r) = None"
      "\<forall>r \<in> set routes. path_problem mn mt r (expanded_path mn mt (er_Path r)) = None"
proof (cases "fold_res (pend t mn mt) routes (New, [])")
  case (Inl e)
  then show ?thesis by (intro error) (simp add: RegisterModuleRoutes_def)
next
  case (Inr st)
  note all = pend_all[OF Inr scratch_ok_start]
  obtain sc rs where st: "st = (sc, rs)" by (cases st)
  show ?thesis
    using all Inr by (intro registered) (auto simp: RegisterModuleRoutes_def st scratch_ok_def put_eq)
qed

lemma RegisterModuleRoutes_grows:
  assumes "\<forall>r \<in> set routes. P (rt.key_of (pending_of mn mt r)) (snd (snd (pending_of mn mt r)))"
  shows "grows P t (fst (RegisterModuleRoutes mn mt routes t))"
proof (cases rule: RegisterModuleRoutes_cases[of mn mt routes t])
  case (error e)
  then show ?thesis by simp
next
  case registered
  show ?thesis
    unfolding registered(1) fst_conv by (rule grows_put_all) (use registered(3) assms in auto)
qed

section \<open>Derived routes\<close>

lemma derive_op_cases:
  assumes "derive_op inflect mn mt ca (md, oper) s = (s', r)"
    and "deriveCRUDPath inflect md (op_Name oper) = (m, rel)"
  obtains (error) e where "r = Some e" "s' = s"
  | (suppressed) "r = None" "ds_table s' = ds_table s"
      "actionClaimed ca mn md (op_Name oper) \<or> Registered m (ModulePathPrefix mn mt @ rel) (ds_table s)"
  | (registered) "r = None"
      "ds_table s' = RegisterRoute m (ModulePathPrefix mn mt @ rel)
         (op_entry mn (ModulePathPrefix mn mt @ rel) md oper) (ds_table s)"
      "\<not> Registered m (ModulePathPrefix mn mt @ rel) (ds_table s)"
  using assms by (auto simp: derive_op_def Let_def split: option.splits if_splits)

definition transition_path :: "(string \<Rightarrow> string) \<Rightarrow> string \<Rightarrow> string \<Rightarrow> model_declaration \<Rightarrow> string \<Rightarrow> string" where
  "transition_path inflect mn mt md action =
     ModulePathPrefix mn mt @ ''/'' @ pluralPathSegment inflect md @ ''/{id}/'' @ action"

lemma derive_transition_cases:
  assumes "derive_transition inflect mn mt ca (md, f, t) s = (s', r)"
  obtains (error) e where "r = Some e" "s' = s"
  | (suppressed) "r = None" "ds_table s' = ds_table s"
      "actionClaimed ca mn md (wt_ActionName t) \<or>
       Registered ''POST'' (transition_path inflect mn mt md (wt_ActionName t)) (ds_table s)"
  | (registered) w where "r = None" "compileCondition (transition_manifest f t) = Inr w"
      "ds_table s' = RegisterRoute ''POST'' (transition_path inflect mn mt md (wt_ActionName t))
         (action_entry mn (transition_path inflect mn mt md (wt_ActionName t)) md t w) (ds_table s)"
      "\<not> Registered ''POST'' (transition_path inflect mn mt md (wt_ActionName t)) (ds_table s)"
  using assms unfolding derive_transition_def transition_path_def Let_def prod.case
  by (auto split: option.splits if_splits sum.splits)

text \<open>A property of new entries that derived operations have.\<close>

lemma RegisterModelRoutes_grows:
  assumes "\<And>md oper k p. \<lbrakk>md \<in> set models; oper \<in> set (md_EnabledOps md); fst k = pattern p;
      prefix (ModulePathPrefix mn mt) p\<rbrakk> \<Longrightarrow> P k (op_entry mn p md oper)"
    and "RegisterModelRoutes inflect mn mt models t = (t', sp, r)"
  shows "grows P t t'"
proof -
  let ?body = "derive_op inflect mn mt (explicitActionIdentities t mn)"
  obtain s where run: "each ?body (enabled_ops models) (derive_start t) = (s, r)" and t': "t' = ds_table s"
    using assms(2) by (auto simp: RegisterModelRoutes_def split: prod.splits)
  have "grows P t (ds_table s)"
  proof (rule each_invariant[where I = "\<lambda>s. grows P t (ds_table s)", OF _ _ run])
    fix x s s' r
    assume x: "x \<in> set (enabled_ops models)" and I: "grows P t (ds_table s)" and b: "?body x s = (s', r)"
    obtain md oper where x': "x = (md, oper)" by (cases x)
    obtain m rel where d: "deriveCRUDPath inflect md (op_Name oper) = (m, rel)"
      by (cases "deriveCRUDPath inflect md (op_Name oper)")
    from x x' have mem: "md \<in> set models" "oper \<in> set (md_EnabledOps md)"
      by (auto simp: enabled_ops_def)
    from b[unfolded x'] d show "grows P t (ds_table s')"
    proof (cases rule: derive_op_cases)
      case registered
      have "P (route_key m (ModulePathPrefix mn mt @ rel)) (op_entry mn (ModulePathPrefix mn mt @ rel) md oper)"
        by (rule assms(1)[OF mem]) (simp_all add: route_key_def)
      with registered have "grows P (ds_table s) (ds_table s')"
        by (simp add: grows_register)
      with I show ?thesis by (rule grows_trans)
    qed (use I in simp_all)
  qed (simp add: derive_start_def)
  with t' show ?thesis by simp
qed

lemma RegisterModelWorkflowActions_grows:
  assumes "\<And>md f t w k p. \<lbrakk>md \<in> set models; (f, t) \<in> set (transitions md);
      compileCondition (transition_manifest f t) = Inr w; fst k = pattern p;
      prefix (ModulePathPrefix mn mt) p\<rbrakk> \<Longrightarrow> P k (action_entry mn p md t w)"
    and "RegisterModelWorkflowActions inflect mn mt models tb = (tb', sp, r)"
  shows "grows P tb tb'"
proof -
  let ?body = "derive_transition inflect mn mt (explicitActionIdentities tb mn)"
  obtain s where run: "each ?body (declared_transitions models) (derive_start tb) = (s, r)"
    and tb': "tb' = ds_table s"
    using assms(2) by (auto simp: RegisterModelWorkflowActions_def split: prod.splits)
  have "grows P tb (ds_table s)"
  proof (rule each_invariant[where I = "\<lambda>s. grows P tb (ds_table s)", OF _ _ run])
    fix x s s' r
    assume x: "x \<in> set (declared_transitions models)" and I: "grows P tb (ds_table s)"
      and b: "?body x s = (s', r)"
    obtain md f t where x': "x = (md, f, t)" by (cases x)
    from x x' have mem: "md \<in> set models" "(f, t) \<in> set (transitions md)"
      by (auto simp: declared_transitions_def)
    from b[unfolded x'] show "grows P tb (ds_table s')"
    proof (cases rule: derive_transition_cases)
      case (registered w)
      let ?p = "transition_path inflect mn mt md (wt_ActionName t)"
      have "P (route_key ''POST'' ?p) (action_entry mn ?p md t w)"
        by (rule assms(1)[OF mem registered(2)]) (simp_all add: route_key_def transition_path_def)
      with registered have "grows P (ds_table s) (ds_table s')"
        by (simp add: grows_register)
      with I show ?thesis by (rule grows_trans)
    qed (use I in simp_all)
  qed (simp add: derive_start_def)
  with tb' show ?thesis by simp
qed

text \<open>The three phases together.\<close>

lemma RegisterRoutes_grows:
  assumes "\<And>rs r. \<lbrakk>resolveActionRoutes inflect mn explicit models = Inr rs; r \<in> set rs\<rbrakk> \<Longrightarrow>
      P (rt.key_of (pending_of mn mt r)) (snd (snd (pending_of mn mt r)))"
    and "\<And>md oper k p. \<lbrakk>md \<in> set models; oper \<in> set (md_EnabledOps md); fst k = pattern p;
      prefix (ModulePathPrefix mn mt) p\<rbrakk> \<Longrightarrow> P k (op_entry mn p md oper)"
    and "\<And>md f t w k p. \<lbrakk>md \<in> set models; (f, t) \<in> set (transitions md);
      compileCondition (transition_manifest f t) = Inr w; fst k = pattern p;
      prefix (ModulePathPrefix mn mt) p\<rbrakk> \<Longrightarrow> P k (action_entry mn p md t w)"
  shows "grows P tb (fst (RegisterRoutes inflect mn mt explicit models tb))"
proof (cases "resolveActionRoutes inflect mn explicit models")
  case (Inl e)
  then show ?thesis by (simp add: RegisterRoutes_def)
next
  case (Inr rs)
  obtain t1 r1 where one: "RegisterModuleRoutes mn mt rs tb = (t1, r1)"
    by (cases "RegisterModuleRoutes mn mt rs tb")
  obtain t2 s2 r2 where two: "RegisterModelRoutes inflect mn mt models t1 = (t2, s2, r2)"
    by (cases "RegisterModelRoutes inflect mn mt models t1")
  obtain t3 s3 r3 where three: "RegisterModelWorkflowActions inflect mn mt models t2 = (t3, s3, r3)"
    by (cases "RegisterModelWorkflowActions inflect mn mt models t2")
  have g1: "grows P tb t1"
    using RegisterModuleRoutes_grows[of rs P mn mt tb] assms(1)[OF Inr] one by simp
  have "grows P t1 t2"
    by (rule RegisterModelRoutes_grows[where P = P, OF _ two]) (rule assms(2))
  with g1 have g2: "grows P tb t2" by (rule grows_trans)
  have "grows P t2 t3"
    by (rule RegisterModelWorkflowActions_grows[where P = P, OF _ three]) (rule assms(3))
  with g2 have g3: "grows P tb t3" by (rule grows_trans)
  from g1 g2 g3 show ?thesis
    by (simp add: RegisterRoutes_def Inr one two three split: option.splits)
qed

section \<open>Action routes keep the guards of the transitions they stand for\<close>

text \<open>The entry is guarded as the declared transition \<open>t\<close> of field \<open>f\<close> demands.\<close>

definition guarded_by :: "route_manifest \<Rightarrow> named_field \<Rightarrow> workflow_transition \<Rightarrow> bool" where
  "guarded_by m f t \<longleftrightarrow>
     rm_Auth m = ''required'' \<and> rm_Permissions m = permission_list (wt_Permission t) \<and>
     (\<exists>w. compileCondition (transition_manifest f t) = Inr w \<and> rm_Workflow m = Some w)"

definition transition_guard :: "string \<Rightarrow> model_declaration list \<Rightarrow> route_entry \<Rightarrow> bool" where
  "transition_guard mn models e \<longleftrightarrow>
     (\<forall>md \<in> set models. QualifiedName md mn = rm_Model (re_Manifest e) \<longrightarrow>
        rm_Name (re_Manifest e) \<in> (wt_ActionName \<circ> snd) ` set (transitions md) \<longrightarrow>
        rm_Name (re_Manifest e) \<noteq> [] \<longrightarrow>
        (\<exists>(f, t) \<in> set (transitions md). wt_ActionName t = rm_Name (re_Manifest e) \<and>
           guarded_by (re_Manifest e) f t))"

lemma modelWorkflow_Some:
  "modelWorkflow md a = Some (w, p) \<Longrightarrow>
     \<exists>(f, t) \<in> set (transitions md). wt_ActionName t = a \<and> w = transition_manifest f t \<and> p = wt_Permission t"
  unfolding modelWorkflow_def by (force simp: find_Some_iff in_set_conv_nth)

lemma modelWorkflow_None: "modelWorkflow md a = None \<longleftrightarrow> a \<notin> (wt_ActionName \<circ> snd) ` set (transitions md)"
  unfolding modelWorkflow_def by (force simp: find_None_iff)

lemma declared_models_in:
  assumes "distinct (map (\<lambda>md. QualifiedName md mn) models)" "md \<in> set models"
  shows "declared_models mn models (QualifiedName md mn) = Some md"
proof -
  have "distinct (map fst (rev (map (\<lambda>md. (QualifiedName md mn, md)) models)))"
    using assms(1) by (simp add: comp_def rev_map[symmetric])
  then show ?thesis
    using assms(2) unfolding declared_models_def by (intro map_of_is_SomeI) auto
qed

text \<open>A resolved action route, with the transition it overrides, if any.\<close>

definition resolved_ok :: "(string \<rightharpoonup> model_declaration) \<Rightarrow> explicit_route \<Rightarrow> bool" where
  "resolved_ok declared r \<longleftrightarrow>
     er_Name r = [] \<or>
     (\<exists>md. declared (er_Model r) = Some md \<and>
        (case modelWorkflow md (er_Name r) of
           None \<Rightarrow> True
         | Some (w, p) \<Rightarrow> er_Auth r = ''required'' \<and> er_Permissions r = permission_list p \<and>
             (\<exists>w'. compileCondition w = Inr w' \<and> er_Workflow r = Some w')))"

lemma bind_transition_keeps:
  "bind_transition md r = Inr r' \<Longrightarrow> er_Name r' = er_Name r \<and> er_Model r' = er_Model r"
  by (auto simp: bind_transition_def map_sum_Inr_iff split: option.splits if_splits)

lemma bind_transition_ok:
  assumes "bind_transition md r = Inr r'" "modelWorkflow md (er_Name r) = Some (w, p)"
  shows "er_Auth r' = ''required'' \<and> er_Permissions r' = permission_list p \<and>
    (\<exists>w'. compileCondition w = Inr w' \<and> er_Workflow r' = Some w')"
  using assms by (auto simp: bind_transition_def map_sum_Inr_iff split: option.splits if_splits)

lemma resolve_action_ok:
  assumes "resolve_action inflect declared r (rs, seen) = Inr (rs', seen')"
  shows "\<exists>r'. rs' = rs @ [r'] \<and> resolved_ok declared r'"
proof (cases "isActionRoute r")
  case False
  with assms show ?thesis
    by (auto simp: resolve_action_def isActionRoute_def resolved_ok_def split: if_splits)
next
  case True
  with assms obtain md r1 m p ps where md: "declared (er_Model r) = Some md"
    and r1: "bind_transition md r = Inr r1"
    and rs': "rs' = rs @ [r1\<lparr>er_Method := m, er_Path := p, er_PathParams := ps\<rparr>]"
    by (auto simp: resolve_action_def and_then_Inr_iff map_sum_Inr_iff split: if_splits option.splits)
  have "resolved_ok declared (r1\<lparr>er_Method := m, er_Path := p, er_PathParams := ps\<rparr>)"
    using md bind_transition_keeps[OF r1] bind_transition_ok[OF r1]
    by (auto simp: resolved_ok_def split: option.splits)
  with rs' show ?thesis by blast
qed

lemma resolve_loop_ok:
  assumes "fold_res (resolve_action inflect declared) explicit st = Inr st'"
    and "\<forall>r \<in> set (fst st). resolved_ok declared r"
  shows "\<forall>r \<in> set (fst st'). resolved_ok declared r"
  using assms
proof (induction explicit arbitrary: st)
  case (Cons r explicit)
  obtain rs seen where st: "st = (rs, seen)" by (cases st)
  from Cons.prems(1) obtain rs1 seen1 where
    step: "resolve_action inflect declared r (rs, seen) = Inr (rs1, seen1)"
    and rest: "fold_res (resolve_action inflect declared) explicit (rs1, seen1) = Inr st'"
    by (auto simp: st split: sum.splits)
  from resolve_action_ok[OF step] Cons.prems(2) have "\<forall>r \<in> set (fst (rs1, seen1)). resolved_ok declared r"
    by (auto simp: st)
  with rest show ?case by (rule Cons.IH)
qed simp

lemma resolveActionRoutes_ok:
  assumes "resolveActionRoutes inflect mn explicit models = Inr rs" "r \<in> set rs"
  shows "resolved_ok (declared_models mn models) r"
proof (cases "list_ex (\<lambda>r. isActionRoute r \<or> er_Transition r \<noteq> None) explicit")
  case False
  with assms have "\<not> isActionRoute r"
    by (auto simp: resolveActionRoutes_def list_ex_iff)
  then show ?thesis by (simp add: resolved_ok_def isActionRoute_def)
next
  case True
  with assms(1) obtain seen where
    "fold_res (resolve_action inflect (declared_models mn models)) explicit ([], {}) = Inr (rs, seen)"
    by (auto simp: resolveActionRoutes_def map_sum_Inr_iff)
  from resolve_loop_ok[OF this] assms(2) show ?thesis by simp
qed

lemma explicit_guard:
  assumes "resolved_ok (declared_models mn models) r"
    and "distinct (map (\<lambda>md. QualifiedName md mn) models)"
  shows "transition_guard mn models (explicit_entry mn ep r)"
  unfolding transition_guard_def
proof (intro ballI impI)
  let ?m = "re_Manifest (explicit_entry mn ep r)"
  fix md
  assume md: "md \<in> set models" "QualifiedName md mn = rm_Model ?m"
    and act: "rm_Name ?m \<in> (wt_ActionName \<circ> snd) ` set (transitions md)" "rm_Name ?m \<noteq> []"
  have m: "rm_Model ?m = er_Model r" "rm_Name ?m = er_Name r" "rm_Auth ?m = er_Auth r"
    "rm_Permissions ?m = er_Permissions r" "rm_Workflow ?m = er_Workflow r"
    by (simp_all add: explicit_entry_def)
  from declared_models_in[OF assms(2) md(1)] md(2) m(1)
  have decl: "declared_models mn models (er_Model r) = Some md" by simp
  from act(1) m(2) obtain w p where mw: "modelWorkflow md (er_Name r) = Some (w, p)"
    using modelWorkflow_None[of md "er_Name r"] by (cases "modelWorkflow md (er_Name r)") auto
  with assms(1) decl act(2) m have "rm_Auth ?m = ''required''" "rm_Permissions ?m = permission_list p"
    "\<exists>w'. compileCondition w = Inr w' \<and> rm_Workflow ?m = Some w'"
    by (auto simp: resolved_ok_def)
  with modelWorkflow_Some[OF mw] m(2)
  show "\<exists>(f, t) \<in> set (transitions md). wt_ActionName t = rm_Name ?m \<and> guarded_by ?m f t"
    by (auto simp: guarded_by_def)
qed

lemma action_guard:
  assumes "md \<in> set models" "(f, t) \<in> set (transitions md)"
    "compileCondition (transition_manifest f t) = Inr w"
    and "distinct (map (\<lambda>md. QualifiedName md mn) models)"
  shows "transition_guard mn models (action_entry mn p md t w)"
proof -
  have "md' = md" if "md' \<in> set models" "QualifiedName md' mn = QualifiedName md mn" for md'
    using that assms(1,4) by (auto simp: distinct_map dest: inj_onD)
  with assms show ?thesis
    by (auto simp: transition_guard_def action_entry_def guarded_by_def intro!: bexI[of _ "(f, t)"])
qed

section \<open>Every declared operation is served\<close>

text \<open>The key is taken, or the module registered its own action under that name.\<close>

definition served :: "string \<Rightarrow> node \<Rightarrow> string \<Rightarrow> string \<Rightarrow> model_declaration \<Rightarrow> string \<Rightarrow> bool" where
  "served mn t method path md action \<longleftrightarrow>
     Registered method path t \<or>
     (\<exists>k e. entry_at t k = Some e \<and> re_ModuleName e = mn \<and> \<not> rm_EngineNative (re_Manifest e) \<and>
        rm_Model (re_Manifest e) = QualifiedName md mn \<and> rm_Name (re_Manifest e) = action)"

lemma served_grows: "\<lbrakk>grows P t t'; served mn t m p md a\<rbrakk> \<Longrightarrow> served mn t' m p md a"
  unfolding served_def by (metis Registered_grows grows_keeps)

lemma claimed_served:
  assumes "wf_node t" "actionClaimed (explicitActionIdentities t mn) mn md a"
  shows "served mn t m p md a"
proof -
  from assms(2) obtain meth e where e: "(meth, e) \<in> set (collectAll t)"
    "re_ModuleName e = mn" "\<not> rm_EngineNative (re_Manifest e)"
    "rm_Model (re_Manifest e) = QualifiedName md mn" "rm_Name (re_Manifest e) = a"
    by (auto simp: actionClaimed_def explicitActionIdentities_def AllRoutes_def)
  from set_collectAll[OF assms(1)] e(1) obtain q where "entry_at t (q, meth) = Some e" by blast
  with e(2-) show ?thesis unfolding served_def by blast
qed

lemma derive_op_grows:
  assumes "derive_op inflect mn mt ca x s = (s', r)"
  shows "grows (\<lambda>_ _. True) (ds_table s) (ds_table s')"
proof -
  obtain md oper where x: "x = (md, oper)" by (cases x)
  obtain m rel where d: "deriveCRUDPath inflect md (op_Name oper) = (m, rel)"
    by (cases "deriveCRUDPath inflect md (op_Name oper)")
  from assms[unfolded x] d show ?thesis
    by (cases rule: derive_op_cases) (simp_all add: grows_register)
qed

lemma derive_transition_grows:
  assumes "derive_transition inflect mn mt ca x s = (s', r)"
  shows "grows (\<lambda>_ _. True) (ds_table s) (ds_table s')"
proof -
  obtain md f t where x: "x = (md, f, t)" by (cases x)
  from assms[unfolded x] show ?thesis
    by (cases rule: derive_transition_cases) (simp_all add: grows_register)
qed

lemma RegisterModelRoutes_served:
  assumes "RegisterModelRoutes inflect mn mt models t = (t', sp, None)" "wf_node t"
    and "md \<in> set models" "oper \<in> set (md_EnabledOps md)"
    and d: "deriveCRUDPath inflect md (op_Name oper) = (m, rel)"
  shows "served mn t' m (ModulePathPrefix mn mt @ rel) md (op_Name oper)"
proof -
  let ?ca = "explicitActionIdentities t mn"
  let ?body = "derive_op inflect mn mt ?ca"
  let ?Q = "\<lambda>(md, oper) s. actionClaimed ?ca mn md (op_Name oper) \<or>
      (case deriveCRUDPath inflect md (op_Name oper) of
         (m, rel) \<Rightarrow> Registered m (ModulePathPrefix mn mt @ rel) (ds_table s))"
  obtain s where run: "each ?body (enabled_ops models) (derive_start t) = (s, None)" and t': "t' = ds_table s"
    using assms(1) by (auto simp: RegisterModelRoutes_def split: prod.splits)
  have "\<forall>x \<in> set (enabled_ops models). ?Q x s"
  proof (rule each_done[OF _ _ run])
    fix x s s'
    assume b: "?body x s = (s', None)"
    obtain md oper where x: "x = (md, oper)" by (cases x)
    obtain m rel where d: "deriveCRUDPath inflect md (op_Name oper) = (m, rel)"
      by (cases "deriveCRUDPath inflect md (op_Name oper)")
    from b[unfolded x] d show "?Q x s'"
      by (cases rule: derive_op_cases) (auto simp: x d rt.registered_iff rt.entries_register)
  next
    fix x y s s' r
    assume "?Q y s" "?body x s = (s', r)"
    then show "?Q y s'" using derive_op_grows Registered_grows by fastforce
  qed
  moreover have "(md, oper) \<in> set (enabled_ops models)"
    using assms(3,4) by (auto simp: enabled_ops_def)
  ultimately have "actionClaimed ?ca mn md (op_Name oper) \<or> Registered m (ModulePathPrefix mn mt @ rel) t'"
    using d t' by fastforce
  moreover have "grows (\<lambda>_ _. True) t t'"
    by (rule RegisterModelRoutes_grows[where P = "\<lambda>_ _. True", OF _ assms(1)]) simp
  ultimately show ?thesis
    by (metis claimed_served[OF assms(2)] served_grows served_def)
qed

lemma RegisterModelWorkflowActions_served:
  assumes "RegisterModelWorkflowActions inflect mn mt models t = (t', sp, None)" "wf_node t"
    and "md \<in> set models" "(f, tr) \<in> set (transitions md)"
  shows "served mn t' ''POST'' (transition_path inflect mn mt md (wt_ActionName tr)) md (wt_ActionName tr)"
proof -
  let ?ca = "explicitActionIdentities t mn"
  let ?body = "derive_transition inflect mn mt ?ca"
  let ?Q = "\<lambda>(md, f, tr) s. actionClaimed ?ca mn md (wt_ActionName tr) \<or>
      Registered ''POST'' (transition_path inflect mn mt md (wt_ActionName tr)) (ds_table s)"
  obtain s where run: "each ?body (declared_transitions models) (derive_start t) = (s, None)"
    and t': "t' = ds_table s"
    using assms(1) by (auto simp: RegisterModelWorkflowActions_def split: prod.splits)
  have "\<forall>x \<in> set (declared_transitions models). ?Q x s"
  proof (rule each_done[OF _ _ run])
    fix x s s'
    assume b: "?body x s = (s', None)"
    obtain md f tr where x: "x = (md, f, tr)" by (cases x)
    from b[unfolded x] show "?Q x s'"
      by (cases rule: derive_transition_cases) (auto simp: x rt.registered_iff rt.entries_register)
  next
    fix x y s s' r
    assume "?Q y s" "?body x s = (s', r)"
    then show "?Q y s'" using derive_transition_grows Registered_grows by fastforce
  qed
  moreover have "(md, f, tr) \<in> set (declared_transitions models)"
    using assms(3,4) by (auto simp: declared_transitions_def)
  ultimately have "actionClaimed ?ca mn md (wt_ActionName tr) \<or>
      Registered ''POST'' (transition_path inflect mn mt md (wt_ActionName tr)) t'"
    using t' by fastforce
  moreover have "grows (\<lambda>_ _. True) t t'"
    by (rule RegisterModelWorkflowActions_grows[where P = "\<lambda>_ _. True", OF _ assms(1)]) simp
  ultimately show ?thesis
    by (metis claimed_served[OF assms(2)] served_grows served_def)
qed

lemma RegisterRoutes_phases:
  assumes "RegisterRoutes inflect mn mt explicit models t = (t', Inr sp)"
  obtains rs t1 t2 s2 s3 where "resolveActionRoutes inflect mn explicit models = Inr rs"
    "RegisterModuleRoutes mn mt rs t = (t1, None)"
    "RegisterModelRoutes inflect mn mt models t1 = (t2, s2, None)"
    "RegisterModelWorkflowActions inflect mn mt models t2 = (t', s3, None)" "sp = s2 @ s3"
  using assms unfolding RegisterRoutes_def
  by (auto split: sum.splits prod.splits option.splits)

text \<open>The checks a registered explicit route has passed.\<close>

definition path_ok :: "string \<Rightarrow> string \<Rightarrow> string \<Rightarrow> bool" where
  "path_ok moduleType path expandedPath \<longleftrightarrow>
     (let first = hd (split_on (CHR ''/'') (normalizePath expandedPath))
      in hd path = CHR ''/'' \<and> ''.'' \<notin> set (segments path) \<and> ''..'' \<notin> set (segments path) \<and>
         \<not> prefix ''_'' first \<and> first \<notin> {''auth'', ''admin'', ''storage'', ''modules'', ''users''} \<and>
         (first = ''connectors'' \<longrightarrow> moduleType = ''connector''))"

lemma path_problem_None:
  "path_problem mn mt r ep = None \<Longrightarrow> path_ok mt (er_Path r) ep"
  by (auto simp: path_problem_def path_ok_def Let_def has_prefix_def reserved_namespaces_def
      split: if_splits option.splits)

text \<open>
  (C22) Registration is conservative. Whatever a module declares, and also when registration
  fails half-way, no route already in the table is lost or replaced; every new entry belongs to
  the module, carries the path it is found under, and lies under the module's own path prefix.
\<close>

theorem RegisterRoutes_conservative:
  "entry_at t \<subseteq>\<^sub>m entry_at (fst (RegisterRoutes inflect moduleName moduleType explicit models t)) \<and>
    (\<forall>k e. entry_at (fst (RegisterRoutes inflect moduleName moduleType explicit models t)) k = Some e \<longrightarrow>
       entry_at t k = None \<longrightarrow>
       re_ModuleName e = moduleName \<and> fst k = pattern (re_PathTemplate e) \<and>
       prefix (ModulePathPrefix moduleName moduleType) (re_PathTemplate e))"
proof -
  have "grows (own_entry moduleName moduleType) t
      (fst (RegisterRoutes inflect moduleName moduleType explicit models t))"
    by (rule RegisterRoutes_grows, rule own_explicit)
       (auto simp: own_entry_def op_entry_def action_entry_def)
  then show ?thesis unfolding grows_def own_entry_def by blast
qed

text \<open>
  (C27) Explicit routes are registered together or not at all. On an error the table is the one
  before the call. Otherwise every declared route is found under its expanded path with exactly
  its declaration, at a key that was free; no other key of the table changes; and no path has a
  dot segment or enters a namespace of the engine.
\<close>

theorem RegisterModuleRoutes_exact:
  "case RegisterModuleRoutes moduleName moduleType routes t of
     (t', Some e) \<Rightarrow> t' = t
   | (t', None) \<Rightarrow>
       (\<forall>r \<in> set routes.
          let path = expanded_path moduleName moduleType (er_Path r);
              k = route_key (er_Method r) path
          in entry_at t k = None \<and> entry_at t' k = Some (explicit_entry moduleName path r) \<and>
             path_ok moduleType (er_Path r) path) \<and>
       (\<forall>k. k \<notin> (\<lambda>r. route_key (er_Method r) (expanded_path moduleName moduleType (er_Path r))) ` set routes \<longrightarrow>
          entry_at t' k = entry_at t k)"
proof (cases rule: RegisterModuleRoutes_cases[of moduleName moduleType routes t])
  case (error e)
  then show ?thesis by simp
next
  case registered
  let ?rs = "map (pending_of moduleName moduleType) routes"
  have key: "rt.key_of (pending_of moduleName moduleType r) =
      route_key (er_Method r) (expanded_path moduleName moduleType (er_Path r))"
    and val: "snd (snd (pending_of moduleName moduleType r)) =
      explicit_entry moduleName (expanded_path moduleName moduleType (er_Path r)) r" for r
    by (simp_all add: pending_of_def Let_def)
  have "entry_at (fold rt.put ?rs t) (rt.key_of (pending_of moduleName moduleType r)) =
      Some (snd (snd (pending_of moduleName moduleType r)))" if "r \<in> set routes" for r
    using that registered(2) by (intro rt.put_all_adds) auto
  moreover have "entry_at (fold rt.put ?rs t) k = entry_at t k"
    if "k \<notin> (\<lambda>r. rt.key_of (pending_of moduleName moduleType r)) ` set routes" for k
  proof -
    from that have "map_of (rev (map (\<lambda>r. (rt.key_of r, snd (snd r))) ?rs)) k = None"
      by (auto simp: map_of_eq_None_iff image_iff)
    then show ?thesis by (simp add: rt.entries_put_all map_add_def)
  qed
  ultimately show ?thesis
    using registered(1,3,4) by (auto simp: key val Let_def path_problem_None)
qed

text \<open>
  (C28) No declared operation is silently dropped. When registration succeeds on a well-formed
  table, every operation a model enables and every workflow transition it declares is served:
  there is a route at the path derived for it, or the module registered an action of that name
  for that model itself.
\<close>

theorem RegisterRoutes_complete:
  assumes "RegisterRoutes inflect moduleName moduleType explicit models t = (t', Inr sp)"
    and "wf_node t" and "md \<in> set models"
  shows "(\<forall>oper \<in> set (md_EnabledOps md).
       case deriveCRUDPath inflect md (op_Name oper) of (m, rel) \<Rightarrow>
         served moduleName t' m (ModulePathPrefix moduleName moduleType @ rel) md (op_Name oper)) \<and>
    (\<forall>(f, tr) \<in> set (transitions md).
       served moduleName t' ''POST''
         (ModulePathPrefix moduleName moduleType @ ''/'' @ pluralPathSegment inflect md @ ''/{id}/'' @
            wt_ActionName tr) md (wt_ActionName tr))"
proof -
  from assms(1) obtain rs t1 t2 s2 s3 where ph:
    "RegisterModuleRoutes moduleName moduleType rs t = (t1, None)"
    "RegisterModelRoutes inflect moduleName moduleType models t1 = (t2, s2, None)"
    "RegisterModelWorkflowActions inflect moduleName moduleType models t2 = (t', s3, None)"
    by (rule RegisterRoutes_phases)
  have wf1: "wf_node t1"
    using RegisterModuleRoutes_grows[of rs "\<lambda>_ _. True" moduleName moduleType t] ph(1) assms(2)
    by (simp add: grows_def)
  have g2: "grows (\<lambda>_ _. True) t1 t2"
    by (rule RegisterModelRoutes_grows[where P = "\<lambda>_ _. True", OF _ ph(2)]) simp
  have g3: "grows (\<lambda>_ _. True) t2 t'"
    by (rule RegisterModelWorkflowActions_grows[where P = "\<lambda>_ _. True", OF _ ph(3)]) simp
  have wf2: "wf_node t2" using g2 wf1 by (rule grows_wf)
  have "served moduleName t' m (ModulePathPrefix moduleName moduleType @ rel) md (op_Name oper)"
    if "oper \<in> set (md_EnabledOps md)" "deriveCRUDPath inflect md (op_Name oper) = (m, rel)" for oper m rel
    by (rule served_grows[OF g3 RegisterModelRoutes_served[OF ph(2) wf1 assms(3) that]])
  then show ?thesis
    using RegisterModelWorkflowActions_served[OF ph(3) wf2 assms(3)]
    by (fastforce simp: transition_path_def)
qed

text \<open>A module with one model and one guarded transition, for the witnesses.\<close>

definition sample_transition :: workflow_transition where
  "sample_transition = \<lparr>wt_From = ''draft'', wt_To = ''done'', wt_ActionName = ''confirm'',
     wt_Permission = ''sales.confirm'', wt_ConditionExpr = ''record.a = 1'', wt_Event = None\<rparr>"

definition sample_model :: model_declaration where
  "sample_model =
     Field ''state'' ((Selection_field [''draft'', ''done''])
        \<lparr>fd_WorkflowTransitions := [sample_transition]\<rparr>)
       (EnableOps [plain_op ''list''] (Define ''order''))"

definition sample_inflect :: "string \<Rightarrow> string" where
  "sample_inflect s = s @ ''s''"

abbreviation sample_routes :: node where
  "sample_routes \<equiv> fst (RegisterRoutes sample_inflect ''sales'' ''module'' [] [sample_model] New)"

definition confirm_key :: "pat list \<times> string" where
  "confirm_key = ([Lit ''sales'', Lit ''orders'', Par, Lit ''confirm''], ''POST'')"

lemma sample_confirm: "\<exists>e. entry_at sample_routes confirm_key = Some e \<and>
    rm_Model (re_Manifest e) = ''sales.order'' \<and> rm_Name (re_Manifest e) = ''confirm''"
proof -
  have "(case entry_at sample_routes confirm_key of
           None \<Rightarrow> False
         | Some e \<Rightarrow> rm_Model (re_Manifest e) = ''sales.order'' \<and> rm_Name (re_Manifest e) = ''confirm'')"
    by code_simp
  then show ?thesis by (auto split: option.splits)
qed

lemma New_entry [simp]: "entry_at New k = None"
  by (simp add: New_def)

text \<open>
  (C3) A workflow transition cannot be invoked around its guards. After registration, every new
  route that carries an action name a model declares a transition for, whether a module wrote
  the handler or the engine derived it, requires authentication, requires the permission of a
  declared transition of that name, and carries that transition's states and compiled condition.
  Model names within a module are assumed distinct.
\<close>

theorem transition_routes_guarded:
  assumes "distinct (map (\<lambda>md. QualifiedName md moduleName) models)"
    and "entry_at (fst (RegisterRoutes inflect moduleName moduleType explicit models t)) k = Some e"
    and "entry_at t k = None"
    and "md \<in> set models" "QualifiedName md moduleName = rm_Model (re_Manifest e)"
    and "\<exists>(f, tr) \<in> set (transitions md). wt_ActionName tr = rm_Name (re_Manifest e)"
    and "rm_Name (re_Manifest e) \<noteq> []"
  shows "\<exists>(f, tr) \<in> set (transitions md). wt_ActionName tr = rm_Name (re_Manifest e) \<and>
    rm_Auth (re_Manifest e) = ''required'' \<and>
    rm_Permissions (re_Manifest e) = permission_list (wt_Permission tr) \<and>
    (\<exists>w. compileCondition (transition_manifest f tr) = Inr w \<and> rm_Workflow (re_Manifest e) = Some w)"
proof -
  have "grows (\<lambda>k e. transition_guard moduleName models e) t
      (fst (RegisterRoutes inflect moduleName moduleType explicit models t))"
  proof (rule RegisterRoutes_grows)
    fix rs r
    assume "resolveActionRoutes inflect moduleName explicit models = Inr rs" "r \<in> set rs"
    then have "resolved_ok (declared_models moduleName models) r" by (rule resolveActionRoutes_ok)
    then show "transition_guard moduleName models (snd (snd (pending_of moduleName moduleType r)))"
      by (simp add: pending_of_def Let_def explicit_guard[OF _ assms(1)])
  next
    fix md oper p
    show "transition_guard moduleName models (op_entry moduleName p md oper)"
      by (simp add: transition_guard_def op_entry_def zero_manifest_def)
  next
    fix md f tr w p
    assume "md \<in> set models" "(f, tr) \<in> set (transitions md)"
      "compileCondition (transition_manifest f tr) = Inr w"
    then show "transition_guard moduleName models (action_entry moduleName p md tr w)"
      using assms(1) by (rule action_guard)
  qed
  from grows_new[OF this assms(2,3)] assms(4-7) show ?thesis
    unfolding transition_guard_def guarded_by_def by force
qed

theorem RegisterRoutes_conservative_witness:
  "\<exists>e. entry_at sample_routes confirm_key = Some e \<and> re_ModuleName e = ''sales'' \<and>
     prefix ''/sales'' (re_PathTemplate e)"
proof -
  obtain e where e: "entry_at sample_routes confirm_key = Some e"
    using sample_confirm by blast
  from RegisterRoutes_conservative[THEN conjunct2, rule_format, OF e New_entry]
  have "re_ModuleName e = ''sales''" "prefix (ModulePathPrefix ''sales'' ''module'') (re_PathTemplate e)"
    by blast+
  moreover have "ModulePathPrefix ''sales'' ''module'' = ''/sales''" by code_simp
  ultimately show ?thesis using e by simp
qed

theorem transition_routes_guarded_witness:
  "\<exists>e. entry_at sample_routes confirm_key = Some e \<and> rm_Auth (re_Manifest e) = ''required'' \<and>
     rm_Permissions (re_Manifest e) = [''sales.confirm'']"
proof -
  obtain e where e: "entry_at sample_routes confirm_key = Some e"
    "rm_Model (re_Manifest e) = ''sales.order''" "rm_Name (re_Manifest e) = ''confirm''"
    using sample_confirm by blast
  have tr: "map snd (transitions sample_model) = [sample_transition]"
    and name: "wt_ActionName sample_transition = ''confirm''"
    and q: "QualifiedName sample_model ''sales'' = ''sales.order''"
    and perm: "permission_list (wt_Permission sample_transition) = [''sales.confirm'']"
    by code_simp+
  from tr have only: "t = sample_transition" if "(f, t) \<in> set (transitions sample_model)" for f t
    using that by (metis list.set_map image_eqI snd_conv list.set(1) list.set(2) singletonD)
  from tr obtain f where f: "(f, sample_transition) \<in> set (transitions sample_model)"
    by (metis image_iff list.set_intros(1) list.set_map prod.collapse)
  have "\<exists>(f, tr) \<in> set (transitions sample_model). wt_ActionName tr = rm_Name (re_Manifest e) \<and>
    rm_Auth (re_Manifest e) = ''required'' \<and>
    rm_Permissions (re_Manifest e) = permission_list (wt_Permission tr) \<and>
    (\<exists>w. compileCondition (transition_manifest f tr) = Inr w \<and> rm_Workflow (re_Manifest e) = Some w)"
    by (rule transition_routes_guarded[OF _ e(1)]) (use e q f name in \<open>auto simp: New_entry\<close>)
  then show ?thesis using e(1) only perm by (auto dest: only)
qed

theorem RegisterModuleRoutes_exact_witness:
  "let r = explicit_route_from \<lparr>rd_Method = ''GET'', rd_Path = ''/report'', rd_Auth = ''required'',
         rd_Permissions = [], rd_RateLimit = None, rd_MaxBodyBytes = 0, rd_TimeoutMs = 5,
         rd_PollIntervalMs = 0, rd_Streaming = False, rd_Websocket = False, rd_RawBody = False,
         rd_Model = [], rd_Name = [], rd_Scope = [], rd_Transition = None, rd_CRUDAction = [],
         rd_ResponseIsList = False, rd_Embedded = [], rd_PathParams = None, rd_RequestType = None,
         rd_ResponseType = None\<rparr>
   in \<exists>t'. RegisterModuleRoutes ''sales'' ''module'' [r] New = (t', None) \<and>
      entry_at t' ([Lit ''sales'', Lit ''report''], ''GET'') =
        Some (explicit_entry ''sales'' ''/sales/report'' r)"
proof -
  define r where "r = explicit_route_from \<lparr>rd_Method = ''GET'', rd_Path = ''/report'', rd_Auth = ''required'',
         rd_Permissions = [], rd_RateLimit = None, rd_MaxBodyBytes = 0, rd_TimeoutMs = 5,
         rd_PollIntervalMs = 0, rd_Streaming = False, rd_Websocket = False, rd_RawBody = False,
         rd_Model = [], rd_Name = [], rd_Scope = [], rd_Transition = None, rd_CRUDAction = [],
         rd_ResponseIsList = False, rd_Embedded = [], rd_PathParams = None, rd_RequestType = None,
         rd_ResponseType = None\<rparr>"
  have "er_Method r = ''GET''" "er_Path r = ''/report''"
    by (simp_all add: r_def explicit_route_from_def)
  moreover have "expanded_path ''sales'' ''module'' ''/report'' = ''/sales/report''" by code_simp
  moreover have "route_key ''GET'' ''/sales/report'' = ([Lit ''sales'', Lit ''report''], ''GET'')" by code_simp
  moreover have "snd (RegisterModuleRoutes ''sales'' ''module'' [r] New) = None"
    unfolding r_def by code_simp
  ultimately have "\<exists>t'. RegisterModuleRoutes ''sales'' ''module'' [r] New = (t', None) \<and>
      entry_at t' ([Lit ''sales'', Lit ''report''], ''GET'') =
        Some (explicit_entry ''sales'' ''/sales/report'' r)"
    using RegisterModuleRoutes_exact[where moduleName = "''sales''" and moduleType = "''module''" and routes = "[r]" and t = New]
    by (auto simp: Let_def split: prod.splits option.splits)
  then show ?thesis unfolding Let_def r_def .
qed

theorem RegisterRoutes_complete_witness:
  "\<exists>t' sp. RegisterRoutes sample_inflect ''sales'' ''module'' [] [sample_model] New = (t', Inr sp) \<and>
     served ''sales'' t' ''GET'' ''/sales/orders'' sample_model ''list''"
proof -
  have "(case RegisterRoutes sample_inflect ''sales'' ''module'' [] [sample_model] New of
      (_, Inr _) \<Rightarrow> True | _ \<Rightarrow> False)"
    by code_simp
  then obtain t' sp where run:
    "RegisterRoutes sample_inflect ''sales'' ''module'' [] [sample_model] New = (t', Inr sp)"
    by (auto split: prod.splits sum.splits)
  have ops: "md_EnabledOps sample_model = [plain_op ''list'']"
    and path: "deriveCRUDPath sample_inflect sample_model ''list'' = (''GET'', ''/orders'')"
    and pre: "ModulePathPrefix ''sales'' ''module'' = ''/sales''"
    and name: "op_Name (plain_op ''list'') = ''list''"
    by code_simp+
  have "wf_node New" by (simp add: New_def)
  from RegisterRoutes_complete[OF run this, of sample_model] ops path pre name
  have "served ''sales'' t' ''GET'' ''/sales/orders'' sample_model ''list''" by simp
  with run show ?thesis by blast
qed

end
