(* ===== verification/Orm_Sequence.thy ===== *)
theory Orm_Sequence
  imports Go_Strings
begin

text \<open>
  Sequence fields (\<^verbatim>\<open>internal/engine/orm/sequence.go\<close>): the period key a counter is scoped to, the
  check of a format at module load, the rendering of a number, and the counter table. The two
  regular expressions are written out as scanners.
\<close>

section \<open>Formats\<close>

record civil_time =
  tm_Year :: int
  tm_Month :: nat
  tm_Day :: nat

text \<open>\<^verbatim>\<open>fmt.Sprintf("%0*d", width, n)\<close>: zero padding between the sign and the digits.\<close>

definition pad_nat :: "nat \<Rightarrow> nat \<Rightarrow> string" where
  "pad_nat width n = replicate (width - length (show_nat n)) (CHR ''0'') @ show_nat n"

definition pad_int :: "nat \<Rightarrow> int \<Rightarrow> string" where
  "pad_int width n =
     (if n < 0 then CHR ''-'' # pad_nat (width - 1) (nat (- n)) else pad_nat width (nat n))"

definition period_tokens :: "civil_time \<Rightarrow> (string \<times> string) list" where
  "period_tokens at =
     [(''{year}'', show_int (tm_Year at)), (''{month}'', pad_nat 2 (tm_Month at)),
      (''{day}'', pad_nat 2 (tm_Day at))]"

definition ResolvePeriodKey :: "string \<Rightarrow> civil_time \<Rightarrow> string" where
  "ResolvePeriodKey format at = replacer (period_tokens at) 0 format"

text \<open>A match of \<^verbatim>\<open>\{seq:(\d{1,2})\}\<close> at the start of a string: the digits.\<close>

definition seq_match :: "string \<Rightarrow> string option" where
  "seq_match s =
     (if has_prefix s ''{seq:''
      then (case drop 5 s of
              a # b # c # _ \<Rightarrow>
                if isDigit a \<and> b = CHR ''}'' then Some [a]
                else if isDigit a \<and> isDigit b \<and> c = CHR ''}'' then Some [a, b]
                else None
            | [a, b] \<Rightarrow> if isDigit a \<and> b = CHR ''}'' then Some [a] else None
            | _ \<Rightarrow> None)
      else None)"

text \<open>A match of \<^verbatim>\<open>\{[^{}]*\}\<close> at the start of a string, braces included.\<close>

definition placeholder_match :: "string \<Rightarrow> string option" where
  "placeholder_match s =
     (case s of
        [] \<Rightarrow> None
      | c # cs \<Rightarrow>
          if c \<noteq> CHR ''{'' then None
          else (let body = takeWhile (\<lambda>d. d \<noteq> CHR ''{'' \<and> d \<noteq> CHR ''}'') cs
                in case drop (length body) cs of
                     d # _ \<Rightarrow> if d = CHR ''}'' then Some (c # body @ [d]) else None
                   | [] \<Rightarrow> None))"

fun placeholders_in :: "nat \<Rightarrow> string \<Rightarrow> string list" where
  "placeholders_in skip [] = []"
| "placeholders_in (Suc skip) (c # cs) = placeholders_in skip cs"
| "placeholders_in 0 (c # cs) =
     (case placeholder_match (c # cs) of
        None \<Rightarrow> placeholders_in 0 cs
      | Some tok \<Rightarrow> tok # placeholders_in (length tok - 1) cs)"

datatype sequence_error =
    SequenceWidth string nat
  | UnknownPlaceholder string
  | SeqCount nat

definition maxSeqWidth :: nat where
  "maxSeqWidth = 20"

text \<open>\<^verbatim>\<open>seqToken.MatchString(token)\<close> looks anywhere in the token; a placeholder has one brace pair.\<close>

fun seq_find :: "string \<Rightarrow> string option" where
  "seq_find [] = None"
| "seq_find (c # cs) = (case seq_match (c # cs) of Some ds \<Rightarrow> Some ds | None \<Rightarrow> seq_find cs)"

definition check_token :: "string \<Rightarrow> nat \<Rightarrow> (sequence_error, nat) result" where
  "check_token tok seqs =
     (if tok = ''{year}'' \<or> tok = ''{month}'' then Inr seqs
      else case seq_find tok of
             Some ds \<Rightarrow>
               (let width = nat_of_digits ds
                in if width < 1 \<or> width > maxSeqWidth then Inl (SequenceWidth tok width)
                   else Inr (seqs + 1))
           | None \<Rightarrow> Inl (UnknownPlaceholder tok))"

definition ValidateSequenceFormat :: "string \<Rightarrow> sequence_error option" where
  "ValidateSequenceFormat format =
     (case fold_res check_token (placeholders_in 0 format) 0 of
        Inl e \<Rightarrow> Some e
      | Inr seqs \<Rightarrow> if seqs \<noteq> 1 then Some (SeqCount seqs) else None)"

text \<open>\<^verbatim>\<open>seqToken.ReplaceAllStringFunc\<close> with the rendered number.\<close>

fun replace_seq :: "int \<Rightarrow> nat \<Rightarrow> string \<Rightarrow> string" where
  "replace_seq n skip [] = []"
| "replace_seq n (Suc skip) (c # cs) = replace_seq n skip cs"
| "replace_seq n 0 (c # cs) =
     (case seq_match (c # cs) of
        None \<Rightarrow> c # replace_seq n 0 cs
      | Some ds \<Rightarrow> pad_int (nat_of_digits ds) n @ replace_seq n (length ds + 5) cs)"

definition FormatSequence :: "string \<Rightarrow> civil_time \<Rightarrow> int \<Rightarrow> string" where
  "FormatSequence format at n = replace_seq n 0 (ResolvePeriodKey format at)"

section \<open>Counters\<close>

text \<open>The rows of the table \<^verbatim>\<open>sequences\<close>, keyed by model, field and period.\<close>

type_synonym counter_key = "string \<times> string \<times> string"
type_synonym counters = "counter_key \<rightharpoonup> int"

text \<open>\<^verbatim>\<open>INSERT ... ON CONFLICT DO UPDATE SET next_value = next_value + 1 RETURNING next_value\<close>\<close>

definition AcquireNext :: "counter_key \<Rightarrow> counters \<Rightarrow> int \<times> counters" where
  "AcquireNext k st =
     (let next = (case st k of None \<Rightarrow> 1 | Some v \<Rightarrow> v + 1) in (next, st(k \<mapsto> next)))"

text \<open>
  Writing a record: the counter of the current period is taken and rendered, as the callers
  in the ORM do. The list has the time of each write.
\<close>

fun issue :: "string \<Rightarrow> string \<Rightarrow> string \<Rightarrow> civil_time list \<Rightarrow> counters \<Rightarrow> string list \<times> counters" where
  "issue model field format [] st = ([], st)"
| "issue model field format (at # ats) st =
     (let (n, st1) = AcquireNext (model, field, ResolvePeriodKey format at) st;
          (vs, st2) = issue model field format ats st1
      in (FormatSequence format at n # vs, st2))"

section \<open>Rendering is injective in the number\<close>

lemma length_show_nat_mono: "m \<le> n \<Longrightarrow> length (show_nat m) \<le> length (show_nat n)"
proof (induction n arbitrary: m rule: less_induct)
  case (less n)
  show ?case
  proof (cases "m < 10")
    case True
    then show ?thesis by (cases "show_nat n") auto
  next
    case False
    with less.prems have n: "\<not> n < 10" by simp
    have "length (show_nat (m div 10)) \<le> length (show_nat (n div 10))"
      using less.prems n by (intro less.IH) (auto simp: div_le_mono)
    with False n show ?thesis by (simp add: show_nat_ge)
  qed
qed

lemma length_pad_nat: "length (pad_nat w n) = max w (length (show_nat n))"
  by (simp add: pad_nat_def)

lemma digit_val_zero: "digit_val (CHR ''0'') = 0"
  by (simp add: digit_val_def)

lemma nat_of_digits_zeros: "nat_of_digits (replicate k (CHR ''0'') @ s) = nat_of_digits s"
  by (induction k) (simp_all add: nat_of_digits_def digit_val_zero)

lemma pad_nat_inject: "pad_nat w m = pad_nat w n \<Longrightarrow> m = n"
  by (metis nat_of_digits_show_nat nat_of_digits_zeros pad_nat_def)

lemma pad_int_nonneg: "0 \<le> n \<Longrightarrow> pad_int w n = pad_nat w (nat n)"
  by (simp add: pad_int_def)

lemma length_pad_mono: "\<lbrakk>0 \<le> m; m \<le> n\<rbrakk> \<Longrightarrow> length (pad_int w m) \<le> length (pad_int w n)"
  by (simp add: pad_int_nonneg length_pad_nat length_show_nat_mono le_max_iff_disj)
     (metis length_show_nat_mono nat_mono nle_le order.trans)

lemma length_replace_mono:
  "\<lbrakk>0 \<le> m; m \<le> n\<rbrakk> \<Longrightarrow> length (replace_seq m skip s) \<le> length (replace_seq n skip s)"
  by (induction m skip s rule: replace_seq.induct)
     (auto split: option.splits intro: add_mono length_pad_mono)

text \<open>The string has a sequence token where the scan finds it.\<close>

fun has_seq :: "nat \<Rightarrow> string \<Rightarrow> bool" where
  "has_seq skip [] = False"
| "has_seq (Suc skip) (c # cs) = has_seq skip cs"
| "has_seq 0 (c # cs) \<longleftrightarrow> seq_match (c # cs) \<noteq> None \<or> has_seq 0 cs"

lemma replace_seq_less:
  "\<lbrakk>0 \<le> m; m \<le> n; has_seq skip s; replace_seq m skip s = replace_seq n skip s\<rbrakk> \<Longrightarrow> m = n"
proof (induction m skip s rule: replace_seq.induct)
  case (3 m c cs)
  show ?case
  proof (cases "seq_match (c # cs)")
    case None
    with 3 show ?thesis by simp
  next
    case (Some ds)
    let ?w = "nat_of_digits ds"
    have eq: "pad_int ?w m @ replace_seq m (length ds + 5) cs = pad_int ?w n @ replace_seq n (length ds + 5) cs"
      using "3.prems"(4) Some by simp
    have "length (pad_int ?w m) = length (pad_int ?w n)"
      using arg_cong[OF eq, of length] length_pad_mono[OF "3.prems"(1,2), of ?w]
        length_replace_mono[OF "3.prems"(1,2), of "length ds + 5" cs] by simp
    with eq have "pad_int ?w m = pad_int ?w n" by simp
    with "3.prems"(1,2) show ?thesis
      by (simp add: pad_int_nonneg) (metis pad_nat_inject nat_eq_iff2 order_trans)
  qed
qed simp_all

lemma replace_seq_inject:
  assumes "0 \<le> m" "0 \<le> n" "has_seq 0 s" "replace_seq m 0 s = replace_seq n 0 s"
  shows "m = n"
  using assms replace_seq_less[of m n 0 s] replace_seq_less[of n m 0 s] by (cases "m \<le> n") auto

section \<open>A validated format keeps its sequence token\<close>

lemma has_seq_suffix: "seq_match b \<noteq> None \<Longrightarrow> has_seq 0 (a @ b)"
proof (induction a)
  case Nil
  then show ?case by (cases b) (auto simp: seq_match_def has_prefix_def)
next
  case (Cons c a)
  then show ?case by simp
qed

lemma seq_match_token: "seq_match s = Some ds \<Longrightarrow> \<exists>t. s = ''{seq:'' @ ds @ ''}'' @ t"
proof -
  assume m: "seq_match s = Some ds"
  then obtain u where "s = ''{seq:'' @ u"
    by (auto simp: seq_match_def has_prefix_def prefix_def split: if_splits)
  with m show ?thesis
    by (auto simp: seq_match_def has_prefix_def split: list.splits if_splits)
qed

lemma seq_match_same: "seq_match s = Some ds \<Longrightarrow> seq_match (''{seq:'' @ ds @ ''}'' @ t) = Some ds"
proof -
  assume m: "seq_match s = Some ds"
  then obtain u where "s = ''{seq:'' @ u"
    by (auto simp: seq_match_def has_prefix_def prefix_def split: if_splits)
  with m have "(\<exists>a. ds = [a] \<and> isDigit a) \<or> (\<exists>a b. ds = [a, b] \<and> isDigit a \<and> isDigit b)"
    by (auto simp: seq_match_def has_prefix_def split: list.splits if_splits)
  moreover have "\<not> isDigit (CHR ''}'')" by code_simp
  ultimately show ?thesis
    by (auto simp: seq_match_def has_prefix_def split: list.splits)
qed

text \<open>A placeholder: an opening brace, no brace inside, a closing brace.\<close>

definition is_placeholder :: "string \<Rightarrow> bool" where
  "is_placeholder tok \<longleftrightarrow>
     (\<exists>body. tok = CHR ''{'' # body @ ''}'' \<and> CHR ''{'' \<notin> set body \<and> CHR ''}'' \<notin> set body)"

lemma placeholder_match_Some:
  assumes "placeholder_match s = Some tok"
  shows "is_placeholder tok \<and> (\<exists>t. s = tok @ t)"
proof -
  obtain cs where s: "s = CHR ''{'' # cs"
    using assms by (auto simp: placeholder_match_def split: list.splits if_splits)
  define body where "body = takeWhile (\<lambda>d. d \<noteq> CHR ''{'' \<and> d \<noteq> CHR ''}'') cs"
  obtain t where drop: "drop (length body) cs = CHR ''}'' # t" and tok: "tok = CHR ''{'' # body @ ''}''"
    using assms by (auto simp: placeholder_match_def s Let_def body_def[symmetric] split: list.splits if_splits)
  have "take (length body) cs = body"
    by (simp add: body_def takeWhile_eq_take[symmetric])
  then have "cs = body @ CHR ''}'' # t"
    using drop by (metis append_take_drop_id)
  moreover have "CHR ''{'' \<notin> set body" "CHR ''}'' \<notin> set body"
    by (auto simp: body_def dest: set_takeWhileD)
  ultimately show ?thesis by (auto simp: s tok is_placeholder_def)
qed

lemma placeholders_in_sub:
  "tok \<in> set (placeholders_in skip s) \<Longrightarrow> is_placeholder tok \<and> (\<exists>a b. s = a @ tok @ b)"
proof (induction skip s rule: placeholders_in.induct)
  case (2 skip c cs)
  then show ?case by (auto intro: exI[of _ "c # a" for a]) (metis append_Cons)
next
  case (3 c cs)
  show ?case
  proof (cases "placeholder_match (c # cs)")
    case None
    with 3 obtain a b where "is_placeholder tok" "cs = a @ tok @ b" by auto
    then show ?thesis by (metis append_Cons)
  next
    case (Some t)
    show ?thesis
    proof (cases "tok = t")
      case True
      with placeholder_match_Some[OF Some] show ?thesis by (metis append_Nil)
    next
      case False
      with 3 Some obtain a b where "is_placeholder tok" "cs = a @ tok @ b" by auto
      then show ?thesis by (metis append_Cons)
    qed
  qed
qed simp

lemma seq_find_placeholder:
  assumes "is_placeholder tok" "seq_find tok = Some ds"
  shows "tok = ''{seq:'' @ ds @ ''}'' \<and> seq_match tok = Some ds"
proof -
  obtain body where tok: "tok = CHR ''{'' # body @ ''}''" and nb: "CHR ''{'' \<notin> set body" "CHR ''}'' \<notin> set body"
    using assms(1) by (auto simp: is_placeholder_def)
  have none: "seq_find s = None" if "CHR ''{'' \<notin> set s" for s
    using that by (induction s) (auto simp: seq_match_def has_prefix_def split: option.splits)
  have "seq_find (body @ ''}'') = None"
    using nb by (intro none) simp
  with assms(2) have m: "seq_match tok = Some ds"
    by (auto simp: tok split: option.splits)
  then obtain t where t: "tok = ''{seq:'' @ ds @ ''}'' @ t"
    using seq_match_token by blast
  have "t = []"
  proof (rule ccontr)
    assume "t \<noteq> []"
    then have "CHR ''}'' \<in> set (butlast tok)"
      by (simp add: t butlast_append)
    moreover have "butlast tok = CHR ''{'' # body"
      by (simp add: tok butlast_append)
    ultimately show False using nb by auto
  qed
  with t m show ?thesis by simp
qed

lemma fold_check_seq:
  assumes "fold_res check_token toks k = Inr seqs" "seqs \<noteq> k"
  shows "\<exists>tok \<in> set toks. seq_find tok \<noteq> None"
  using assms
proof (induction toks arbitrary: k)
  case (Cons t toks)
  show ?case
  proof (cases "seq_find t")
    case None
    with Cons show ?thesis
      by (auto simp: check_token_def split: if_splits sum.splits)
  next
    case (Some ds)
    then show ?thesis by auto
  qed
qed simp

lemma validated_token:
  assumes "ValidateSequenceFormat format = None"
  obtains a b ds where "format = a @ ''{seq:'' @ ds @ ''}'' @ b" "seq_match (''{seq:'' @ ds @ ''}'') = Some ds"
proof -
  from assms have "fold_res check_token (placeholders_in 0 format) 0 = Inr 1"
    by (auto simp: ValidateSequenceFormat_def split: sum.splits if_splits)
  then obtain tok where tok: "tok \<in> set (placeholders_in 0 format)" "seq_find tok \<noteq> None"
    using fold_check_seq by fastforce
  from placeholders_in_sub[OF tok(1)] obtain a b where ph: "is_placeholder tok" "format = a @ tok @ b"
    by blast
  from tok(2) obtain ds where "seq_find tok = Some ds" by blast
  from seq_find_placeholder[OF ph(1) this] ph(2) that show ?thesis by auto
qed

section \<open>The period tokens leave it alone\<close>

lemma first_old_period:
  "first_old (period_tokens at) s = Some (old, new) \<Longrightarrow>
     has_prefix s old \<and> hd old = CHR ''{'' \<and> old \<noteq> [] \<and> CHR ''{'' \<notin> set (tl old)"
  by (auto simp: period_tokens_def split: if_splits)

lemma first_old_none:
  "s = [] \<or> hd s \<noteq> CHR ''{'' \<or> has_prefix s ''{seq:'' \<Longrightarrow> first_old (period_tokens at) s = None"
  by (auto simp: period_tokens_def has_prefix_def prefix_def)

lemma replacer_copy:
  "CHR ''{'' \<notin> set s \<Longrightarrow> replacer (period_tokens at) 0 (s @ b) = s @ replacer (period_tokens at) 0 b"
  by (induction s) (auto simp: first_old_none)

lemma replacer_token:
  assumes "seq_match (''{seq:'' @ ds @ ''}'') = Some ds"
  shows "replacer (period_tokens at) 0 (''{seq:'' @ ds @ ''}'' @ b) =
    ''{seq:'' @ ds @ ''}'' @ replacer (period_tokens at) 0 b"
proof -
  have "\<not> isDigit (CHR ''{'')" by code_simp
  then have "CHR ''{'' \<notin> set (''seq:'' @ ds @ ''}'')"
    using assms by (auto simp: seq_match_def has_prefix_def split: list.splits if_splits)
  from replacer_copy[OF this, of at b] show ?thesis
    using first_old_none[of "''{seq:'' @ ds @ ''}'' @ b" at] by (simp add: has_prefix_def)
qed

lemma replacer_keeps:
  assumes "seq_match (''{seq:'' @ ds @ ''}'') = Some ds" "skip \<le> length a"
  shows "\<exists>u v. replacer (period_tokens at) skip (a @ ''{seq:'' @ ds @ ''}'' @ b) = u @ ''{seq:'' @ ds @ ''}'' @ v"
  using assms(2)
proof (induction a arbitrary: skip)
  case Nil
  then have "replacer (period_tokens at) skip ([] @ ''{seq:'' @ ds @ ''}'' @ b) =
      [] @ ''{seq:'' @ ds @ ''}'' @ replacer (period_tokens at) 0 b"
    using replacer_token[OF assms(1), of at b] by simp
  then show ?case by blast
next
  case (Cons c a)
  let ?rest = "''{seq:'' @ ds @ ''}'' @ b"
  show ?case
  proof (cases skip)
    case (Suc k)
    with Cons.IH[of k] Cons.prems show ?thesis by simp
  next
    case 0
    show ?thesis
    proof (cases "first_old (period_tokens at) (c # a @ ?rest)")
      case None
      obtain u v where "replacer (period_tokens at) 0 (a @ ?rest) = u @ ''{seq:'' @ ds @ ''}'' @ v"
        using Cons.IH[of 0] by auto
      then have "replacer (period_tokens at) skip ((c # a) @ ?rest) = (c # u) @ ''{seq:'' @ ds @ ''}'' @ v"
        using None 0 by simp
      then show ?thesis by blast
    next
      case (Some on)
      obtain old new where on: "on = (old, new)" by (cases on)
      from first_old_period[OF Some[unfolded on]]
      have pre: "prefix old (c # a @ ?rest)" and old: "hd old = CHR ''{''" "old \<noteq> []" "CHR ''{'' \<notin> set (tl old)"
        by (auto simp: has_prefix_def)
      have "length old \<le> length (c # a)"
      proof (rule ccontr)
        assume long: "\<not> length old \<le> length (c # a)"
        obtain t where t: "c # a @ ?rest = old @ t"
          using pre by (auto simp: prefix_def)
        have "(c # a @ ?rest) ! length (c # a) = CHR ''{''" by (simp add: nth_append)
        then have "old ! length (c # a) = CHR ''{''"
          using long by (simp add: t nth_append del: append_Cons)
        moreover obtain d ds' where "old = d # ds'" using old(2) by (cases old) auto
        ultimately have "ds' ! length a = CHR ''{''" "length a < length ds'" "tl old = ds'"
          using long by simp_all
        then show False using old(3) nth_mem by metis
      qed
      then have "length old - 1 \<le> length a" by simp
      then obtain u v where "replacer (period_tokens at) (length old - 1) (a @ ?rest) = u @ ''{seq:'' @ ds @ ''}'' @ v"
        using Cons.IH by blast
      then have "replacer (period_tokens at) skip ((c # a) @ ?rest) = (new @ u) @ ''{seq:'' @ ds @ ''}'' @ v"
        using Some on 0 by simp
      then show ?thesis by blast
    qed
  qed
qed

lemma validated_has_seq:
  assumes "ValidateSequenceFormat format = None"
  shows "has_seq 0 (ResolvePeriodKey format at)"
proof -
  obtain a b ds where f: "format = a @ ''{seq:'' @ ds @ ''}'' @ b"
    and m: "seq_match (''{seq:'' @ ds @ ''}'') = Some ds"
    using assms by (rule validated_token)
  obtain u v where "ResolvePeriodKey format at = u @ ''{seq:'' @ ds @ ''}'' @ v"
    using replacer_keeps[OF m, of 0 a at b] by (auto simp: ResolvePeriodKey_def f)
  moreover have "seq_match (''{seq:'' @ ds @ ''}'' @ v) \<noteq> None"
    using seq_match_same[OF m, of v] by simp
  ultimately show ?thesis by (simp add: has_seq_suffix)
qed

section \<open>Issued values\<close>

definition current :: "counters \<Rightarrow> counter_key \<Rightarrow> int" where
  "current st k = (case st k of None \<Rightarrow> 0 | Some v \<Rightarrow> v)"

text \<open>How many of the times fall into the period of the time \<open>at\<close>.\<close>

definition in_period :: "string \<Rightarrow> civil_time \<Rightarrow> civil_time list \<Rightarrow> nat" where
  "in_period format at ats =
     length (filter (\<lambda>a. ResolvePeriodKey format a = ResolvePeriodKey format at) ats)"

lemma AcquireNext_current:
  "AcquireNext k st = (current st k + 1, st(k \<mapsto> current st k + 1))"
  by (simp add: AcquireNext_def current_def Let_def split: option.splits)

lemma current_upd [simp]: "current (st(k \<mapsto> v)) k' = (if k' = k then v else current st k')"
  by (simp add: current_def)

lemma issue_nth:
  assumes "issue model field format ats st = (vs, st')"
  shows "length vs = length ats \<and>
    (\<forall>i < length ats. vs ! i = FormatSequence format (ats ! i)
       (current st (model, field, ResolvePeriodKey format (ats ! i)) + 1 +
        int (in_period format (ats ! i) (take i ats))))"
  using assms
proof (induction ats arbitrary: st vs)
  case (Cons a ats)
  let ?k = "(model, field, ResolvePeriodKey format a)"
  let ?st1 = "st(?k \<mapsto> current st ?k + 1)"
  obtain ws where ws: "issue model field format ats ?st1 = (ws, st')"
    and vs: "vs = FormatSequence format a (current st ?k + 1) # ws"
    using Cons.prems by (auto simp: AcquireNext_current Let_def split: prod.splits)
  have IH: "length ws = length ats \<and>
    (\<forall>i < length ats. ws ! i = FormatSequence format (ats ! i)
       (current ?st1 (model, field, ResolvePeriodKey format (ats ! i)) + 1 +
        int (in_period format (ats ! i) (take i ats))))"
    by (rule Cons.IH[OF ws])
  have "vs ! i = FormatSequence format ((a # ats) ! i)
       (current st (model, field, ResolvePeriodKey format ((a # ats) ! i)) + 1 +
        int (in_period format ((a # ats) ! i) (take i (a # ats))))" if "i < length (a # ats)" for i
  proof (cases i)
    case 0
    then show ?thesis by (simp add: vs in_period_def)
  next
    case (Suc j)
    with that have "j < length ats" by simp
    with IH show ?thesis by (simp add: vs Suc in_period_def ac_simps)
  qed
  with IH vs show ?case by simp
qed simp

lemma in_period_less:
  assumes "i < j" "j \<le> length ats" "ResolvePeriodKey format (ats ! i) = ResolvePeriodKey format (ats ! j)"
  shows "in_period format (ats ! i) (take i ats) < in_period format (ats ! j) (take j ats)"
proof -
  let ?P = "\<lambda>a. ResolvePeriodKey format a = ResolvePeriodKey format (ats ! j)"
  have "take j ats = take i ats @ (ats ! i) # take (j - Suc i) (drop (Suc i) ats)"
    using assms(1,2) by (metis Cons_nth_drop_Suc Suc_diff_Suc append_take_drop_id le_add_diff_inverse
        less_imp_le_nat less_le_trans take_Suc_Cons take_add)
  then have "length (filter ?P (take i ats)) < length (filter ?P (take j ats))"
    using assms(3) by simp
  then show ?thesis using assms(3) by (simp add: in_period_def)
qed

text \<open>
  (C10) Sequence numbers are gapless and unique within a period. For a format that passed the load
  check, the value issued at each write renders the counter of its period, which counts up by
  one from where it was, and no two writes in the same period ever get the same value.
\<close>

theorem issued_sequence_unique:
  assumes "ValidateSequenceFormat format = None"
    and "\<And>k v. st k = Some v \<Longrightarrow> 0 \<le> v"
    and "issue model field format ats st = (vs, st')"
  shows "length vs = length ats \<and>
    (\<forall>i < length ats. vs ! i = FormatSequence format (ats ! i)
       (current st (model, field, ResolvePeriodKey format (ats ! i)) + 1 +
        int (in_period format (ats ! i) (take i ats)))) \<and>
    (\<forall>i j. i < j \<and> j < length ats \<and>
       ResolvePeriodKey format (ats ! i) = ResolvePeriodKey format (ats ! j) \<longrightarrow> vs ! i \<noteq> vs ! j)"
proof -
  note nth = issue_nth[OF assms(3)]
  have nonneg: "0 \<le> current st k" for k
    using assms(2) by (auto simp: current_def split: option.splits)
  have "vs ! i \<noteq> vs ! j" if ij: "i < j" "j < length ats"
    and key: "ResolvePeriodKey format (ats ! i) = ResolvePeriodKey format (ats ! j)" for i j
  proof
    assume eq: "vs ! i = vs ! j"
    let ?K = "ResolvePeriodKey format (ats ! j)"
    let ?n = "\<lambda>l. current st (model, field, ?K) + 1 + int (in_period format (ats ! l) (take l ats))"
    have "replace_seq (?n i) 0 ?K = replace_seq (?n j) 0 ?K"
      using eq nth ij key by (simp add: FormatSequence_def)
    then have "?n i = ?n j"
      using nonneg[of "(model, field, ?K)"] validated_has_seq[OF assms(1)]
      by (intro replace_seq_inject[of _ _ ?K]) auto
    with in_period_less[of i j ats format] ij key show False by simp
  qed
  with nth show ?thesis by blast
qed

theorem issued_sequence_unique_witness:
  "fst (issue ''m'' ''f'' ''S{seq:2}''
      [\<lparr>tm_Year = 7, tm_Month = 1, tm_Day = 2\<rparr>, \<lparr>tm_Year = 7, tm_Month = 3, tm_Day = 4\<rparr>] Map.empty)
     = [''S01'', ''S02'']"
proof -
  let ?f = "''S{seq:2}''"
  let ?ats = "[\<lparr>tm_Year = 7, tm_Month = 1, tm_Day = 2\<rparr>, \<lparr>tm_Year = 7, tm_Month = 3, tm_Day = 4\<rparr>]"
  have v: "ValidateSequenceFormat ?f = None" by code_simp
  obtain vs st' where run: "issue ''m'' ''f'' ?f ?ats Map.empty = (vs, st')"
    by (cases "issue ''m'' ''f'' ?f ?ats Map.empty")
  from issued_sequence_unique[OF v _ run] have len: "length vs = 2"
    and nth: "\<forall>i < 2. vs ! i = FormatSequence ?f (?ats ! i)
       (current Map.empty (''m'', ''f'', ResolvePeriodKey ?f (?ats ! i)) + 1 +
        int (in_period ?f (?ats ! i) (take i ?ats)))"
    by simp_all
  have a: "FormatSequence ?f (?ats ! 0) 1 = ''S01''" by code_simp
  have b: "FormatSequence ?f (?ats ! 1) 2 = ''S02''" by code_simp
  have c: "in_period ?f (?ats ! 1) (take 1 ?ats) = 1" "in_period ?f (?ats ! 0) (take 0 ?ats) = 0" by code_simp+
  have "vs ! 0 = ''S01''"
    using nth[rule_format, of 0] a c(2) by (simp add: current_def)
  moreover have "vs ! 1 = ''S02''"
    using nth[rule_format, of 1] b c(1) by (simp add: current_def)
  moreover have "vs = [vs ! 0, vs ! 1]"
    using len by (auto simp: numeral_2_eq_2 length_Suc_conv)
  ultimately have "vs = [''S01'', ''S02'']" by metis
  then show ?thesis by (simp only: run fst_conv)
qed

end
