(* ===== verification/Module_Context.thy ===== *)
theory Module_Context
  imports Sdk_Model Permission_Bits Domain_Eval
begin

text \<open>
  The request context of a module's host calls (\<^verbatim>\<open>internal/engine/wasm/context.go\<close>), as far as the
  authorisation and ORM functions read it, the field security registry
  (\<^verbatim>\<open>internal/engine/fieldsec\<close>) and the permission test they all share. A nil registry pointer is
  \<^const>\<open>None\<close>.
\<close>

section \<open>Field security rules\<close>

datatype read_behaviour = ROmit | RNullify | RMask

fun read_behaviour_name :: "read_behaviour \<Rightarrow> string" where
  "read_behaviour_name RNullify = ''nullify''"
| "read_behaviour_name RMask = ''mask''"
| "read_behaviour_name ROmit = ''omit''"

datatype write_behaviour = WReject | WIgnore

record field_security_rule =
  fr_ReadPermission :: string
  fr_WritePermission :: string
  fr_OnDeniedRead :: read_behaviour
  fr_OnDeniedWrite :: write_behaviour
  fr_MaskPattern :: string

text \<open>Model name, then field name.\<close>

type_synonym field_security_registry = "string \<Rightarrow> (string \<rightharpoonup> field_security_rule)"

definition NewFieldSecurity :: field_security_registry where
  "NewFieldSecurity = (\<lambda>_. Map.empty)"

definition Rule :: "field_security_registry \<Rightarrow> string \<Rightarrow> string \<Rightarrow> field_security_rule option" where
  "Rule r modelName fieldName = r modelName fieldName"

definition fieldSecurityRuleFor :: "named_field \<Rightarrow> field_security_rule option" where
  "fieldSecurityRuleFor field =
     (let def = nf_Def field
      in if fd_ReadPermission def = [] \<and> fd_WritePermission def = [] then None
         else Some
           \<lparr>fr_ReadPermission = fd_ReadPermission def,
            fr_WritePermission = fd_WritePermission def,
            fr_OnDeniedRead =
              (case fd_DeniedRead def of Some Nullify \<Rightarrow> RNullify | Some (Mask _) \<Rightarrow> RMask | _ \<Rightarrow> ROmit),
            fr_OnDeniedWrite = (case fd_DeniedWrite def of Some Ignore \<Rightarrow> WIgnore | _ \<Rightarrow> WReject),
            fr_MaskPattern = (case fd_DeniedRead def of Some (Mask p) \<Rightarrow> p | _ \<Rightarrow> [])\<rparr>)"

definition register_field :: "string \<Rightarrow> named_field \<Rightarrow> field_security_registry \<Rightarrow> field_security_registry" where
  "register_field modelName field r =
     (case fieldSecurityRuleFor field of
        None \<Rightarrow> r
      | Some rule \<Rightarrow> r(modelName := (r modelName)(nf_Name field \<mapsto> rule)))"

definition RegisterFieldSecurity :: "string \<Rightarrow> model_declaration list \<Rightarrow> field_security_registry \<Rightarrow>
    field_security_registry" where
  "RegisterFieldSecurity moduleName modelDecls r =
     fold (\<lambda>decl. fold (register_field (QualifiedName decl moduleName)) (md_Fields decl)) modelDecls r"

section \<open>Policies\<close>

text \<open>
  A manifest policy ready to evaluate (\<^verbatim>\<open>internal/engine/policy\<close>): either resolved, or kept with the
  reason it cannot be evaluated.
\<close>

record resolved_policy =
  pol_Expr :: expr
  pol_Table :: string
  pol_PKColumn :: string
  pol_Columns :: "string list"
  pol_Restrictive :: bool

datatype unresolved =
    NoLoadedModel string
  | NoPrimaryKey string
  | ConditionUnparsed parse_error

record policy =
  pol_Name :: string
  pol_Resolved :: "(unresolved, resolved_policy) result"

type_synonym policy_registry = "string \<Rightarrow> policy list"

section \<open>The context\<close>

record module_context =
  mc_ModuleName :: string
  mc_UserID :: string
  mc_ContactID :: string
  mc_Roles :: "string list"
  mc_PermissionSet :: bitfield
  mc_TenantID :: string
  mc_unmaskedReads :: bool
  mc_ModelDecls :: "model_declaration list"
  mc_ComputeTargets :: "string \<rightharpoonup> model_declaration list"
  mc_FieldSecRegistry :: "field_security_registry option"
  mc_PermissionRegistry :: "permission_registry option"
  mc_PolicyRegistry :: "policy_registry option"

text \<open>The registry snapshot a context is built from, as far as it is used.\<close>

record module_snapshot =
  sn_ModelDecls :: "model_declaration list"
  sn_ComputeTargets :: "string \<rightharpoonup> model_declaration list"
  sn_FieldSecRegistry :: "field_security_registry option"
  sn_PermissionRegistry :: "permission_registry option"
  sn_PolicyRegistry :: "policy_registry option"

definition NewModuleContext :: "string \<Rightarrow> string \<Rightarrow> string \<Rightarrow> string list \<Rightarrow> bitfield \<Rightarrow> string \<Rightarrow>
    module_snapshot \<Rightarrow> module_context" where
  "NewModuleContext moduleName userID contactID roles permSet tenantID snapshot =
     \<lparr>mc_ModuleName = moduleName, mc_UserID = userID, mc_ContactID = contactID, mc_Roles = roles,
      mc_PermissionSet = permSet, mc_TenantID = tenantID, mc_unmaskedReads = False,
      mc_ModelDecls = sn_ModelDecls snapshot, mc_ComputeTargets = sn_ComputeTargets snapshot,
      mc_FieldSecRegistry = sn_FieldSecRegistry snapshot,
      mc_PermissionRegistry = sn_PermissionRegistry snapshot,
      mc_PolicyRegistry = sn_PolicyRegistry snapshot\<rparr>"

definition callerHasPermission :: "module_context \<Rightarrow> permission_registry option \<Rightarrow> string \<Rightarrow> bool" where
  "callerHasPermission mc permReg permissionName =
     (case permReg of
        None \<Rightarrow> False
      | Some reg \<Rightarrow>
          (case Index reg permissionName of
             None \<Rightarrow> False
           | Some idx \<Rightarrow> Has (mc_PermissionSet mc) idx))"

definition resolveModel :: "module_context \<Rightarrow> string \<Rightarrow> model_declaration option" where
  "resolveModel mc qualifiedName =
     List.find (\<lambda>md. QualifiedName md (mc_ModuleName mc) = qualifiedName) (mc_ModelDecls mc)"

definition resolveAnyModel :: "module_context \<Rightarrow> string \<Rightarrow> model_declaration option" where
  "resolveAnyModel mc qualifiedName =
     (case cut (CHR ''.'') qualifiedName of
        (moduleName, _, found) \<Rightarrow>
          if \<not> found then None
          else (case mc_ComputeTargets mc moduleName of
                  None \<Rightarrow> None
                | Some decls \<Rightarrow> List.find (\<lambda>md. QualifiedName md moduleName = qualifiedName) decls))"

definition resolveReadableModel :: "module_context \<Rightarrow> string \<Rightarrow> model_declaration option" where
  "resolveReadableModel mc qualifiedName =
     (case resolveModel mc qualifiedName of
        Some md \<Rightarrow> Some md
      | None \<Rightarrow>
          (case resolveAnyModel mc qualifiedName of
             Some md \<Rightarrow> if md_Backend md = [] then Some md else None
           | None \<Rightarrow> None))"

definition hasField :: "model_declaration \<Rightarrow> string \<Rightarrow> bool" where
  "hasField md name \<longleftrightarrow> list_ex (\<lambda>f. nf_Name f = name) (md_Fields md)"

section \<open>What registration puts in the registry\<close>

lemma register_field_apply:
  "register_field q x r q' g =
     (if q' = q \<and> g = nf_Name x \<and> fieldSecurityRuleFor x \<noteq> None then fieldSecurityRuleFor x
      else r q' g)"
  by (auto simp: register_field_def split: option.splits)

lemma fold_register_other:
  "q' \<noteq> q \<or> g \<notin> nf_Name ` set fs \<Longrightarrow> fold (register_field q) fs r q' g = r q' g"
proof (induction fs arbitrary: r)
  case (Cons x fs)
  then have "fold (register_field q) fs (register_field q x r) q' g = register_field q x r q' g"
    by (intro Cons.IH) auto
  also have "\<dots> = r q' g"
    using Cons.prems by (auto simp: register_field_apply)
  finally show ?case by simp
qed simp

lemma fold_register_own:
  assumes "distinct (map nf_Name fs)" "f \<in> set fs"
  shows "fold (register_field q) fs r q (nf_Name f) =
    (case fieldSecurityRuleFor f of Some rule \<Rightarrow> Some rule | None \<Rightarrow> r q (nf_Name f))"
  using assms
proof (induction fs arbitrary: r)
  case (Cons x fs)
  show ?case
  proof (cases "f = x")
    case True
    with Cons.prems have "nf_Name f \<notin> nf_Name ` set fs" by auto
    then have "fold (register_field q) (x # fs) r q (nf_Name f) = register_field q x r q (nf_Name f)"
      using fold_register_other[of q q "nf_Name f" fs "register_field q x r"] by simp
    also have "\<dots> = (case fieldSecurityRuleFor f of Some rule \<Rightarrow> Some rule | None \<Rightarrow> r q (nf_Name f))"
      by (auto simp: register_field_apply True split: option.splits)
    finally show ?thesis .
  next
    case False
    with Cons.prems have f: "f \<in> set fs" "distinct (map nf_Name fs)" by auto
    from Cons.prems(1) have "nf_Name x \<notin> nf_Name ` set fs" by simp
    with f(1) have other: "nf_Name f \<noteq> nf_Name x" by (metis image_eqI)
    from Cons.IH[OF f(2,1), of "register_field q x r"] have
      "fold (register_field q) (x # fs) r q (nf_Name f) =
        (case fieldSecurityRuleFor f of Some rule \<Rightarrow> Some rule | None \<Rightarrow> register_field q x r q (nf_Name f))"
      by simp
    also have "register_field q x r q (nf_Name f) = r q (nf_Name f)"
      by (simp add: register_field_apply other)
    finally show ?thesis .
  qed
qed simp

lemma Rule_registered:
  assumes "distinct (map (\<lambda>md. QualifiedName md mn) decls)" "md \<in> set decls"
    and "distinct (map nf_Name (md_Fields md))" "f \<in> set (md_Fields md)"
  shows "Rule (RegisterFieldSecurity mn decls NewFieldSecurity) (QualifiedName md mn) (nf_Name f) =
    fieldSecurityRuleFor f"
proof -
  have other: "fold (\<lambda>decl. fold (register_field (QualifiedName decl mn)) (md_Fields decl)) ds r q g = r q g"
    if "q \<notin> (\<lambda>md. QualifiedName md mn) ` set ds" for ds r q g
    using that
  proof (induction ds arbitrary: r)
    case (Cons d ds)
    then have "fold (\<lambda>decl. fold (register_field (QualifiedName decl mn)) (md_Fields decl)) ds
        (fold (register_field (QualifiedName d mn)) (md_Fields d) r) q g =
        fold (register_field (QualifiedName d mn)) (md_Fields d) r q g"
      by (intro Cons.IH) simp
    also have "\<dots> = r q g" using Cons.prems by (intro fold_register_other) auto
    finally show ?case by simp
  qed simp
  obtain ds1 ds2 where decls: "decls = ds1 @ md # ds2" using assms(2) by (meson split_list)
  let ?q = "QualifiedName md mn"
  let ?r = "fold (\<lambda>decl. fold (register_field (QualifiedName decl mn)) (md_Fields decl)) ds1 NewFieldSecurity"
  have "?q \<notin> (\<lambda>md. QualifiedName md mn) ` set ds1" "?q \<notin> (\<lambda>md. QualifiedName md mn) ` set ds2"
    using assms(1) by (auto simp: decls)
  then have "?r ?q (nf_Name f) = None"
    "RegisterFieldSecurity mn decls NewFieldSecurity ?q (nf_Name f) =
       fold (register_field ?q) (md_Fields md) ?r ?q (nf_Name f)"
    using other by (simp_all add: RegisterFieldSecurity_def decls NewFieldSecurity_def)
  then show ?thesis
    by (simp add: Rule_def fold_register_own[OF assms(3,4)] split: option.splits)
qed

end
