(* ===== verification/Policies.thy ===== *)
theory Policies
  imports Module_Context Domain_Eval_Props
begin

text \<open>
  ABAC policies: table names of models (\<^verbatim>\<open>internal/engine/modeltable\<close>), the load-time validation of a
  manifest's permissions and policies (\<^verbatim>\<open>manifest/validate_permissions.go\<close>,
  \<^verbatim>\<open>manifest/validate_policies.go\<close>) and the registry of policies by permission
  (\<^verbatim>\<open>internal/engine/policy\<close>, \<^verbatim>\<open>buildPolicyRegistry\<close> of \<^verbatim>\<open>registry/registry.go\<close>).
\<close>

section \<open>Table names\<close>

text \<open>\<^verbatim>\<open>unicode.IsUpper\<close> and \<^verbatim>\<open>unicode.ToLower\<close>, exact on ASCII.\<close>

definition is_upper :: "char \<Rightarrow> bool" where
  "is_upper c \<longleftrightarrow> CHR ''A'' \<le> c \<and> c \<le> CHR ''Z''"

fun snake_from :: "bool \<Rightarrow> string \<Rightarrow> string" where
  "snake_from prevLower [] = []"
| "snake_from prevLower (r # rs) =
     (if r = CHR ''.'' then CHR ''_'' # snake_from False rs
      else if is_upper r
      then (if prevLower then [CHR ''_''] else []) @ lower_char r # snake_from False rs
      else r # snake_from True rs)"

definition snakeCase :: "string \<Rightarrow> string" where
  "snakeCase name = snake_from False name"

definition TableName :: "model_declaration \<Rightarrow> string" where
  "TableName md = (if md_Table md \<noteq> [] then md_Table md else snakeCase (md_Name md))"

section \<open>Manifest entries\<close>

record manifest_policy =
  mp_Name :: string
  mp_AppliesTo :: string
  mp_Condition :: string
  mp_Combine :: string

definition Restrictive :: "manifest_policy \<Rightarrow> bool" where
  "Restrictive p \<longleftrightarrow> mp_Combine p = ''AND''"

text \<open>\<^verbatim>\<open>validNameRegex\<close>: \<^verbatim>\<open>^[a-z][a-z0-9_]{0,63}$\<close>\<close>

definition lower_letter :: "char \<Rightarrow> bool" where
  "lower_letter c \<longleftrightarrow> CHR ''a'' \<le> c \<and> c \<le> CHR ''z''"

fun valid_name :: "string \<Rightarrow> bool" where
  "valid_name [] = False"
| "valid_name (c # cs) \<longleftrightarrow>
     lower_letter c \<and> length cs \<le> 63 \<and> list_all (\<lambda>d. lower_letter d \<or> isDigit d \<or> d = CHR ''_'') cs"

definition isPermissionName :: "string \<Rightarrow> bool" where
  "isPermissionName name \<longleftrightarrow>
     (let parts = split_on (CHR '':'') name in length parts = 3 \<and> list_all valid_name parts)"

definition splitPolicyName :: "string \<Rightarrow> string option" where
  "splitPolicyName name =
     (let parts = split_on (CHR '':'') name
      in if length parts \<noteq> 3 \<or> \<not> list_all valid_name parts then None else Some (hd parts))"

datatype violation =
    PermissionName string
  | PermissionDuplicate string
  | UsesName string
  | UsesOwn string
  | UsesDuplicate string
  | UsesDeclared string
  | PolicyNameLong string
  | PolicyNameForm string
  | PolicyNameModule string string
  | PolicyCombine string string
  | PolicyAppliesTo string string
  | PolicyCondition string parse_error

definition check_permission :: "string \<Rightarrow> string list \<times> violation list \<Rightarrow> string list \<times> violation list" where
  "check_permission name acc =
     (case acc of (seenNames, violations) \<Rightarrow>
        if \<not> isPermissionName name then (seenNames, violations @ [PermissionName name])
        else if name \<in> set seenNames then (seenNames, violations @ [PermissionDuplicate name])
        else (name # seenNames, violations))"

definition check_uses :: "string \<Rightarrow> string list \<Rightarrow> string \<Rightarrow> string list \<times> violation list \<Rightarrow>
    string list \<times> violation list" where
  "check_uses moduleName seenNames name acc =
     (case acc of (seenUses, violations) \<Rightarrow>
        let owner = fst (cut (CHR '':'') name)
        in (name # seenUses,
            violations @
              (if \<not> isPermissionName name then [UsesName name]
               else if owner = moduleName then [UsesOwn name]
               else if name \<in> set seenUses then [UsesDuplicate name]
               else if name \<in> set seenNames then [UsesDeclared name]
               else [])))"

definition validatePermissions :: "string \<Rightarrow> string list \<Rightarrow> string list \<Rightarrow> violation list" where
  "validatePermissions moduleName permissions uses =
     (let (seenNames, v1) = fold check_permission permissions ([], [])
      in snd (fold (check_uses moduleName seenNames) uses ([], v1)))"

definition maxPolicyNameBytes :: nat where
  "maxPolicyNameBytes = 63"

definition policy_violation :: "string \<Rightarrow> string list \<Rightarrow> manifest_policy \<Rightarrow> violation option" where
  "policy_violation moduleName declared p =
     (if length (mp_Name p) > maxPolicyNameBytes then Some (PolicyNameLong (mp_Name p))
      else case splitPolicyName (mp_Name p) of
             None \<Rightarrow> Some (PolicyNameForm (mp_Name p))
           | Some owner \<Rightarrow>
               if owner \<noteq> moduleName then Some (PolicyNameModule (mp_Name p) owner)
               else if mp_Combine p \<noteq> [] \<and> mp_Combine p \<noteq> ''OR'' \<and> mp_Combine p \<noteq> ''AND''
               then Some (PolicyCombine (mp_Name p) (mp_Combine p))
               else if mp_AppliesTo p \<notin> set declared
               then Some (PolicyAppliesTo (mp_Name p) (mp_AppliesTo p))
               else (case Parse (mp_Condition p) of
                       Inl err \<Rightarrow> Some (PolicyCondition (mp_Name p) err)
                     | Inr _ \<Rightarrow> None))"

definition validatePolicies :: "string \<Rightarrow> string list \<Rightarrow> string list \<Rightarrow> manifest_policy list \<Rightarrow> violation list" where
  "validatePolicies moduleName permissions uses policies =
     List.map_filter (policy_violation moduleName (permissions @ uses)) policies"

section \<open>The registry\<close>

definition splitPermission :: "string \<Rightarrow> string \<times> string \<times> string" where
  "splitPermission name =
     (case split_on (CHR '':'') name of [m, r, a] \<Rightarrow> (m, r, a) | _ \<Rightarrow> ([], [], []))"

definition findModel :: "model_declaration list \<Rightarrow> string \<Rightarrow> string \<Rightarrow> model_declaration option" where
  "findModel decls owner resource =
     List.find (\<lambda>d. QualifiedName d owner = owner @ ''.'' @ resource) decls"

definition primaryKey :: "model_declaration \<Rightarrow> string option" where
  "primaryKey md = map_option nf_Name (List.find (\<lambda>f. fd_IsPrimaryKey (nf_Def f)) (md_Fields md))"

definition resolve :: "manifest_policy \<Rightarrow> (string \<Rightarrow> model_declaration list) \<Rightarrow> policy" where
  "resolve p modelsByModule =
     \<lparr>pol_Name = mp_Name p,
      pol_Resolved =
        (case splitPermission (mp_AppliesTo p) of
           (owner, resource, _) \<Rightarrow>
             (case findModel (modelsByModule owner) owner resource of
                None \<Rightarrow> Inl (NoLoadedModel (mp_AppliesTo p))
              | Some md \<Rightarrow>
                  (case primaryKey md of
                     None \<Rightarrow> Inl (NoPrimaryKey (owner @ ''.'' @ resource))
                   | Some pk \<Rightarrow>
                       (case Parse (mp_Condition p) of
                          Inl err \<Rightarrow> Inl (ConditionUnparsed err)
                        | Inr e \<Rightarrow> Inr
                            \<lparr>pol_Expr = e, pol_Table = TableName md, pol_PKColumn = pk,
                             pol_Columns = RecordFields e, pol_Restrictive = Restrictive p\<rparr>))))\<rparr>"

definition NewPolicies :: policy_registry where
  "NewPolicies = (\<lambda>_. [])"

definition register_policy :: "(string \<Rightarrow> model_declaration list) \<Rightarrow> manifest_policy \<Rightarrow> policy_registry \<Rightarrow> policy_registry" where
  "register_policy modelsByModule p r =
     r(mp_AppliesTo p := r (mp_AppliesTo p) @ [resolve p modelsByModule])"

definition RegisterPolicies :: "manifest_policy list \<Rightarrow> (string \<Rightarrow> model_declaration list) \<Rightarrow> policy_registry \<Rightarrow> policy_registry" where
  "RegisterPolicies policies modelsByModule r = fold (register_policy modelsByModule) policies r"

definition For :: "policy_registry option \<Rightarrow> string \<Rightarrow> policy list" where
  "For reg permission = (case reg of None \<Rightarrow> [] | Some r \<Rightarrow> r permission)"

text \<open>A loaded module as the registry builders see it.\<close>

record policy_module =
  pm_Name :: string
  pm_Failed :: bool
  pm_ModelDecls :: "model_declaration list"
  pm_Policies :: "manifest_policy list"

definition models_by_module :: "policy_module list \<Rightarrow> string \<Rightarrow> model_declaration list" where
  "models_by_module mods name =
     (case List.find (\<lambda>m. pm_Name m = name \<and> \<not> pm_Failed m) mods of None \<Rightarrow> [] | Some m \<Rightarrow> pm_ModelDecls m)"

definition buildPolicyRegistry :: "policy_module list \<Rightarrow> policy_registry" where
  "buildPolicyRegistry mods =
     fold (\<lambda>m r. if pm_Failed m then r else RegisterPolicies (pm_Policies m) (models_by_module mods) r)
       mods NewPolicies"

section \<open>What the registry holds\<close>

lemma RegisterPolicies_For:
  "RegisterPolicies ps mbm r perm = r perm @ map (\<lambda>p. resolve p mbm) (filter (\<lambda>p. mp_AppliesTo p = perm) ps)"
  unfolding RegisterPolicies_def
  by (induction ps arbitrary: r) (auto simp: register_policy_def)

lemma buildPolicyRegistry_For:
  "buildPolicyRegistry mods perm =
     map (\<lambda>p. resolve p (models_by_module mods))
       (filter (\<lambda>p. mp_AppliesTo p = perm) (concat (map pm_Policies (filter (\<lambda>m. \<not> pm_Failed m) mods))))"
proof -
  have "fold (\<lambda>m r. if pm_Failed m then r else RegisterPolicies (pm_Policies m) mbm r) ms r perm =
     r perm @ map (\<lambda>p. resolve p mbm)
       (filter (\<lambda>p. mp_AppliesTo p = perm) (concat (map pm_Policies (filter (\<lambda>m. \<not> pm_Failed m) ms))))" for ms r mbm
    by (induction ms arbitrary: r) (auto simp: RegisterPolicies_For)
  from this[of _ _ NewPolicies] show ?thesis
    by (simp add: buildPolicyRegistry_def NewPolicies_def)
qed

text \<open>All resolved policies of one permission govern the same table and key.\<close>

lemma resolve_same_target:
  assumes "mp_AppliesTo p = mp_AppliesTo q"
    and "pol_Resolved (resolve p mbm) = Inr a" "pol_Resolved (resolve q mbm) = Inr b"
  shows "pol_Table a = pol_Table b \<and> pol_PKColumn a = pol_PKColumn b"
  using assms by (auto simp: resolve_def split: prod.splits option.splits sum.splits)

lemma resolve_columns:
  assumes "pol_Resolved (resolve p mbm) = Inr a"
  shows "set (pol_Columns a) = collectRecordFields (pol_Expr a) {} \<and> Parse (mp_Condition p) = Inr (pol_Expr a) \<and>
    pol_Restrictive a = Restrictive p"
  using assms by (auto simp: resolve_def split: prod.splits option.splits sum.splits)

lemma registry_same_target:
  assumes "P \<in> set (buildPolicyRegistry mods perm)" "P' \<in> set (buildPolicyRegistry mods perm)"
    and "pol_Resolved P = Inr a" "pol_Resolved P' = Inr b"
  shows "pol_Table a = pol_Table b \<and> pol_PKColumn a = pol_PKColumn b"
proof -
  from assms(1,2) obtain p q where "P = resolve p (models_by_module mods)" "P' = resolve q (models_by_module mods)"
    "mp_AppliesTo p = mp_AppliesTo q"
    unfolding buildPolicyRegistry_For by auto
  with assms(3,4) show ?thesis using resolve_same_target by blast
qed

lemma validated_policy:
  assumes "validatePolicies mn perms uses ps = []" "p \<in> set ps"
  shows "policy_violation mn (perms @ uses) p = None"
proof (rule ccontr)
  assume "policy_violation mn (perms @ uses) p \<noteq> None"
  then have "\<exists>v. v \<in> set (List.map_filter (policy_violation mn (perms @ uses)) ps)"
    using assms(2) by (auto simp: List.map_filter_def)
  with assms(1) show False by (simp add: validatePolicies_def)
qed

lemma validated_policy_name:
  assumes "validatePolicies mn perms uses ps = []" "p \<in> set ps"
  shows "mp_Name p \<noteq> []"
  using validated_policy[OF assms]
  by (auto simp: policy_violation_def splitPolicyName_def split: if_splits option.splits)

end
