(* ===== verification/Orm_Fields.thy ===== *)
theory Orm_Fields
  imports Module_Context
begin

text \<open>
  Field-level access control in the ORM host calls: masking of what a caller may not read
  (\<^verbatim>\<open>applyFieldMasking\<close>, \<^verbatim>\<open>wasm/host_orm.go\<close>) and the selection of what a caller may write
  (\<^verbatim>\<open>buildAssignment\<close>, \<^verbatim>\<open>wasm/host_orm_write.go\<close>). A Go record is a map; iterating over one is modelled
  on a list of its entries, in any order. \<^verbatim>\<open>uuid.Parse\<close> followed by \<^verbatim>\<open>String\<close> (a third-party
  package) is the parameter \<open>parse_uuid\<close>.
\<close>

section \<open>Reading\<close>

definition last4 :: "string \<Rightarrow> string" where
  "last4 s = (if length s > 4 then drop (length s - 4) s else s)"

definition first2 :: "string \<Rightarrow> string" where
  "first2 s = (if length s > 2 then take 2 s else s)"

definition applyMaskPattern :: "string \<Rightarrow> raw \<Rightarrow> string" where
  "applyMaskPattern pattern value =
     (case value of
        RString s \<Rightarrow>
          replace_all ''{first2}'' (first2 s)
            (replace_all ''{last4}'' (last4 s)
              (replace_all ''{length}'' (show_nat (length s)) pattern))
      | _ \<Rightarrow> pattern)"

definition fieldReadAllowed :: "module_context \<Rightarrow> permission_registry option \<Rightarrow> field_security_rule \<Rightarrow> bool" where
  "fieldReadAllowed mc permReg rule \<longleftrightarrow>
     mc_unmaskedReads mc \<or> fr_ReadPermission rule = [] \<or>
     callerHasPermission mc permReg (fr_ReadPermission rule)"

type_synonym db_record = "string \<rightharpoonup> raw"

text \<open>The body of the loop over one record's entries: a new value, or the key deleted.\<close>

definition mask_entry :: "module_context \<Rightarrow> field_security_registry \<Rightarrow> string \<Rightarrow> string \<Rightarrow> raw \<Rightarrow> raw option" where
  "mask_entry mc reg qualifiedModel fieldName value =
     (case Rule reg qualifiedModel fieldName of
        None \<Rightarrow> Some value
      | Some rule \<Rightarrow>
          if fieldReadAllowed mc (mc_PermissionRegistry mc) rule then Some value
          else (case fr_OnDeniedRead rule of
                  RMask \<Rightarrow> Some (RString (applyMaskPattern (fr_MaskPattern rule) value))
                | RNullify \<Rightarrow> Some RNil
                | ROmit \<Rightarrow> None))"

definition mask_record :: "module_context \<Rightarrow> string \<Rightarrow> db_record \<Rightarrow> db_record" where
  "mask_record mc qualifiedModel record =
     (let declared = (\<lambda>name. case resolveReadableModel mc qualifiedModel of
                               Some md \<Rightarrow> hasField md name
                             | None \<Rightarrow> True)
      in (\<lambda>name.
            case record name of
              None \<Rightarrow> None
            | Some value \<Rightarrow>
                if \<not> declared name then None
                else (case mc_FieldSecRegistry mc of
                        None \<Rightarrow> Some value
                      | Some reg \<Rightarrow> mask_entry mc reg qualifiedModel name value)))"

definition applyFieldMasking :: "module_context \<Rightarrow> string \<Rightarrow> db_record list \<Rightarrow> db_record list" where
  "applyFieldMasking mc qualifiedModel records = map (mask_record mc qualifiedModel) records"

datatype orm_error =
    FieldUnknown string
  | FieldNotSelectable string
  | UnknownField string
  | ComputedNotWritable string
  | ReadonlyNotWritable string
  | RelationNotWritable string
  | FieldWriteDenied string string
  | RelationValue string

text \<open>\<^verbatim>\<open>readableColumns\<close>: the declared fields with a column, or the requested ones if all are readable.\<close>

definition declared_fields :: "model_declaration \<Rightarrow> string \<rightharpoonup> field_def" where
  "declared_fields md = map_of (rev (map (\<lambda>f. (nf_Name f, nf_Def f)) (md_Fields md)))"

definition readableColumns :: "model_declaration \<Rightarrow> string list \<Rightarrow> (orm_error, string list) result" where
  "readableColumns md requested =
     (if requested = []
      then Inr (map nf_Name (filter (\<lambda>f. fd_Kind (nf_Def f) \<noteq> KindOne2Many) (md_Fields md)))
      else case first_err
                  (\<lambda>f. case declared_fields md f of
                         None \<Rightarrow> Some (FieldUnknown f)
                       | Some def \<Rightarrow>
                           if fd_Kind def = KindOne2Many then Some (FieldNotSelectable f) else None)
                  requested of
             Some e \<Rightarrow> Inl e
           | None \<Rightarrow> Inr requested)"

section \<open>Writing\<close>

definition writeDeniedBy :: "module_context \<Rightarrow> string \<Rightarrow> string \<Rightarrow> field_security_rule option" where
  "writeDeniedBy mc qualifiedModel field =
     (case mc_FieldSecRegistry mc of
        None \<Rightarrow> None
      | Some reg \<Rightarrow>
          (case Rule reg qualifiedModel field of
             None \<Rightarrow> None
           | Some rule \<Rightarrow>
               if fr_WritePermission rule = [] \<or>
                  callerHasPermission mc (mc_PermissionRegistry mc) (fr_WritePermission rule)
               then None else Some rule))"

datatype orm_value = Scalar raw | Strings "string list" | Anys "raw list"

fun all_strings :: "raw list \<Rightarrow> string list option" where
  "all_strings [] = Some []"
| "all_strings (RString s # vs) = map_option ((#) s) (all_strings vs)"
| "all_strings (_ # vs) = None"

fun parse_ids :: "(string \<Rightarrow> string option) \<Rightarrow> string list \<Rightarrow> string list option" where
  "parse_ids parse_uuid [] = Some []"
| "parse_ids parse_uuid (s # ss) =
     (case parse_uuid s of None \<Rightarrow> None | Some u \<Rightarrow> map_option ((#) u) (parse_ids parse_uuid ss))"

definition relationIDs :: "(string \<Rightarrow> string option) \<Rightarrow> orm_value \<Rightarrow> string list option" where
  "relationIDs parse_uuid value =
     (case (case value of Strings ss \<Rightarrow> Some ss | Anys vs \<Rightarrow> all_strings vs | Scalar _ \<Rightarrow> None) of
        None \<Rightarrow> None
      | Some ids \<Rightarrow> map_option (\<lambda>ps. remdups_adj (sort ps)) (parse_ids parse_uuid ids))"

definition add_writable :: "named_field \<Rightarrow> (string \<rightharpoonup> field_def) \<Rightarrow> (string \<rightharpoonup> field_def)" where
  "add_writable f known =
     (let known1 = known(nf_Name f \<mapsto> nf_Def f)
      in if fd_IsTree (nf_Def f) then known1(nf_Name f @ ''_path'' \<mapsto> zero_field) else known1)"

definition writable_fields :: "model_declaration \<Rightarrow> string \<rightharpoonup> field_def" where
  "writable_fields md = fold add_writable (md_Fields md) Map.empty"

definition IsJoinRelation :: "field_kind \<Rightarrow> bool" where
  "IsJoinRelation fk \<longleftrightarrow> fk = KindMany2Many \<or> fk = KindFileMulti"

definition assign_field :: "(string \<Rightarrow> string option) \<Rightarrow> module_context \<Rightarrow> string \<Rightarrow> (string \<rightharpoonup> field_def) \<Rightarrow>
    string list \<Rightarrow> string \<times> orm_value \<Rightarrow> (string \<times> orm_value) list \<Rightarrow>
    (orm_error, (string \<times> orm_value) list) result" where
  "assign_field parse_uuid mc qualifiedModel known serverFilled kv assigned =
     (let (k, v) = kv
      in case known k of
           None \<Rightarrow> Inl (UnknownField k)
         | Some def \<Rightarrow>
             if fd_IsComputed def then Inl (ComputedNotWritable k)
             else if fd_IsReadonly def \<and> k \<notin> set serverFilled then Inl (ReadonlyNotWritable k)
             else if fd_Kind def = KindOne2Many then Inl (RelationNotWritable k)
             else (case writeDeniedBy mc qualifiedModel k of
                     Some rule \<Rightarrow>
                       if fr_OnDeniedWrite rule = WIgnore then Inr assigned
                       else Inl (FieldWriteDenied k (fr_WritePermission rule))
                   | None \<Rightarrow>
                       if IsJoinRelation (fd_Kind def)
                       then (if relationIDs parse_uuid v = None then Inl (RelationValue k) else Inr assigned)
                       else Inr (assigned @ [(k, v)])))"

definition buildAssignment :: "(string \<Rightarrow> string option) \<Rightarrow> module_context \<Rightarrow> string \<Rightarrow> model_declaration \<Rightarrow>
    (string \<times> orm_value) list \<Rightarrow> string list \<Rightarrow> (orm_error, (string \<times> orm_value) list) result" where
  "buildAssignment parse_uuid mc qualifiedModel md record serverFilled =
     fold_res (assign_field parse_uuid mc qualifiedModel (writable_fields md) serverFilled) record []"

section \<open>Confidentiality of masked fields\<close>

text \<open>What a mask pattern can reveal of a value.\<close>

definition mask_view :: "raw \<Rightarrow> (nat \<times> string \<times> string) option" where
  "mask_view v = (case v of RString s \<Rightarrow> Some (length s, first2 s, last4 s) | _ \<Rightarrow> None)"

lemma applyMaskPattern_view:
  "mask_view v = mask_view v' \<Longrightarrow> applyMaskPattern p v = applyMaskPattern p v'"
  by (auto simp: mask_view_def applyMaskPattern_def split: raw.splits)

text \<open>
  Two values of a field are indistinguishable for a caller who may not read it: with the default
  and with \<^verbatim>\<open>Omit\<close> always, with \<^verbatim>\<open>Nullify\<close> when both or none are present, and with \<^verbatim>\<open>Mask\<close> when also
  their length, first two and last four characters agree.
\<close>

definition hidden_equal :: "denied_read option \<Rightarrow> raw option \<Rightarrow> raw option \<Rightarrow> bool" where
  "hidden_equal b v v' =
     (case b of
        Some Nullify \<Rightarrow> (v = None) = (v' = None)
      | Some (Mask _) \<Rightarrow> map_option mask_view v = map_option mask_view v'
      | _ \<Rightarrow> True)"

lemma denied_rule:
  assumes "fieldSecurityRuleFor f = Some rule" "fd_ReadPermission (nf_Def f) \<noteq> []"
  shows "fr_ReadPermission rule = fd_ReadPermission (nf_Def f) \<and>
    fr_OnDeniedRead rule = (case fd_DeniedRead (nf_Def f) of
       Some Nullify \<Rightarrow> RNullify | Some (Mask _) \<Rightarrow> RMask | _ \<Rightarrow> ROmit)"
  using assms by (auto simp: fieldSecurityRuleFor_def Let_def split: if_splits)

lemma ruleFor_some: "fd_ReadPermission (nf_Def f) \<noteq> [] \<Longrightarrow> \<exists>rule. fieldSecurityRuleFor f = Some rule"
  by (simp add: fieldSecurityRuleFor_def Let_def)

lemma mask_entry_hidden:
  assumes "Rule reg q n = fieldSecurityRuleFor f" "fd_ReadPermission (nf_Def f) \<noteq> []"
    and "\<not> mc_unmaskedReads mc"
    and "\<not> callerHasPermission mc (mc_PermissionRegistry mc) (fd_ReadPermission (nf_Def f))"
    and "hidden_equal (fd_DeniedRead (nf_Def f)) v v'"
  shows "(case v of None \<Rightarrow> None | Some x \<Rightarrow> mask_entry mc reg q n x) =
    (case v' of None \<Rightarrow> None | Some x \<Rightarrow> mask_entry mc reg q n x)"
proof -
  obtain rule where rule: "fieldSecurityRuleFor f = Some rule" using ruleFor_some[OF assms(2)] by blast
  note dr = denied_rule[OF rule assms(2)]
  have entry: "mask_entry mc reg q n x =
      (case fr_OnDeniedRead rule of
         RMask \<Rightarrow> Some (RString (applyMaskPattern (fr_MaskPattern rule) x))
       | RNullify \<Rightarrow> Some RNil
       | ROmit \<Rightarrow> None)" for x
    using assms(1-4) rule dr by (simp add: mask_entry_def fieldReadAllowed_def)
  show ?thesis
  proof (cases "fr_OnDeniedRead rule")
    case ROmit
    then show ?thesis by (simp add: entry split: option.splits)
  next
    case RNullify
    with dr have "fd_DeniedRead (nf_Def f) = Some Nullify" by (auto split: option.splits denied_read.splits)
    with assms(5) RNullify show ?thesis by (auto simp: entry hidden_equal_def split: option.splits)
  next
    case RMask
    with dr obtain p where "fd_DeniedRead (nf_Def f) = Some (Mask p)" by (auto split: option.splits denied_read.splits)
    with assms(5) have "map_option mask_view v = map_option mask_view v'" by (simp add: hidden_equal_def)
    with RMask show ?thesis
      by (cases v; cases v') (auto simp: entry intro: applyMaskPattern_view)
  qed
qed

text \<open>A module with one model, whose field \<^verbatim>\<open>iban\<close> is masked and \<^verbatim>\<open>note\<close> is read-only.\<close>

definition sample_model :: model_declaration where
  "sample_model =
     Field ''note'' (Readonly (of_kind KindText))
       (Field ''iban'' (OnDeniedRead (Mask ''**{last4}'') (of_kind KindText)\<lparr>fd_ReadPermission := ''p''\<rparr>)
         (Define ''m''))"

definition sample_context :: module_context where
  "sample_context = NewModuleContext ''a'' ''u'' [] [] [] ''t''
     \<lparr>sn_ModelDecls = [sample_model], sn_ComputeTargets = Map.empty,
      sn_FieldSecRegistry = Some (RegisterFieldSecurity ''a'' [sample_model] NewFieldSecurity),
      sn_PermissionRegistry = None, sn_PolicyRegistry = None\<rparr>"

lemmas sample_defs = sample_model_def sample_context_def NewModuleContext_def Field_def Readonly_def
  OnDeniedRead_def of_kind_def zero_field_def Define_def

text \<open>
  (C2) A field the caller may not read does not flow into the answer. The registry is the one
  built from the module's models. For a model of the module and a field that declares a read
  permission the caller does not hold, two sets of records that differ only in that field, by
  values its denied-read behaviour hides, give the same masked records.
\<close>

theorem field_read_confidential:
  assumes "mc_FieldSecRegistry mc = Some (RegisterFieldSecurity moduleName decls NewFieldSecurity)"
    and "distinct (map (\<lambda>md. QualifiedName md moduleName) decls)" "md \<in> set decls"
    and "distinct (map nf_Name (md_Fields md))" "f \<in> set (md_Fields md)"
    and "fd_ReadPermission (nf_Def f) \<noteq> []" "\<not> mc_unmaskedReads mc"
    and "\<not> callerHasPermission mc (mc_PermissionRegistry mc) (fd_ReadPermission (nf_Def f))"
    and "list_all2 (\<lambda>r r'. (\<forall>g. g \<noteq> nf_Name f \<longrightarrow> r g = r' g) \<and>
           hidden_equal (fd_DeniedRead (nf_Def f)) (r (nf_Name f)) (r' (nf_Name f))) records records'"
  shows "applyFieldMasking mc (QualifiedName md moduleName) records =
    applyFieldMasking mc (QualifiedName md moduleName) records'"
proof -
  let ?q = "QualifiedName md moduleName"
  let ?reg = "RegisterFieldSecurity moduleName decls NewFieldSecurity"
  have rule: "Rule ?reg ?q (nf_Name f) = fieldSecurityRuleFor f"
    by (rule Rule_registered[OF assms(2-5)])
  have one: "mask_record mc ?q r = mask_record mc ?q r'"
    if same: "\<forall>g. g \<noteq> nf_Name f \<longrightarrow> r g = r' g"
      and hid: "hidden_equal (fd_DeniedRead (nf_Def f)) (r (nf_Name f)) (r' (nf_Name f))" for r r'
  proof
    fix g
    show "mask_record mc ?q r g = mask_record mc ?q r' g"
    proof (cases "g = nf_Name f")
      case True
      note eq = mask_entry_hidden[OF rule assms(6-8) hid]
      show ?thesis
        using eq unfolding True mask_record_def Let_def assms(1)
        by (auto split: option.splits)
    next
      case False
      with same show ?thesis by (simp add: mask_record_def Let_def)
    qed
  qed
  have "map (mask_record mc ?q) records = map (mask_record mc ?q) records'"
    using assms(9) by (induction rule: list_all2_induct) (use one in auto)
  then show ?thesis by (simp add: applyFieldMasking_def)
qed

theorem field_read_confidential_witness:
  "applyFieldMasking sample_context (QualifiedName sample_model ''a'') [[''iban'' \<mapsto> RString ''ab1wxyz'']] =
   applyFieldMasking sample_context (QualifiedName sample_model ''a'') [[''iban'' \<mapsto> RString ''ab2wxyz'']]"
proof -
  let ?f = "\<lparr>nf_Name = ''iban'', nf_Def = OnDeniedRead (Mask ''**{last4}'') (of_kind KindText)\<lparr>fd_ReadPermission := ''p''\<rparr>,
    nf_DeclaringModule = []\<rparr>"
  have fields: "?f \<in> set (md_Fields sample_model)" "distinct (map nf_Name (md_Fields sample_model))"
    by (simp_all add: sample_defs)
  show ?thesis
    by (rule field_read_confidential[of sample_context "''a''" "[sample_model]" sample_model ?f])
      (use fields in \<open>simp_all add: sample_context_def NewModuleContext_def OnDeniedRead_def callerHasPermission_def
         hidden_equal_def mask_view_def first2_def last4_def\<close>)
qed

section \<open>Integrity of writes\<close>

definition may_write :: "module_context \<Rightarrow> string \<Rightarrow> model_declaration \<Rightarrow> string list \<Rightarrow> string \<Rightarrow> bool" where
  "may_write mc q md serverFilled k \<longleftrightarrow>
     (\<exists>def. writable_fields md k = Some def \<and> \<not> fd_IsComputed def \<and>
        (fd_IsReadonly def \<longrightarrow> k \<in> set serverFilled) \<and> fd_Kind def \<noteq> KindOne2Many \<and>
        \<not> IsJoinRelation (fd_Kind def)) \<and>
     (\<forall>reg rule. mc_FieldSecRegistry mc = Some reg \<and> Rule reg q k = Some rule \<and> fr_WritePermission rule \<noteq> [] \<longrightarrow>
        callerHasPermission mc (mc_PermissionRegistry mc) (fr_WritePermission rule))"

lemma writeDeniedBy_None:
  "writeDeniedBy mc q k = None \<Longrightarrow> mc_FieldSecRegistry mc = Some reg \<Longrightarrow> Rule reg q k = Some rule \<Longrightarrow>
     fr_WritePermission rule = [] \<or> callerHasPermission mc (mc_PermissionRegistry mc) (fr_WritePermission rule)"
  by (auto simp: writeDeniedBy_def split: if_splits)

lemma assign_field_ok:
  assumes "assign_field u mc q (writable_fields md) sf (k, v) acc = Inr acc'"
  shows "acc' = acc \<or> (acc' = acc @ [(k, v)] \<and> may_write mc q md sf k)"
  using assms writeDeniedBy_None[of mc q k]
  by (auto simp: assign_field_def may_write_def split: option.splits if_splits)

lemma assign_all_ok:
  assumes "fold_res (assign_field u mc q (writable_fields md) sf) kvs acc = Inr out"
  shows "\<exists>new. out = acc @ new \<and> subseq new kvs \<and> (\<forall>(k, v) \<in> set new. may_write mc q md sf k)"
  using assms
proof (induction kvs arbitrary: acc)
  case (Cons kv kvs)
  obtain k v where kv: "kv = (k, v)" by (cases kv)
  obtain acc1 where step: "assign_field u mc q (writable_fields md) sf (k, v) acc = Inr acc1"
    and rest: "fold_res (assign_field u mc q (writable_fields md) sf) kvs acc1 = Inr out"
    using Cons.prems by (auto simp: kv split: sum.splits)
  obtain new where new: "out = acc1 @ new" "subseq new kvs" "\<forall>(k, v) \<in> set new. may_write mc q md sf k"
    using Cons.IH[OF rest] by blast
  from assign_field_ok[OF step] show ?case
  proof
    assume "acc1 = acc"
    with new show ?thesis by (metis list_emb_Cons)
  next
    assume "acc1 = acc @ [(k, v)] \<and> may_write mc q md sf k"
    with new have "out = acc @ ((k, v) # new)" "subseq ((k, v) # new) (kv # kvs)"
      "\<forall>(k, v) \<in> set ((k, v) # new). may_write mc q md sf k"
      by (auto simp: kv)
    then show ?thesis by blast
  qed
qed auto



end
