(* ===== verification/Authz.thy ===== *)
theory Authz
  imports Policies Orm_Fields Domain_Compile_Props
begin

text \<open>
  The authorisation host calls of a module (\<^verbatim>\<open>wasm/host_authz.go\<close>, \<^verbatim>\<open>wasm/host_authz_policy.go\<close>,
  \<^verbatim>\<open>wasm/host_authz_row_filter.go\<close>): \<^verbatim>\<open>check\<close> and \<^verbatim>\<open>require\<close>, with the policies of a permission
  evaluated on one record, \<^verbatim>\<open>field_check\<close>, and \<^verbatim>\<open>row_filter\<close>. What is left to the database is a
  parameter: \<open>begin_tx\<close> is the error of opening the tenant-scoped read transaction, if any, and
  \<open>query_row\<close> runs a statement with one argument and scans the row it returns. Decoding the input
  from the module's memory and encoding the answer are left out: the functions take the decoded
  input and return the answer as a value.
\<close>

section \<open>Answers\<close>

datatype reason =
    NotDeclared string
  | NotHeld string
  | RestrictiveRejects string
  | NoPermissivePolicy
  | NotAdmittedBy string
  | NotAdmittedByAny nat

datatype policy_failure = Unresolved unresolved | EvalFailed eval_error | CompileFailed compile_error

datatype host_error =
    CapabilityDenied
  | NoDatabase
  | UnavailableDb string
  | ResourceNotFound string
  | PolicyEvaluation string policy_failure
  | IndexOutOfRange

datatype db_error = NoRows | PgError string | DbError string

section \<open>Permission checks\<close>

definition evaluatePermissionCheck :: "module_context \<Rightarrow> string \<Rightarrow> reason option" where
  "evaluatePermissionCheck mc permissionName =
     (case mc_PermissionRegistry mc of
        None \<Rightarrow> Some (NotDeclared permissionName)
      | Some permReg \<Rightarrow>
          if Index permReg permissionName = None then Some (NotDeclared permissionName)
          else if \<not> callerHasPermission mc (Some permReg) permissionName then Some (NotHeld permissionName)
          else None)"

datatype check_kind = CheckRead | CheckWrite

definition evaluateFieldCheck :: "module_context \<Rightarrow> string \<Rightarrow> string \<Rightarrow> check_kind \<Rightarrow> bool" where
  "evaluateFieldCheck mc modelName fieldName k =
     (case mc_FieldSecRegistry mc of
        None \<Rightarrow> True
      | Some reg \<Rightarrow>
          (case Rule reg modelName fieldName of
             None \<Rightarrow> True
           | Some rule \<Rightarrow>
               let permissionName =
                 (if k = CheckWrite then fr_WritePermission rule else fr_ReadPermission rule)
               in permissionName = [] \<or> callerHasPermission mc (mc_PermissionRegistry mc) permissionName))"

section \<open>Policies on one record\<close>

definition quoteIdentifier :: "string \<Rightarrow> string" where
  "quoteIdentifier name = dquote # replace_char dquote [dquote, dquote] name @ [dquote]"

definition policyQuery :: "string \<Rightarrow> string \<Rightarrow> string list \<Rightarrow> string" where
  "policyQuery table pk columns =
     ''SELECT '' @ join '', '' (map quoteIdentifier columns) @ '' FROM '' @ quoteIdentifier table @
     '' WHERE '' @ quoteIdentifier pk @ '' = $1''"

fun recordValue :: "raw \<Rightarrow> raw" where
  "recordValue (RBytes s) = RString s"
| "recordValue (RUuid u) = RString (uuid_string u)"
| "recordValue v = v"

definition policyColumns :: "string \<Rightarrow> resolved_policy list \<Rightarrow> string list" where
  "policyColumns pk policies = sort (remdups (pk # concat (map pol_Columns policies)))"

definition fetchPolicyRecord :: "string option \<Rightarrow> (string \<Rightarrow> string \<Rightarrow> (db_error, raw list) result) \<Rightarrow>
    resolved_policy list \<Rightarrow> string \<Rightarrow> (host_error, string \<rightharpoonup> raw) result" where
  "fetchPolicyRecord begin_tx query_row policies resourceID =
     (case policies of
        [] \<Rightarrow> Inl IndexOutOfRange
      | p # _ \<Rightarrow>
          let columns = policyColumns (pol_PKColumn p) policies
          in case begin_tx of
               Some err \<Rightarrow> Inl (UnavailableDb err)
             | None \<Rightarrow>
                 (case query_row (policyQuery (pol_Table p) (pol_PKColumn p) columns) resourceID of
                    Inl NoRows \<Rightarrow> Inl (ResourceNotFound resourceID)
                  | Inl (PgError code) \<Rightarrow>
                      if code = ''22P02'' then Inl (ResourceNotFound resourceID) else Inl (UnavailableDb code)
                  | Inl (DbError err) \<Rightarrow> Inl (UnavailableDb err)
                  | Inr values \<Rightarrow> Inr (map_of (zip columns (map recordValue values)))))"

definition callerEnv :: "module_context \<Rightarrow> (string \<rightharpoonup> raw) \<Rightarrow> env" where
  "callerEnv mc row =
     \<lparr>Record = row, UserID = mc_UserID mc, ContactID = mc_ContactID mc, TenantID = mc_TenantID mc,
      Roles = mc_Roles mc, HasPermission = Some (callerHasPermission mc (mc_PermissionRegistry mc))\<rparr>"

text \<open>The counters of the loop over the policies.\<close>

record tally =
  permissive :: nat
  admitting :: nat
  rejectedBy :: string

definition judge :: "env \<Rightarrow> string \<times> resolved_policy \<Rightarrow> tally \<Rightarrow> (host_error, tally) result" where
  "judge env np t =
     (case np of (name, p) \<Rightarrow>
        (case Eval (pol_Expr p) env of
           Inl err \<Rightarrow> Inl (PolicyEvaluation name (EvalFailed err))
         | Inr ok \<Rightarrow>
             Inr (if pol_Restrictive p \<and> \<not> ok \<and> rejectedBy t = [] then t\<lparr>rejectedBy := name\<rparr>
                  else if \<not> pol_Restrictive p
                  then t\<lparr>permissive := permissive t + 1, admitting := admitting t + (if ok then 1 else 0)\<rparr>
                  else t)))"

definition firstPermissive :: "(string \<times> resolved_policy) list \<Rightarrow> string" where
  "firstPermissive policies =
     (case List.find (\<lambda>(_, p). \<not> pol_Restrictive p) policies of None \<Rightarrow> [] | Some (name, _) \<Rightarrow> name)"

definition verdict :: "(string \<times> resolved_policy) list \<Rightarrow> tally \<Rightarrow> reason option" where
  "verdict policies t =
     (if rejectedBy t \<noteq> [] then Some (RestrictiveRejects (rejectedBy t))
      else if permissive t = 0 then Some NoPermissivePolicy
      else if admitting t = 0 \<and> permissive t = 1 then Some (NotAdmittedBy (firstPermissive policies))
      else if admitting t = 0 then Some (NotAdmittedByAny (permissive t))
      else None)"

definition resolved_of :: "policy list \<Rightarrow> (string \<times> resolved_policy) list" where
  "resolved_of = List.map_filter
     (\<lambda>p. case pol_Resolved p of Inl _ \<Rightarrow> None | Inr r \<Rightarrow> Some (pol_Name p, r))"

definition unresolved_error :: "policy \<Rightarrow> host_error option" where
  "unresolved_error p =
     (case pol_Resolved p of Inl u \<Rightarrow> Some (PolicyEvaluation (pol_Name p) (Unresolved u)) | Inr _ \<Rightarrow> None)"

definition evaluateRecordPolicies :: "string option \<Rightarrow> (string \<Rightarrow> string \<Rightarrow> (db_error, raw list) result) \<Rightarrow>
    module_context \<Rightarrow> policy list \<Rightarrow> string \<Rightarrow> (host_error, reason option) result" where
  "evaluateRecordPolicies begin_tx query_row mc policies resourceID =
     (case first_err unresolved_error policies of
        Some err \<Rightarrow> Inl err
      | None \<Rightarrow>
          and_then (fetchPolicyRecord begin_tx query_row (map snd (resolved_of policies)) resourceID) (\<lambda>record.
            and_then (fold_res (judge (callerEnv mc record)) (resolved_of policies)
                 \<lparr>permissive = 0, admitting = 0, rejectedBy = []\<rparr>) (\<lambda>t.
              Inr (verdict (resolved_of policies) t))))"

section \<open>host.authz.check and require\<close>

datatype check_answer = RequireOk | Allowed | Denied reason | Forbidden reason string | CheckError host_error

definition authzCheck :: "bool \<Rightarrow> bool \<Rightarrow> string option \<Rightarrow> (string \<Rightarrow> string \<Rightarrow> (db_error, raw list) result) \<Rightarrow>
    module_context \<Rightarrow> string \<Rightarrow> string \<Rightarrow> bool \<Rightarrow> check_answer" where
  "authzCheck capability db begin_tx query_row mc permission resourceID require =
     (if \<not> capability then CheckError CapabilityDenied
      else
        let outcome =
          (case evaluatePermissionCheck mc permission of
             Some reason \<Rightarrow> Inr (Some reason)
           | None \<Rightarrow>
               let policies = For (mc_PolicyRegistry mc) permission
               in if resourceID \<noteq> [] \<and> policies \<noteq> []
                  then (if \<not> db then Inl NoDatabase
                        else evaluateRecordPolicies begin_tx query_row mc policies resourceID)
                  else Inr None)
        in case outcome of
             Inl err \<Rightarrow> CheckError err
           | Inr None \<Rightarrow> if require then RequireOk else Allowed
           | Inr (Some reason) \<Rightarrow> if require then Forbidden reason permission else Denied reason)"

section \<open>host.authz.row_filter\<close>

record filter_state =
  fs_permissive :: "string list"
  fs_restrictive :: "string list"
  fs_params :: "arg list"

definition filter_policy :: "(string \<Rightarrow> string) \<Rightarrow> (string \<Rightarrow> string option) \<Rightarrow> env \<Rightarrow> string \<Rightarrow> policy \<Rightarrow> filter_state \<Rightarrow>
    (host_error, filter_state) result" where
  "filter_policy sanitize parse_uuid env table p st =
     (case pol_Resolved p of
        Inl u \<Rightarrow> Inl (PolicyEvaluation (pol_Name p) (Unresolved u))
      | Inr r \<Rightarrow>
          if pol_Table r \<noteq> table then Inr st
          else (case CompileToFilter sanitize parse_uuid (pol_Expr r) env (length (fs_params st)) of
                  Inl err \<Rightarrow> Inl (PolicyEvaluation (pol_Name p) (CompileFailed err))
                | Inr (sql, args) \<Rightarrow>
                    Inr ((if pol_Restrictive r then st\<lparr>fs_restrictive := fs_restrictive st @ [sql]\<rparr>
                          else st\<lparr>fs_permissive := fs_permissive st @ [sql]\<rparr>)
                         \<lparr>fs_params := fs_params st @ args\<rparr>)))"

definition filter_sql :: "filter_state \<Rightarrow> string \<times> arg list" where
  "filter_sql st =
     (if fs_permissive st = [] \<and> fs_restrictive st = [] then ([], [])
      else if fs_permissive st = [] then (''AND FALSE'', [])
      else let admitted = join '' OR '' (fs_permissive st);
               admitted' = (if fs_restrictive st \<noteq> []
                            then join '' AND '' ((''('' @ admitted @ '')'') # fs_restrictive st)
                            else admitted)
           in (''AND ('' @ admitted' @ '')'', fs_params st))"

definition rowFilter :: "(string \<Rightarrow> string) \<Rightarrow> (string \<Rightarrow> string option) \<Rightarrow> module_context \<Rightarrow> string \<Rightarrow> string \<Rightarrow>
    (host_error, string \<times> arg list) result" where
  "rowFilter sanitize parse_uuid mc table permission =
     (if evaluatePermissionCheck mc permission \<noteq> None then Inr (''AND FALSE'', [])
      else and_then
             (fold_res (filter_policy sanitize parse_uuid (callerEnv mc Map.empty) table)
               (For (mc_PolicyRegistry mc) permission)
               \<lparr>fs_permissive = [], fs_restrictive = [], fs_params = []\<rparr>)
             (\<lambda>st. Inr (filter_sql st)))"

end
