(* ===== verification/Authz_Props.thy ===== *)
theory Authz_Props
  imports Authz "HOL-Library.Multiset"
begin

text \<open>
  What the authorisation host calls decide: a record-scoped check allows exactly what the policies
  of the permission admit, evaluated on the whole row, and fails closed; the row filter restricts
  whenever a policy governs the table, and its text is self-contained with one placeholder per
  parameter; the field check agrees with what the ORM enforces.
\<close>

section \<open>The loop over the policies\<close>

definition admits :: "env \<Rightarrow> resolved_policy \<Rightarrow> bool \<Rightarrow> bool" where
  "admits env p b \<longleftrightarrow> Eval (pol_Expr p) env = Inr b"

lemma judge_ok:
  "admits env p b \<Longrightarrow> judge env (n, p) t =
     Inr (t\<lparr>permissive := permissive t + (if pol_Restrictive p then 0 else 1),
            admitting := admitting t + (if pol_Restrictive p then 0 else if b then 1 else 0),
            rejectedBy := (if rejectedBy t = [] \<and> pol_Restrictive p \<and> \<not> b then n else rejectedBy t)\<rparr>)"
  by (simp add: judge_def admits_def)

lemma judge_total: "(\<exists>t'. judge env (n, p) t = Inr t') \<longleftrightarrow> (\<exists>b. admits env p b)"
  by (auto simp: judge_def admits_def split: sum.splits)

lemma judge_all:
  assumes "\<forall>(n, p) \<in> set nps. n \<noteq> []"
  shows "(\<exists>t'. fold_res (judge env) nps t = Inr t' \<and> rejectedBy t' = [] \<and> admitting t' \<noteq> 0) \<longleftrightarrow>
    (\<forall>(n, p) \<in> set nps. \<exists>b. admits env p b \<and> (pol_Restrictive p \<longrightarrow> b)) \<and> rejectedBy t = [] \<and>
    (admitting t \<noteq> 0 \<or> (\<exists>(n, p) \<in> set nps. \<not> pol_Restrictive p \<and> admits env p True))"
  using assms
proof (induction nps arbitrary: t)
  case (Cons np nps)
  obtain n p where np: "np = (n, p)" by (cases np)
  show ?case
  proof (cases "\<exists>b. admits env p b")
    case False
    then have "\<not> (\<exists>t'. judge env (n, p) t = Inr t')" by (simp add: judge_total)
    then have "fold_res (judge env) (np # nps) t \<noteq> Inr t'" for t'
      by (auto simp: np split: sum.splits)
    with False show ?thesis by (auto simp: np)
  next
    case True
    then obtain b where b: "admits env p b" by blast
    then have uniq: "admits env p b' \<longleftrightarrow> b' = b" for b' by (auto simp: admits_def)
    have nonempty: "n \<noteq> []" "\<forall>(n, p) \<in> set nps. n \<noteq> []" using Cons.prems by (auto simp: np)
    let ?t1 = "t\<lparr>permissive := permissive t + (if pol_Restrictive p then 0 else 1),
      admitting := admitting t + (if pol_Restrictive p then 0 else if b then 1 else 0),
      rejectedBy := (if rejectedBy t = [] \<and> pol_Restrictive p \<and> \<not> b then n else rejectedBy t)\<rparr>"
    have step: "fold_res (judge env) (np # nps) t = fold_res (judge env) nps ?t1"
      by (simp add: np judge_ok[OF b])
    show ?thesis
      unfolding step Cons.IH[OF nonempty(2)] using nonempty(1) by (auto simp: np uniq split: if_splits)
  qed
qed auto

lemma tally_le:
  "fold_res (judge env) nps t = Inr t' \<Longrightarrow> admitting t \<le> permissive t \<Longrightarrow> admitting t' \<le> permissive t'"
proof (induction nps arbitrary: t)
  case (Cons np nps)
  obtain n p where np: "np = (n, p)" by (cases np)
  from Cons.prems(1) obtain t1 where step: "judge env (n, p) t = Inr t1" and rest: "fold_res (judge env) nps t1 = Inr t'"
    by (auto simp: np split: sum.splits)
  from step Cons.prems(2) have "admitting t1 \<le> permissive t1"
    by (auto simp: judge_def split: sum.splits if_splits)
  with Cons.IH[OF rest] show ?case by blast
qed simp

lemma verdict_None:
  "admitting t \<le> permissive t \<Longrightarrow> verdict nps t = None \<longleftrightarrow> rejectedBy t = [] \<and> admitting t \<noteq> 0"
  by (auto simp: verdict_def)

lemma resolved_of_all:
  assumes "first_err unresolved_error ps = None"
  shows "set (resolved_of ps) = {(pol_Name P, a) | P a. P \<in> set ps \<and> pol_Resolved P = Inr a}"
    and "\<forall>P \<in> set ps. \<exists>a. pol_Resolved P = Inr a"
proof -
  show "\<forall>P \<in> set ps. \<exists>a. pol_Resolved P = Inr a"
  proof
    fix P assume "P \<in> set ps"
    with assms have "unresolved_error P = None" by simp
    then show "\<exists>a. pol_Resolved P = Inr a"
      by (cases "pol_Resolved P") (simp_all add: unresolved_error_def)
  qed
  show "set (resolved_of ps) = {(pol_Name P, a) | P a. P \<in> set ps \<and> pol_Resolved P = Inr a}"
    by (auto simp: resolved_of_def List.map_filter_def split: sum.splits) force
qed

lemma resolved_ball:
  assumes "first_err unresolved_error ps = None"
  shows "(\<forall>(n, q) \<in> set (resolved_of ps). X q) \<longleftrightarrow> (\<forall>P \<in> set ps. \<exists>a. pol_Resolved P = Inr a \<and> X a)"
proof -
  have "(\<forall>(n, q) \<in> set (resolved_of ps). X q) \<longleftrightarrow> (\<forall>P \<in> set ps. \<forall>a. pol_Resolved P = Inr a \<longrightarrow> X a)"
    unfolding resolved_of_all(1)[OF assms] by blast
  also have "\<dots> \<longleftrightarrow> (\<forall>P \<in> set ps. \<exists>a. pol_Resolved P = Inr a \<and> X a)"
    using resolved_of_all(2)[OF assms] by (intro ball_cong refl) fastforce
  finally show ?thesis .
qed

lemma resolved_bex:
  assumes "first_err unresolved_error ps = None"
  shows "(\<exists>(n, q) \<in> set (resolved_of ps). X q) \<longleftrightarrow> (\<exists>P \<in> set ps. \<exists>a. pol_Resolved P = Inr a \<and> X a)"
  unfolding resolved_of_all(1)[OF assms] by blast

section \<open>The record that is fetched\<close>

lemma normalize_recordValue [simp]: "normalize (recordValue v) = normalize v"
  by (cases v) simp_all

text \<open>
  What the code relies on in the database: the row has the columns the statement selects, and the
  statement returns its values in these columns, in their order.
\<close>

definition reads_row :: "(string \<Rightarrow> string \<Rightarrow> (db_error, raw list) result) \<Rightarrow> string \<Rightarrow> string \<Rightarrow> string list \<Rightarrow>
    string \<Rightarrow> (string \<rightharpoonup> raw) \<Rightarrow> bool" where
  "reads_row query_row table pk columns key row \<longleftrightarrow>
     set columns \<subseteq> dom row \<and>
     query_row (policyQuery table pk columns) key = Inr (map (\<lambda>c. the (row c)) columns)"

lemma map_of_columns:
  assumes "set cs \<subseteq> dom row" "c \<in> set cs"
  shows "map_of (zip cs (map recordValue (map (\<lambda>c. the (row c)) cs))) c = map_option recordValue (row c)"
proof -
  have "zip cs (map recordValue (map (\<lambda>c. the (row c)) cs)) = map (\<lambda>c. (c, recordValue (the (row c)))) cs"
    by (simp add: zip_map2 map_zip_map2 comp_def zip_same_conv_map)
  with assms show ?thesis by (auto simp: map_of_map_restrict)
qed

lemma fetch_evaluates:
  assumes "reads_row query_row (pol_Table p) (pol_PKColumn p) (policyColumns (pol_PKColumn p) (p # ps)) key row"
    and "\<forall>q \<in> set (p # ps). set (pol_Columns q) = collectRecordFields (pol_Expr q) {}"
  shows "\<exists>fetched. fetchPolicyRecord None query_row (p # ps) key = Inr fetched \<and>
    (\<forall>q \<in> set (p # ps). admits (callerEnv mc fetched) q = admits (callerEnv mc row) q)"
proof -
  let ?cs = "policyColumns (pol_PKColumn p) (p # ps)"
  have cs: "set ?cs = insert (pol_PKColumn p) (\<Union>q \<in> set (p # ps). set (pol_Columns q))"
    unfolding policyColumns_def by (simp only: set_sort set_remdups set_simps set_concat set_map image_image)
  have sub: "set ?cs \<subseteq> dom row" using assms(1) by (simp add: reads_row_def)
  let ?rec = "map_of (zip ?cs (map recordValue (map (\<lambda>c. the (row c)) ?cs)))"
  have "fetchPolicyRecord None query_row (p # ps) key = Inr ?rec"
    using assms(1) by (simp add: fetchPolicyRecord_def reads_row_def Let_def)
  moreover have "admits (callerEnv mc ?rec) q = admits (callerEnv mc row) q" if q: "q \<in> set (p # ps)" for q
  proof -
    have "map_option normalize (?rec f) = map_option normalize (Record (callerEnv mc row) f)"
      if "f \<in> collectRecordFields (pol_Expr q) {}" for f
    proof -
      have "f \<in> set ?cs" unfolding cs using that q assms(2) by blast
      from map_of_columns[OF sub this] show ?thesis
        by (simp add: callerEnv_def option.map_comp comp_def)
    qed
    from eval_normalize_cong[of "pol_Expr q" ?rec "callerEnv mc row", OF this]
    show ?thesis by (simp add: admits_def Eval_def callerEnv_def fun_eq_iff)
  qed
  ultimately show ?thesis by blast
qed

section \<open>The decision\<close>

lemma evaluateRecordPolicies_allows:
  assumes "\<forall>P \<in> set ps. pol_Name P \<noteq> []" "ps \<noteq> []"
    and target: "\<And>P a. P \<in> set ps \<Longrightarrow> pol_Resolved P = Inr a \<Longrightarrow>
       pol_Table a = table \<and> pol_PKColumn a = pk \<and> set (pol_Columns a) = collectRecordFields (pol_Expr a) {}"
    and "reads_row query_row table pk (policyColumns pk (map snd (resolved_of ps))) key row"
  shows "evaluateRecordPolicies None query_row mc ps key = Inr None \<longleftrightarrow>
    (\<forall>P \<in> set ps. \<exists>a b. pol_Resolved P = Inr a \<and> Eval (pol_Expr a) (callerEnv mc row) = Inr b \<and>
       (pol_Restrictive a \<longrightarrow> b)) \<and>
    (\<exists>P \<in> set ps. \<exists>a. pol_Resolved P = Inr a \<and> \<not> pol_Restrictive a \<and>
       Eval (pol_Expr a) (callerEnv mc row) = Inr True)"
proof (cases "first_err unresolved_error ps")
  case (Some err)
  then obtain P where "P \<in> set ps" "unresolved_error P = Some err" using first_err_SomeD by fast
  then have "\<nexists>a. pol_Resolved P = Inr a" by (auto simp: unresolved_error_def)
  with \<open>P \<in> set ps\<close> have "\<not> (\<forall>P \<in> set ps. \<exists>a b. pol_Resolved P = Inr a \<and>
      Eval (pol_Expr a) (callerEnv mc row) = Inr b \<and> (pol_Restrictive a \<longrightarrow> b))" by blast
  with Some show ?thesis by (simp add: evaluateRecordPolicies_def)
next
  case None
  note res = resolved_of_all[OF None]
  obtain P where P: "P \<in> set ps" using assms(2) by (cases ps) auto
  have nonempty: "resolved_of ps \<noteq> []"
  proof -
    obtain a where "pol_Resolved P = Inr a" using res(2) P by blast
    then have "(pol_Name P, a) \<in> set (resolved_of ps)" unfolding res(1) using P by blast
    then show ?thesis by auto
  qed
  then obtain n p nps where nps: "resolved_of ps = (n, p) # nps" by (cases "resolved_of ps") auto
  have each: "pol_Table q = table \<and> pol_PKColumn q = pk \<and> set (pol_Columns q) = collectRecordFields (pol_Expr q) {}" if "q \<in> snd ` set (resolved_of ps)" for q
  proof -
    from that obtain P where "P \<in> set ps" "pol_Resolved P = Inr q" by (auto simp: res(1))
    then show ?thesis by (rule target)
  qed
  have p: "pol_Table p = table" "pol_PKColumn p = pk" using each[of p] by (auto simp: nps)
  obtain fetched where rec: "fetchPolicyRecord None query_row (map snd (resolved_of ps)) key = Inr fetched"
    and same: "\<forall>q \<in> snd ` set (resolved_of ps). admits (callerEnv mc fetched) q = admits (callerEnv mc row) q"
  proof -
    have "set (resolved_of ps) = set ((n, p) # nps)" by (simp add: nps)
    with each have "\<forall>q \<in> set (p # map snd nps). set (pol_Columns q) = collectRecordFields (pol_Expr q) {}"
      by (metis image_set list.simps(9) snd_conv)
    from fetch_evaluates[OF _ this, where query_row = query_row and key = key and row = row and mc = mc] assms(4) p that show ?thesis by (auto simp: nps)
  qed
  let ?t0 = "\<lparr>permissive = 0, admitting = 0, rejectedBy = []\<rparr>"
  have "evaluateRecordPolicies None query_row mc ps key = Inr None \<longleftrightarrow>
      (\<exists>t'. fold_res (judge (callerEnv mc fetched)) (resolved_of ps) ?t0 = Inr t' \<and> verdict (resolved_of ps) t' = None)"
    by (auto simp: evaluateRecordPolicies_def None rec and_then_Inr_iff)
  also have "\<dots> \<longleftrightarrow> (\<exists>t'. fold_res (judge (callerEnv mc fetched)) (resolved_of ps) ?t0 = Inr t' \<and>
      rejectedBy t' = [] \<and> admitting t' \<noteq> 0)"
  proof -
    have "admitting t' \<le> permissive t'" if "fold_res (judge (callerEnv mc fetched)) (resolved_of ps) ?t0 = Inr t'" for t'
      by (rule tally_le[OF that]) simp
    then show ?thesis by (auto simp: verdict_None)
  qed
  also have "\<dots> \<longleftrightarrow> (\<forall>(n, q) \<in> set (resolved_of ps). \<exists>b. admits (callerEnv mc fetched) q b \<and> (pol_Restrictive q \<longrightarrow> b)) \<and>
      (\<exists>(n, q) \<in> set (resolved_of ps). \<not> pol_Restrictive q \<and> admits (callerEnv mc fetched) q True)"
    by (subst judge_all) (use assms(1) in \<open>auto simp: res(1)\<close>)
  also have "\<dots> \<longleftrightarrow> (\<forall>(n, q) \<in> set (resolved_of ps). \<exists>b. admits (callerEnv mc row) q b \<and> (pol_Restrictive q \<longrightarrow> b)) \<and>
      (\<exists>(n, q) \<in> set (resolved_of ps). \<not> pol_Restrictive q \<and> admits (callerEnv mc row) q True)"
  proof -
    have "admits (callerEnv mc fetched) q = admits (callerEnv mc row) q" if "(n, q) \<in> set (resolved_of ps)" for n q
      using same that by (metis imageI snd_conv)
    then show ?thesis by (intro arg_cong2[where f = "(\<and>)"] ball_cong bex_cong refl) auto
  qed
  also have "\<dots> \<longleftrightarrow> (\<forall>P \<in> set ps. \<exists>a. pol_Resolved P = Inr a \<and> (\<exists>b. admits (callerEnv mc row) a b \<and> (pol_Restrictive a \<longrightarrow> b))) \<and>
      (\<exists>P \<in> set ps. \<exists>a. pol_Resolved P = Inr a \<and> \<not> pol_Restrictive a \<and> admits (callerEnv mc row) a True)"
    by (simp only: resolved_ball[OF None] resolved_bex[OF None])
  finally show ?thesis by (simp only: admits_def ex_simps)
qed

lemma registry_policy:
  assumes "P \<in> set (buildPolicyRegistry mods perm)"
  obtains m p where "m \<in> set mods" "\<not> pm_Failed m" "p \<in> set (pm_Policies m)" "mp_AppliesTo p = perm"
    "P = resolve p (models_by_module mods)"
  using assms unfolding buildPolicyRegistry_For by auto

lemma evaluatePermissionCheck_None:
  "evaluatePermissionCheck mc perm = None \<longleftrightarrow> callerHasPermission mc (mc_PermissionRegistry mc) perm"
  by (auto simp: evaluatePermissionCheck_def callerHasPermission_def split: option.splits)

lemma authzCheck_Allowed:
  "authzCheck True True begin_tx query_row mc perm key False = Allowed \<longleftrightarrow>
     callerHasPermission mc (mc_PermissionRegistry mc) perm \<and>
     (key = [] \<or> For (mc_PolicyRegistry mc) perm = [] \<or>
      evaluateRecordPolicies begin_tx query_row mc (For (mc_PolicyRegistry mc) perm) key = Inr None)"
  by (auto simp: authzCheck_def Let_def simp flip: evaluatePermissionCheck_None split: option.splits sum.splits)

text \<open>
  (C1) The decision of \<^verbatim>\<open>host.authz.check\<close> on a record. The policy registry is the one built from the
  loaded modules, whose manifests passed the policy validation, and the database returns the row's
  values. The call allows the access exactly when the caller holds the permission and, if
  policies scope it, every one of them can be evaluated on the row, every restrictive one holds and
  at least one permissive one holds. The policies are evaluated on the whole row, although the code
  fetches only the columns they mention and converts the values first. In particular a policy that
  is unresolved or fails to evaluate is never an allow.
\<close>

theorem authz_check_exact:
  assumes "mc_PolicyRegistry mc = Some (buildPolicyRegistry mods)" and "key \<noteq> []"
    and valid: "\<forall>m \<in> set mods. validatePolicies (pm_Name m) (permissions m) (uses m) (pm_Policies m) = []"
    and row: "\<forall>P \<in> set (buildPolicyRegistry mods perm). \<forall>a. pol_Resolved P = Inr a \<longrightarrow>
       reads_row query_row (pol_Table a) (pol_PKColumn a)
         (policyColumns (pol_PKColumn a) (map snd (resolved_of (buildPolicyRegistry mods perm)))) key row"
  shows "authzCheck True True None query_row mc perm key False = Allowed \<longleftrightarrow>
    callerHasPermission mc (mc_PermissionRegistry mc) perm \<and>
    (buildPolicyRegistry mods perm = [] \<or>
      (\<forall>P \<in> set (buildPolicyRegistry mods perm). \<exists>a b. pol_Resolved P = Inr a \<and>
         Eval (pol_Expr a) (callerEnv mc row) = Inr b \<and> (pol_Restrictive a \<longrightarrow> b)) \<and>
      (\<exists>P \<in> set (buildPolicyRegistry mods perm). \<exists>a. pol_Resolved P = Inr a \<and> \<not> pol_Restrictive a \<and>
         Eval (pol_Expr a) (callerEnv mc row) = Inr True))"
proof -
  let ?ps = "buildPolicyRegistry mods perm"
  have names: "\<forall>P \<in> set ?ps. pol_Name P \<noteq> []"
  proof
    fix P assume "P \<in> set ?ps"
    then obtain m p where "m \<in> set mods" "p \<in> set (pm_Policies m)" "P = resolve p (models_by_module mods)"
      by (rule registry_policy)
    then show "pol_Name P \<noteq> []"
      using validated_policy_name[of "pm_Name m" "permissions m" "uses m" "pm_Policies m" p] valid
      by (simp add: resolve_def)
  qed
  have "evaluateRecordPolicies None query_row mc ?ps key = Inr None \<longleftrightarrow>
      (\<forall>P \<in> set ?ps. \<exists>a b. pol_Resolved P = Inr a \<and> Eval (pol_Expr a) (callerEnv mc row) = Inr b \<and>
         (pol_Restrictive a \<longrightarrow> b)) \<and>
      (\<exists>P \<in> set ?ps. \<exists>a. pol_Resolved P = Inr a \<and> \<not> pol_Restrictive a \<and>
         Eval (pol_Expr a) (callerEnv mc row) = Inr True)" if ne: "?ps \<noteq> []"
  proof (cases "\<exists>P \<in> set ?ps. \<exists>a. pol_Resolved P = Inr a")
    case False
    obtain P where P: "P \<in> set ?ps" using ne by (cases ?ps) auto
    from False P obtain err where "first_err unresolved_error ?ps = Some err"
      by (metis resolved_of_all(2) not_Some_eq)
    with False P show ?thesis by (simp add: evaluateRecordPolicies_def)
  next
    case True
    then obtain P0 a0 where P0: "P0 \<in> set ?ps" "pol_Resolved P0 = Inr a0" by blast
    have target: "pol_Table a = pol_Table a0 \<and> pol_PKColumn a = pol_PKColumn a0 \<and>
        set (pol_Columns a) = collectRecordFields (pol_Expr a) {}"
      if P: "P \<in> set ?ps" "pol_Resolved P = Inr a" for P a
    proof -
      from P(1) obtain p where "P = resolve p (models_by_module mods)" by (rule registry_policy)
      with resolve_columns P(2) have "set (pol_Columns a) = collectRecordFields (pol_Expr a) {}" by blast
      with registry_same_target[OF P(1) P0(1) P(2) P0(2)] row P show ?thesis by blast
    qed
    have "reads_row query_row (pol_Table a0) (pol_PKColumn a0)
        (policyColumns (pol_PKColumn a0) (map snd (resolved_of ?ps))) key row"
      using row P0 by blast
    from evaluateRecordPolicies_allows[OF names ne target this] show ?thesis .
  qed
  then show ?thesis using assms(2) by (auto simp: authzCheck_Allowed assms(1) For_def)
qed

text \<open>A module whose records are readable by their owner.\<close>

definition owned_model :: model_declaration where
  "owned_model = Field ''owner'' (of_kind KindUUID) (Field ''id'' (PrimaryKey (of_kind KindUUID)) (Define ''m''))"

definition owner_policy :: manifest_policy where
  "owner_policy = \<lparr>mp_Name = ''a:m:own'', mp_AppliesTo = ''a:m:read'', mp_Condition = ''record.owner = user.id'', mp_Combine = []\<rparr>"

definition owned_modules :: "policy_module list" where
  "owned_modules = [\<lparr>pm_Name = ''a'', pm_Failed = False, pm_ModelDecls = [owned_model], pm_Policies = [owner_policy]\<rparr>]"

definition reader :: module_context where
  "reader = NewModuleContext ''a'' ''u'' [] [] (Set 0 []) ''t''
     \<lparr>sn_ModelDecls = [owned_model], sn_ComputeTargets = Map.empty, sn_FieldSecRegistry = None,
      sn_PermissionRegistry = Some (Register ''a'' [\<lparr>perm_Name = ''a:m:read'', perm_Description = [], perm_Category = [],
        perm_DefaultRoles = []\<rparr>] NewPermissionRegistry),
      sn_PolicyRegistry = Some (buildPolicyRegistry owned_modules)\<rparr>"

definition owner_resolved :: resolved_policy where
  "owner_resolved = \<lparr>pol_Expr = BinaryExpr ''='' (RecordField ''owner'') (UserAttr ''id''), pol_Table = ''m'',
     pol_PKColumn = ''id'', pol_Columns = [''owner''], pol_Restrictive = False\<rparr>"

lemma owned_registry:
  "buildPolicyRegistry owned_modules ''a:m:read'' = [\<lparr>pol_Name = ''a:m:own'', pol_Resolved = Inr owner_resolved\<rparr>]"
  by code_simp

theorem authz_check_exact_witness:
  "authzCheck True True None (\<lambda>_ _. Inr [RString ''1'', RString ''u'']) reader ''a:m:read'' ''1'' False = Allowed"
proof -
  let ?query = "\<lambda>_ _. Inr [RString ''1'', RString ''u'']"
  let ?row = "[''id'' \<mapsto> RString ''1'', ''owner'' \<mapsto> RString ''u'', ''x'' \<mapsto> RNil]"
  have reg: "mc_PolicyRegistry reader = Some (buildPolicyRegistry owned_modules)"
    by (simp add: reader_def NewModuleContext_def)
  have "validatePolicies ''a'' [''a:m:read''] [] [owner_policy] = []" by code_simp
  then have valid: "\<forall>m \<in> set owned_modules. validatePolicies (pm_Name m) ((\<lambda>_. [''a:m:read'']) m) ((\<lambda>_. []) m) (pm_Policies m) = []"
    by (simp add: owned_modules_def)
  have cols: "policyColumns ''id'' [owner_resolved] = [''id'', ''owner'']" by code_simp
  have held: "callerHasPermission reader (mc_PermissionRegistry reader) ''a:m:read''" by code_simp
  have eval: "Eval (pol_Expr owner_resolved) (callerEnv reader ?row) = Inr True" by code_simp
  have "resolved_of [\<lparr>pol_Name = ''a:m:own'', pol_Resolved = Inr owner_resolved\<rparr>] = [(''a:m:own'', owner_resolved)]"
    by (simp add: resolved_of_def List.map_filter_def)
  then have "\<forall>P \<in> set (buildPolicyRegistry owned_modules ''a:m:read''). \<forall>a. pol_Resolved P = Inr a \<longrightarrow>
      reads_row ?query (pol_Table a) (pol_PKColumn a)
        (policyColumns (pol_PKColumn a) (map snd (resolved_of (buildPolicyRegistry owned_modules ''a:m:read'')))) ''1'' ?row"
    by (simp add: owned_registry reads_row_def cols owner_resolved_def[THEN arg_cong, of pol_PKColumn])
  from authz_check_exact[OF reg _ valid this] held eval show ?thesis
    by (simp add: owned_registry owner_resolved_def[THEN arg_cong, of pol_Restrictive] exI[of _ True])
qed

section \<open>The row filter\<close>

lemma placeholders_join_sep:
  assumes "CHR ''$'' \<notin> set sep" "sep \<noteq> []" "\<not> isDigit (hd sep)"
    and "\<And>w. w \<in> set ws \<Longrightarrow> w = [] \<or> \<not> isDigit (hd w)"
  shows "placeholders (join sep ws) = concat (map placeholders ws)"
  using assms(4)
proof (induction ws rule: induct_list012)
  case (3 w v ws)
  have hd: "join sep (v # ws) = [] \<or> \<not> isDigit (hd (join sep (v # ws)))"
    using 3(3)[of v] assms(2,3) by (cases ws; cases v) auto
  have "placeholders (join sep (w # v # ws)) = placeholders w @ placeholders (sep @ join sep (v # ws))"
    using assms(2,3) by (simp add: placeholders_append)
  also have "placeholders (sep @ join sep (v # ws)) = placeholders (join sep (v # ws))"
    by (simp add: placeholders_append[OF hd] placeholders_none[OF assms(1)])
  finally show ?case using 3 by simp
qed simp_all

lemma standalone_join_sep:
  assumes "standalone sep" "\<And>w. w \<in> set ws \<Longrightarrow> standalone w"
  shows "standalone (join sep ws)"
  using assms(2)
proof (induction ws rule: induct_list012)
  case (3 w v ws)
  then show ?case using assms(1) by (auto intro!: standalone_append)
qed simp_all

lemma standalone_parens: "standalone s \<Longrightarrow> standalone (''('' @ s @ '')'')"
  by (simp add: standalone_def scan_append)

lemma bindArg_hd: "bindArg c v args = (p, args') \<Longrightarrow> \<not> isDigit (hd p)"
  by (auto simp: bindArg_def isDigit_def)

lemma compile_hd:
  assumes "relations c = Map.empty" "quotes_identifiers s" "compile s u c e args = Inr (f, args')"
  shows "\<not> isDigit (hd f)"
proof (cases e)
  case (Literal l)
  with assms(3) show ?thesis
    by (cases l) (auto dest: bindArg_hd simp: isDigit_def split: option.splits if_splits)
next
  case (UserAttr a)
  with assms(3) show ?thesis
    by (auto simp: userAttr_def Let_def isDigit_def dest: bindArg_hd split: option.splits if_splits)
next
  case (RecordField x)
  with assms show ?thesis by (auto simp: quotes_identifiers_def isDigit_def split: if_splits)
qed (use assms in \<open>auto simp: and_then_Inr_iff sqlBool_def infix_sql_def isDigit_def split: if_splits option.splits\<close>)

text \<open>What the loop keeps: the fragments are self-contained and use every parameter number once.\<close>

definition filter_ok :: "filter_state \<Rightarrow> bool" where
  "filter_ok st \<longleftrightarrow>
     (\<forall>w \<in> set (fs_permissive st @ fs_restrictive st). standalone w \<and> \<not> isDigit (hd w)) \<and>
     mset (concat (map placeholders (fs_permissive st @ fs_restrictive st))) = mset [1 ..< length (fs_params st) + 1]"

lemma upt_extend: "mset [1 ..< n + 1] + mset [n + 1 ..< n + 1 + k] = mset [1 ..< n + k + 1]"
  using upt_add_eq_append[of 1 "n + 1" k] by (simp flip: mset_append add: ac_simps)

lemma filter_policy_ok:
  assumes "quotes_identifiers s" "filter_ok st" "filter_policy s u env table P st = Inr st'"
    and "\<And>a. pol_Resolved P = Inr a \<Longrightarrow> wf_expr (pol_Expr a)"
  shows "filter_ok st' \<and> (\<exists>a. pol_Resolved P = Inr a \<and>
    (if pol_Table a = table then fs_permissive st' @ fs_restrictive st' \<noteq> [] else st' = st))"
proof -
  obtain a where a: "pol_Resolved P = Inr a" using assms(3) by (auto simp: filter_policy_def split: sum.splits)
  show ?thesis
  proof (cases "pol_Table a = table")
    case False
    with a assms(2,3) show ?thesis by (auto simp: filter_policy_def)
  next
    case True
    let ?c = "\<lparr>relations = Map.empty, user_env = Some env, paramsBefore = length (fs_params st)\<rparr>"
    obtain sql args where comp: "compile s u ?c (pol_Expr a) [] = Inr (sql, args)"
      and st': "st' = (if pol_Restrictive a then st\<lparr>fs_restrictive := fs_restrictive st @ [sql]\<rparr>
         else st\<lparr>fs_permissive := fs_permissive st @ [sql]\<rparr>)\<lparr>fs_params := fs_params st @ args\<rparr>"
      using assms(3) True a by (auto simp: filter_policy_def CompileToFilter_def split: sum.splits)
    have rel: "relations ?c = Map.empty" by simp
    have sql: "standalone sql" "\<not> isDigit (hd sql)"
      "placeholders sql = [length (fs_params st) + 1 ..< length (fs_params st) + 1 + length args]"
      using compile_standalone[OF rel assms(1) comp] compile_hd[OF rel assms(1) comp]
        compile_numbered[OF rel assms(1) assms(4)[OF a] comp] by (simp_all add: numbered_def ac_simps)
    have "mset (concat (map placeholders (fs_permissive st' @ fs_restrictive st'))) =
        mset (concat (map placeholders (fs_permissive st @ fs_restrictive st))) + mset (placeholders sql)"
      by (simp add: st')
    also have "\<dots> = mset [1 ..< length (fs_params st') + 1]"
      using assms(2) upt_extend[of "length (fs_params st)" "length args"] by (simp add: filter_ok_def sql(3) st' ac_simps)
    finally show ?thesis using assms(2) sql(1,2) a True by (auto simp: filter_ok_def st')
  qed
qed

lemma filter_policies_ok:
  assumes "quotes_identifiers s"
  shows "fold_res (filter_policy s u env table) ps st = Inr st' \<Longrightarrow> filter_ok st \<Longrightarrow>
    (\<And>P a. P \<in> set ps \<Longrightarrow> pol_Resolved P = Inr a \<Longrightarrow> wf_expr (pol_Expr a)) \<Longrightarrow>
    filter_ok st' \<and> (\<forall>P \<in> set ps. \<exists>a. pol_Resolved P = Inr a) \<and>
    (fs_permissive st' @ fs_restrictive st' = [] \<longleftrightarrow> fs_permissive st @ fs_restrictive st = [] \<and>
       (\<forall>P \<in> set ps. \<forall>a. pol_Resolved P = Inr a \<longrightarrow> pol_Table a \<noteq> table))"
proof (induction ps arbitrary: st)
  case (Cons P ps)
  from Cons.prems(1) obtain st1 where step: "filter_policy s u env table P st = Inr st1"
    and rest: "fold_res (filter_policy s u env table) ps st1 = Inr st'"
    by (auto split: sum.splits)
  have one: "filter_ok st1 \<and> (\<exists>a. pol_Resolved P = Inr a \<and>
      (if pol_Table a = table then fs_permissive st1 @ fs_restrictive st1 \<noteq> [] else st1 = st))"
    by (rule filter_policy_ok[OF assms Cons.prems(2) step]) (rule Cons.prems(3), auto)
  have "filter_ok st' \<and> (\<forall>P \<in> set ps. \<exists>a. pol_Resolved P = Inr a) \<and>
    (fs_permissive st' @ fs_restrictive st' = [] \<longleftrightarrow> fs_permissive st1 @ fs_restrictive st1 = [] \<and>
       (\<forall>P \<in> set ps. \<forall>a. pol_Resolved P = Inr a \<longrightarrow> pol_Table a \<noteq> table))"
    using one by (intro Cons.IH[OF rest]) (auto intro: Cons.prems(3))
  with one show ?case by (auto split: if_splits)
qed simp

lemma filter_sql_ok:
  assumes "filter_ok st"
  shows "standalone (fst (filter_sql st)) \<and>
    mset (placeholders (fst (filter_sql st))) = mset [1 ..< length (snd (filter_sql st)) + 1]"
proof -
  let ?or = "join '' OR '' (fs_permissive st)"
  let ?and = "join '' AND '' ((''('' @ ?or @ '')'') # fs_restrictive st)"
  have words: "standalone '' OR ''" "standalone '' AND ''" "standalone ''AND ''" by (simp_all add: standalone_def)
  have w: "standalone w" "\<not> isDigit (hd w)" if "w \<in> set (fs_permissive st) \<union> set (fs_restrictive st)" for w
    using assms that by (auto simp: filter_ok_def)
  have or: "standalone ?or" by (rule standalone_join_sep[OF words(1)]) (simp add: w)
  have p_or: "placeholders ?or = concat (map placeholders (fs_permissive st))"
    by (rule placeholders_join_sep) (use w in \<open>auto simp: isDigit_def\<close>)
  have par: "placeholders (''('' @ ?or @ '')'') = placeholders ?or"
    by (simp add: placeholders_append isDigit_def)
  have "standalone ?and"
    by (rule standalone_join_sep[OF words(2)]) (use w standalone_parens[OF or] in auto)
  moreover have "placeholders ?and = placeholders ?or @ concat (map placeholders (fs_restrictive st))"
    unfolding par[symmetric]
    by (subst placeholders_join_sep) (use w in \<open>auto simp: isDigit_def\<close>)
  ultimately have body: "\<exists>body. fst (filter_sql st) = ''AND '' @ ''('' @ body @ '')'' \<and> standalone body \<and>
      placeholders body = concat (map placeholders (fs_permissive st @ fs_restrictive st))"
    if "fs_permissive st \<noteq> []"
    using that or p_or
    by (cases "fs_restrictive st = []") (auto simp: filter_sql_def Let_def)
  show ?thesis
  proof (cases "fs_permissive st = []")
    case True
    then show ?thesis by (simp add: filter_sql_def standalone_def)
  next
    case False
    then obtain body where b: "fst (filter_sql st) = ''AND '' @ ''('' @ body @ '')''" "standalone body"
      "placeholders body = concat (map placeholders (fs_permissive st @ fs_restrictive st))"
      using body by blast
    have "snd (filter_sql st) = fs_params st" using False by (simp add: filter_sql_def Let_def)
    moreover have "placeholders (''AND '' @ ''('' @ body @ '')'') = placeholders body"
      by (simp add: placeholders_append isDigit_def)
    ultimately show ?thesis
      using assms b standalone_append[OF words(3) standalone_parens[OF b(2)]] by (simp add: filter_ok_def)
  qed
qed

text \<open>
  (C8) The fragment of \<^verbatim>\<open>host.authz.row_filter\<close> is closed and restrictive. It is self-contained under
  SQL's quoting rules and mentions each of its parameters exactly once. It is empty, and so
  restricts nothing, only when the caller holds the permission and every policy of the permission
  is resolved and governs another table; a caller without the permission gets a filter that is false.
\<close>

theorem rowFilter_contained:
  assumes "quotes_identifiers sanitize" "mc_PolicyRegistry mc = Some (buildPolicyRegistry mods)"
    and "rowFilter sanitize parse_uuid mc table perm = Inr (sql, params)"
  shows "standalone sql \<and> distinct (placeholders sql) \<and> set (placeholders sql) = {1 .. length params} \<and>
    (sql = [] \<longleftrightarrow> callerHasPermission mc (mc_PermissionRegistry mc) perm \<and>
       (\<forall>P \<in> set (buildPolicyRegistry mods perm). \<exists>a. pol_Resolved P = Inr a \<and> pol_Table a \<noteq> table)) \<and>
    (\<not> callerHasPermission mc (mc_PermissionRegistry mc) perm \<longrightarrow> sql = ''AND FALSE'')"
proof (cases "callerHasPermission mc (mc_PermissionRegistry mc) perm")
  case False
  with assms(3) have "sql = ''AND FALSE''" "params = []"
    by (auto simp: rowFilter_def simp flip: evaluatePermissionCheck_None)
  with False show ?thesis by (simp add: standalone_def)
next
  case True
  let ?ps = "buildPolicyRegistry mods perm"
  let ?st0 = "\<lparr>fs_permissive = [], fs_restrictive = [], fs_params = []\<rparr>"
  obtain st where run: "fold_res (filter_policy sanitize parse_uuid (callerEnv mc Map.empty) table) ?ps ?st0 = Inr st"
    and out: "filter_sql st = (sql, params)"
    using assms(2,3) True
    by (auto simp: rowFilter_def For_def and_then_Inr_iff simp flip: evaluatePermissionCheck_None)
  have wf: "wf_expr (pol_Expr a)" if "P \<in> set ?ps" "pol_Resolved P = Inr a" for P a
    using that by (auto elim!: registry_policy dest!: resolve_columns intro: Parse_wf_expr)
  have "filter_ok st \<and> (\<forall>P \<in> set ?ps. \<exists>a. pol_Resolved P = Inr a) \<and>
      (fs_permissive st @ fs_restrictive st = [] \<longleftrightarrow> fs_permissive ?st0 @ fs_restrictive ?st0 = [] \<and>
       (\<forall>P \<in> set ?ps. \<forall>a. pol_Resolved P = Inr a \<longrightarrow> pol_Table a \<noteq> table))"
    by (rule filter_policies_ok[OF assms(1) run]) (simp add: filter_ok_def, rule wf)
  then have ok: "filter_ok st" and res: "\<forall>P \<in> set ?ps. \<exists>a. pol_Resolved P = Inr a"
    and none: "fs_permissive st @ fs_restrictive st = [] \<longleftrightarrow>
      (\<forall>P \<in> set ?ps. \<forall>a. pol_Resolved P = Inr a \<longrightarrow> pol_Table a \<noteq> table)"
    by simp_all
  have "standalone sql" and m: "mset (placeholders sql) = mset [1 ..< length params + 1]"
    using filter_sql_ok[OF ok] by (simp_all add: out)
  moreover have "distinct (placeholders sql)" using mset_eq_imp_distinct_iff[OF m] by simp
  moreover have "set (placeholders sql) = {1 .. length params}" using mset_eq_setD[OF m] by auto
  moreover have "sql = [] \<longleftrightarrow> fs_permissive st @ fs_restrictive st = []"
    using out by (auto simp: filter_sql_def Let_def split: if_splits)
  ultimately show ?thesis using True none res by fastforce
qed

theorem rowFilter_contained_witness:
  "\<exists>sql params. rowFilter dquoting (\<lambda>_. None) reader ''m'' ''a:m:read'' = Inr (sql, params) \<and>
     set (placeholders sql) = {1 .. length params} \<and> params = [ArgString ''u'']"
proof -
  let ?sql = "''AND (('' @ dquoting ''owner'' @ '' = $1))''"
  have reg: "mc_PolicyRegistry reader = Some (buildPolicyRegistry owned_modules)"
    by (simp add: reader_def NewModuleContext_def)
  have run: "rowFilter dquoting (\<lambda>_. None) reader ''m'' ''a:m:read'' = Inr (?sql, [ArgString ''u''])" by code_simp
  from rowFilter_contained[OF dquoting_ok reg run] run show ?thesis by blast
qed

section \<open>Field checks\<close>

text \<open>
  (C35) \<^verbatim>\<open>host.authz.field_check\<close> answers what the ORM enforces. The check allows a write exactly when
  no write to the field is denied, and, for a declared field of a caller whose reads are masked, it
  allows a read exactly when masking leaves the field of every record as it is.
\<close>

theorem field_check_agrees:
  assumes "\<not> mc_unmaskedReads mc"
    and "resolveReadableModel mc model = Some md" "hasField md field"
  shows "(evaluateFieldCheck mc model field CheckWrite \<longleftrightarrow> writeDeniedBy mc model field = None) \<and>
    (evaluateFieldCheck mc model field CheckRead \<longleftrightarrow>
       (\<forall>record. mask_record mc model record field = record field))"
proof
  show "evaluateFieldCheck mc model field CheckWrite \<longleftrightarrow> writeDeniedBy mc model field = None"
    by (auto simp: evaluateFieldCheck_def writeDeniedBy_def split: option.splits)
  have mask: "mask_record mc model r field =
      (case r field of None \<Rightarrow> None | Some v \<Rightarrow>
        (case mc_FieldSecRegistry mc of None \<Rightarrow> Some v | Some reg \<Rightarrow> mask_entry mc reg model field v))" for r
    using assms(2,3) by (simp add: mask_record_def split: option.splits)
  have changed: "\<not> evaluateFieldCheck mc model field CheckRead \<Longrightarrow>
      mask_record mc model [field \<mapsto> RBool True] field \<noteq> Some (RBool True)"
    using assms(1)
    by (auto simp: mask evaluateFieldCheck_def mask_entry_def fieldReadAllowed_def split: option.splits read_behaviour.splits)
  show "evaluateFieldCheck mc model field CheckRead \<longleftrightarrow>
      (\<forall>record. mask_record mc model record field = record field)"
  proof
    assume "evaluateFieldCheck mc model field CheckRead"
    with assms(1) show "\<forall>record. mask_record mc model record field = record field"
      by (auto simp: mask evaluateFieldCheck_def mask_entry_def fieldReadAllowed_def split: option.splits)
  next
    assume "\<forall>record. mask_record mc model record field = record field"
    then have "mask_record mc model [field \<mapsto> RBool True] field = Some (RBool True)" by simp
    with changed show "evaluateFieldCheck mc model field CheckRead" by blast
  qed
qed

theorem field_check_agrees_witness:
  "(evaluateFieldCheck sample_context ''a.m'' ''iban'' CheckWrite \<longleftrightarrow> writeDeniedBy sample_context ''a.m'' ''iban'' = None) \<and>
   resolveReadableModel sample_context ''a.m'' = Some sample_model"
proof -
  have m: "resolveReadableModel sample_context ''a.m'' = Some sample_model" by code_simp
  moreover have "hasField sample_model ''iban''" by code_simp
  moreover have "\<not> mc_unmaskedReads sample_context" by code_simp
  ultimately show ?thesis using field_check_agrees[of sample_context "''a.m''" sample_model "''iban''"] by blast
qed

end
