(* ===== verification/Module_Model.thy ===== *)
theory Module_Model
  imports Policies Route_Register
begin

text \<open>
  Loaded modules (\<^verbatim>\<open>internal/engine/module\<close>) with the parts of their manifests that the load-time
  checks read (\<^verbatim>\<open>manifest/manifest.go\<close>), and their order by dependencies (\<^verbatim>\<open>module/order.go\<close>). A Go map
  of modules is an association list with one entry per name; where the code ranges over the map, the
  model follows the list, and the results hold for every order of it. The JSON form of the view,
  navigation and report blocks, which one check walks, is kept beside the blocks.
\<close>

section \<open>Manifests\<close>

record event_declaration =
  ev_Name :: string
  ev_Version :: int

record event_subscription =
  sub_Name :: string
  sub_Version :: int
  sub_Async :: bool

definition DefaultEventVersion :: int where
  "DefaultEventVersion = 1"

definition emit_version :: "event_declaration \<Rightarrow> int" where
  "emit_version e = (if ev_Version e \<le> 0 then DefaultEventVersion else ev_Version e)"

definition sub_version :: "event_subscription \<Rightarrow> int" where
  "sub_version s =
     (if has_prefix (sub_Name s) ''system.'' then 0
      else if sub_Version s \<le> 0 then DefaultEventVersion else sub_Version s)"

record config_entry =
  ce_Key :: string
  ce_Type :: string

record uses_config_ref =
  uc_Key :: string
  uc_Type :: string

text \<open>\<^verbatim>\<open>UsesConfigEntry\<close>: the owner's entry, or \<^const>\<open>None\<close> when it is not loaded.\<close>

type_synonym uses_config_entry = "config_entry option"

record form_section =
  sec_Name :: string
  sec_Type :: string

record form_tab =
  tab_Label :: string
  tab_Sections :: "form_section list"

record view =
  v_Name :: string
  v_Type :: string
  v_Sections :: "form_section list"
  v_Tabs :: "form_tab list"

record view_extension_ref =
  vr_Extends :: string
  vr_Extension :: string

record view_extension_def =
  vd_Name :: string
  vd_Type :: string
  vd_TargetSection :: string
  vd_Position :: string
  vd_Tab :: "form_tab option"

text \<open>Decoded JSON; the entries of an object in the order of their keys.\<close>

datatype json = JNull | JBool bool | JNumber string | JString string | JArray "json list" | JObject "(string \<times> json) list"

record manifest =
  mf_Name :: string
  mf_Type :: string
  mf_DependsOn :: "string list"
  mf_SoftDependsOn :: "string list"
  mf_ConflictsWith :: "string list"
  mf_Emits :: "event_declaration list"
  mf_Subscribes :: "event_subscription list"
  mf_Permissions :: "permission list"
  mf_UsesPermissions :: "string list"
  mf_Policies :: "manifest_policy list"
  mf_Views :: "view list"
  mf_ViewExtensions :: "view_extension_ref list"
  mf_ViewExtensionDefinitions :: "view_extension_def list"
  mf_ViewsJSON :: "json list"
  mf_NavigationJSON :: "json list"
  mf_ReportsJSON :: "json list"
  mf_Reports :: "string list"
  mf_ReportOverrides :: "string list"
  mf_ConfigSchema :: "config_entry list"
  mf_UsesConfig :: "uses_config_ref list"
  mf_OAuthProvider :: "string option"
  mf_OwnedModels :: "string list"
  mf_ExtendsModule :: "string option"
  mf_ExtendsModels :: "string list"

section \<open>Modules\<close>

datatype module_status =
    StatusPending | StatusCompiling | StatusSyncing | StatusWarming | StatusReady | StatusFailed
  | StatusDraining | StatusDisabled | StatusUnloaded

fun status_name :: "module_status \<Rightarrow> string" where
  "status_name StatusPending = ''pending''"
| "status_name StatusCompiling = ''compiling''"
| "status_name StatusSyncing = ''syncing''"
| "status_name StatusWarming = ''warming''"
| "status_name StatusReady = ''ready''"
| "status_name StatusFailed = ''failed''"
| "status_name StatusDraining = ''draining''"
| "status_name StatusDisabled = ''disabled''"
| "status_name StatusUnloaded = ''unloaded''"

record diagnostic =
  dg_Rule :: string
  dg_Context :: "(string \<times> string) list"

text \<open>The type of failure reasons is left open: each check has its own.\<close>

record 'f loaded_module =
  lm_Manifest :: manifest
  lm_Status :: module_status
  lm_FailureReason :: "'f option"
  lm_LoadOrder :: int
  lm_ExplicitRoutes :: "route_declaration list"
  lm_ModelDecls :: "model_declaration list"
  lm_ModelExtensions :: "model_extension list"
  lm_TypeDecls :: "type_declaration list"
  lm_UsesConfig :: "(string \<times> uses_config_entry) list"
  lm_Diagnostics :: "diagnostic list"

definition failed :: "'f loaded_module \<Rightarrow> bool" where
  "failed m \<longleftrightarrow> lm_Status m = StatusFailed"

definition Fail :: "'f \<Rightarrow> 'f loaded_module \<Rightarrow> 'f loaded_module" where
  "Fail reason m = m\<lparr>lm_Status := StatusFailed, lm_FailureReason := Some reason\<rparr>"

definition Warn :: "diagnostic list \<Rightarrow> 'f loaded_module \<Rightarrow> 'f loaded_module" where
  "Warn ds m = m\<lparr>lm_Diagnostics := lm_Diagnostics m @ ds\<rparr>"

definition ClearDiagnostics :: "string \<Rightarrow> 'f loaded_module \<Rightarrow> 'f loaded_module" where
  "ClearDiagnostics rule m = m\<lparr>lm_Diagnostics := filter (\<lambda>d. dg_Rule d \<noteq> rule) (lm_Diagnostics m)\<rparr>"

type_synonym 'f modules = "(string \<times> 'f loaded_module) list"

definition upd :: "string \<Rightarrow> ('f loaded_module \<Rightarrow> 'f loaded_module) \<Rightarrow> 'f modules \<Rightarrow> 'f modules" where
  "upd name f ms = map (\<lambda>(n, m). (n, if n = name then f m else m)) ms"

definition alive :: "'f modules \<Rightarrow> string \<Rightarrow> bool" where
  "alive ms name \<longleftrightarrow> (case map_of ms name of None \<Rightarrow> False | Some m \<Rightarrow> \<not> failed m)"

definition dependsOn :: "'f modules \<Rightarrow> string \<Rightarrow> string list" where
  "dependsOn ms name = (case map_of ms name of None \<Rightarrow> [] | Some m \<Rightarrow> mf_DependsOn (lm_Manifest m))"

lemma map_fst_upd [simp]: "map fst (upd name f ms) = map fst ms"
  by (induction ms) (auto simp: upd_def)

lemma map_of_upd: "map_of (upd name f ms) n = (if n = name then map_option f (map_of ms n) else map_of ms n)"
  by (induction ms) (auto simp: upd_def)

section \<open>Order by dependencies\<close>

text \<open>
  \<^verbatim>\<open>OrderByDependencies\<close>: a depth-first visit that marks a module before its dependencies and emits it
  after them. Every nested visit marks a new module, so as many levels as there are modules are
  enough; \<^const>\<open>None\<close> would be a visit that needs more.
\<close>

fun visit_order :: "nat \<Rightarrow> (string \<rightharpoonup> string list) \<Rightarrow> string \<Rightarrow> string set \<times> string list \<Rightarrow> (string set \<times> string list) option"
and visit_deps :: "nat \<Rightarrow> (string \<rightharpoonup> string list) \<Rightarrow> string list \<Rightarrow> string set \<times> string list \<Rightarrow> (string set \<times> string list) option" where
  "visit_order 0 byName name st = None"
| "visit_order (Suc n) byName name (visited, ordered) =
     (if name \<in> visited then Some (visited, ordered)
      else case visit_deps n byName (case byName name of None \<Rightarrow> [] | Some deps \<Rightarrow> deps) (insert name visited, ordered) of
             None \<Rightarrow> None
           | Some (visited', ordered') \<Rightarrow> Some (visited', ordered' @ [name]))"
| "visit_deps n byName [] st = Some st"
| "visit_deps n byName (dep # deps) st =
     (if byName dep = None then visit_deps n byName deps st
      else case visit_order n byName dep st of
             None \<Rightarrow> None
           | Some st' \<Rightarrow> visit_deps n byName deps st')"

text \<open>The modules as pairs of a name and what it depends on.\<close>

definition OrderByDependencies :: "(string \<times> string list) list \<Rightarrow> string list option" where
  "OrderByDependencies mods =
     map_option snd
       (visit_deps (length mods + 1) (map_of (rev mods)) (sort (map fst mods)) ({}, []))"

section \<open>Dependencies come first\<close>

definition dep_edges :: "(string \<rightharpoonup> string list) \<Rightarrow> (string \<times> string) set" where
  "dep_edges byName = {(n, d). \<exists>deps. byName n = Some deps \<and> d \<in> set deps \<and> d \<in> dom byName}"

text \<open>What a visit adds: new names, each after the dependencies that are not still being visited.\<close>

definition added :: "(string \<rightharpoonup> string list) \<Rightarrow> string set \<times> string list \<Rightarrow> string set \<times> string list \<Rightarrow> bool" where
  "added byName st st' \<longleftrightarrow>
     (case (st, st') of ((v, os), (v', os')) \<Rightarrow>
        \<exists>new. os' = os @ new \<and> v' = v \<union> set new \<and> distinct new \<and> set new \<inter> v = {} \<and> set new \<subseteq> dom byName \<and>
          (acyclic (dep_edges byName) \<longrightarrow>
            (\<forall>xs x ys. new = xs @ x # ys \<longrightarrow> dep_edges byName `` {x} \<subseteq> set os \<union> set xs)))"

lemma added_refl: "added byName st st"
  by (cases st) (auto simp: added_def)

lemma added_trans:
  assumes "added byName st st1" "added byName st1 st2"
  shows "added byName st st2"
proof -
  obtain v os v1 os1 v2 os2 where st: "st = (v, os)" "st1 = (v1, os1)" "st2 = (v2, os2)"
    by (metis surj_pair)
  obtain a where a: "os1 = os @ a" "v1 = v \<union> set a" "distinct a" "set a \<inter> v = {}" "set a \<subseteq> dom byName"
    and topo_a: "acyclic (dep_edges byName) \<Longrightarrow> a = xs @ x # ys \<Longrightarrow> dep_edges byName `` {x} \<subseteq> set os \<union> set xs" for xs x ys
    using assms(1) unfolding added_def st by auto
  obtain b where b: "os2 = os1 @ b" "v2 = v1 \<union> set b" "distinct b" "set b \<inter> v1 = {}" "set b \<subseteq> dom byName"
    and topo_b: "acyclic (dep_edges byName) \<Longrightarrow> b = xs @ x # ys \<Longrightarrow> dep_edges byName `` {x} \<subseteq> set os1 \<union> set xs" for xs x ys
    using assms(2) unfolding added_def st by auto
  have "dep_edges byName `` {x} \<subseteq> set os \<union> set xs"
    if "acyclic (dep_edges byName)" "a @ b = xs @ x # ys" for xs x ys
  proof -
    from that(2) consider us where "a = xs @ x # us" | us where "xs = a @ us" "b = us @ x # ys"
      by (auto simp: append_eq_append_conv2 append_eq_Cons_conv)
    then show ?thesis
    proof cases
      case 1
      then show ?thesis using topo_a that(1) by blast
    next
      case 2
      then show ?thesis using topo_b[OF that(1) 2(2)] a(1) by auto
    qed
  qed
  then show ?thesis unfolding added_def st using a b by (auto intro!: exI[of _ "a @ b"])
qed

text \<open>Every module still being visited depends on the names to visit.\<close>

definition waits_for :: "(string \<rightharpoonup> string list) \<Rightarrow> string set \<times> string list \<Rightarrow> string set \<Rightarrow> bool" where
  "waits_for byName st ns \<longleftrightarrow>
     (\<forall>g \<in> fst st - set (snd st). \<forall>n \<in> ns. (g, n) \<in> (dep_edges byName)\<^sup>+)"

lemma waits_for_added:
  assumes "added byName st st'" "waits_for byName st ns"
  shows "waits_for byName st' ns"
proof -
  obtain v os v' os' where st: "st = (v, os)" "st' = (v', os')" by (metis surj_pair)
  with assms(1) have "v' - set os' \<subseteq> v - set os" by (auto simp: added_def)
  with assms(2) show ?thesis unfolding waits_for_def st by auto
qed

lemma visit_deps_ok:
  assumes order: "\<And>name st. name \<in> dom byName \<Longrightarrow> set (snd st) \<subseteq> fst st \<Longrightarrow> card (dom byName - fst st) < n \<Longrightarrow>
      waits_for byName st {name} \<Longrightarrow> \<exists>st'. visit_order n byName name st = Some st' \<and> added byName st st' \<and> name \<in> fst st'"
    and fin: "finite (dom byName)"
  shows "set (snd st) \<subseteq> fst st \<Longrightarrow> card (dom byName - fst st) < n \<Longrightarrow> waits_for byName st (set deps \<inter> dom byName) \<Longrightarrow>
    \<exists>st'. visit_deps n byName deps st = Some st' \<and> added byName st st' \<and> set deps \<inter> dom byName \<subseteq> fst st'"
proof (induction deps arbitrary: st)
  case Nil
  then show ?case by (auto simp: added_refl)
next
  case (Cons d deps)
  show ?case
  proof (cases "d \<in> dom byName")
    case False
    then show ?thesis using Cons by (auto simp: domIff)
  next
    case True
    have "waits_for byName st {d}" "waits_for byName st (set deps \<inter> dom byName)"
      using Cons.prems(3) True by (auto simp: waits_for_def)
    with order[OF True Cons.prems(1,2)] obtain st1 where
      st1: "visit_order n byName d st = Some st1" "added byName st st1" "d \<in> fst st1" by blast
    from st1(2) Cons.prems(1) have sub: "set (snd st1) \<subseteq> fst st1" "fst st \<subseteq> fst st1"
      by (auto simp: added_def split: prod.splits)
    then have "card (dom byName - fst st1) \<le> card (dom byName - fst st)"
      by (intro card_mono) (auto simp: fin)
    with Cons.prems(2) have less: "card (dom byName - fst st1) < n" by simp
    from Cons.IH[OF sub(1) less waits_for_added[OF st1(2) \<open>waits_for byName st (set deps \<inter> dom byName)\<close>]]
    obtain st2 where st2: "visit_deps n byName deps st1 = Some st2" "added byName st1 st2" "set deps \<inter> dom byName \<subseteq> fst st2"
      by blast
    have "d \<in> fst st2" using st2(2) st1(3) by (auto simp: added_def split: prod.splits)
    then show ?thesis
      using st1 st2 True added_trans[OF st1(2) st2(2)] by (intro exI[of _ st2]) (auto simp: domIff)
  qed
qed

lemma visit_order_ok:
  assumes fin: "finite (dom byName)"
  shows "name \<in> dom byName \<Longrightarrow> set (snd st) \<subseteq> fst st \<Longrightarrow> card (dom byName - fst st) < n \<Longrightarrow>
    waits_for byName st {name} \<Longrightarrow> \<exists>st'. visit_order n byName name st = Some st' \<and> added byName st st' \<and> name \<in> fst st'"
proof (induction n arbitrary: name st)
  case (Suc n)
  obtain v os where st: "st = (v, os)" by (cases st)
  obtain deps where deps: "byName name = Some deps" using Suc.prems(1) by blast
  show ?case
  proof (cases "name \<in> v")
    case True
    then show ?thesis by (simp add: st added_refl)
  next
    case False
    let ?st1 = "(insert name v, os)"
    have edge: "(name, d) \<in> dep_edges byName" if "d \<in> set deps \<inter> dom byName" for d
      using that deps by (auto simp: dep_edges_def)
    have "waits_for byName ?st1 (set deps \<inter> dom byName)"
      unfolding waits_for_def
    proof (intro ballI)
      fix g d assume g: "g \<in> fst ?st1 - set (snd ?st1)" and d: "d \<in> set deps \<inter> dom byName"
      show "(g, d) \<in> (dep_edges byName)\<^sup>+"
      proof (cases "g = name")
        case True
        then show ?thesis using edge[OF d] by (simp add: r_into_trancl)
      next
        case False
        with g have "g \<in> v - set os" by auto
        with Suc.prems(4) have "(g, name) \<in> (dep_edges byName)\<^sup>+" by (simp add: waits_for_def st)
        from trancl_into_trancl[OF this edge[OF d]] show ?thesis .
      qed
    qed
    moreover have "card (dom byName - insert name v) < n"
    proof -
      have "card (dom byName - insert name v) < card (dom byName - v)"
        using False Suc.prems(1) fin by (intro psubset_card_mono) auto
      with Suc.prems(3) show ?thesis by (simp add: st)
    qed
    moreover have "set os \<subseteq> insert name v" using Suc.prems(2) by (auto simp: st)
    ultimately have "\<exists>st'. visit_deps n byName deps ?st1 = Some st' \<and> added byName ?st1 st' \<and>
        set deps \<inter> dom byName \<subseteq> fst st'"
      by (intro visit_deps_ok[OF Suc.IH fin]) simp_all
    then obtain st2 where st2: "visit_deps n byName deps ?st1 = Some st2" "added byName ?st1 st2"
      "set deps \<inter> dom byName \<subseteq> fst st2" by blast
    obtain new where new: "st2 = (insert name v \<union> set new, os @ new)" "distinct new" "set new \<inter> insert name v = {}"
      "set new \<subseteq> dom byName"
      and topo: "acyclic (dep_edges byName) \<Longrightarrow> new = xs @ x # ys \<Longrightarrow> dep_edges byName `` {x} \<subseteq> set os \<union> set xs" for xs x ys
      using st2(2) by (cases st2) (auto simp: added_def)
    have own: "dep_edges byName `` {name} \<subseteq> set os \<union> set new" if acyc: "acyclic (dep_edges byName)"
    proof
      fix d assume "d \<in> dep_edges byName `` {name}"
      then have edge': "(name, d) \<in> dep_edges byName" and d: "d \<in> set deps \<inter> dom byName"
        by (auto simp: dep_edges_def deps)
      have "(name, d) \<in> (dep_edges byName)\<^sup>+" using edge' by (rule r_into_trancl)
      with acyc have "d \<noteq> name" by (metis acyclic_def)
      moreover have "d \<notin> v - set os"
      proof
        assume "d \<in> v - set os"
        then have "(d, name) \<in> (dep_edges byName)\<^sup>+" using Suc.prems(4) by (simp add: waits_for_def st)
        from trancl_into_trancl[OF this edge'] acyc show False by (metis acyclic_def)
      qed
      ultimately show "d \<in> set os \<union> set new" using st2(3) d new(1) by auto
    qed
    have "dep_edges byName `` {x} \<subseteq> set os \<union> set xs"
      if acyc: "acyclic (dep_edges byName)" and split: "new @ [name] = xs @ x # ys" for xs x ys
    proof (cases ys rule: rev_cases)
      case Nil
      with split own[OF acyc] show ?thesis by auto
    next
      case (snoc ys' y)
      with split topo[OF acyc, of xs x ys'] show ?thesis by auto
    qed
    then have "added byName st (fst st2, snd st2 @ [name])"
      using new False Suc.prems(1) unfolding added_def st by (auto intro!: exI[of _ "new @ [name]"])
    moreover have "visit_order (Suc n) byName name st = Some (fst st2, snd st2 @ [name])"
      using False st2(1) by (simp add: st deps split: prod.splits)
    moreover have "name \<in> fst st2" by (simp add: new(1))
    ultimately show ?thesis by auto
  qed
qed simp

text \<open>
  (C17) \<^verbatim>\<open>OrderByDependencies\<close> always ends, lists every module exactly once and, when the dependencies have
  no cycle, puts each module after every module it depends on that is present.
\<close>

theorem OrderByDependencies_topological:
  assumes "distinct (map fst mods)"
  shows "\<exists>ordered. OrderByDependencies mods = Some ordered \<and> distinct ordered \<and> set ordered = fst ` set mods \<and>
    (acyclic {(n, d). \<exists>deps. (n, deps) \<in> set mods \<and> d \<in> set deps \<and> d \<in> fst ` set mods} \<longrightarrow>
      (\<forall>before n after deps. ordered = before @ n # after \<and> (n, deps) \<in> set mods \<longrightarrow>
         set deps \<inter> fst ` set mods \<subseteq> set before))"
proof -
  let ?by = "map_of (rev mods)"
  have dom: "dom ?by = fst ` set mods" by (simp add: dom_map_of_conv_image_fst)
  have get: "?by n = Some deps \<longleftrightarrow> (n, deps) \<in> set mods" for n deps
    using assms by (simp add: rev_map[symmetric])
  have edges: "dep_edges ?by = {(n, d). \<exists>deps. (n, deps) \<in> set mods \<and> d \<in> set deps \<and> d \<in> fst ` set mods}"
    unfolding dep_edges_def dom by (auto simp: get)
  have "card (dom ?by - {}) < length mods + 1"
    using card_image_le[of "set mods" fst] card_length[of mods] by (simp add: dom)
  then obtain st' where st': "visit_deps (length mods + 1) ?by (sort (map fst mods)) ({}, []) = Some st'"
    "added ?by ({}, []) st'" "set (sort (map fst mods)) \<inter> dom ?by \<subseteq> fst st'"
    using visit_deps_ok[OF visit_order_ok, of ?by "length mods + 1" "({}, [])" "sort (map fst mods)"]
    by (auto simp: waits_for_def finite_dom_map_of)
  obtain new where new: "st' = (set new, new)" "distinct new" "set new \<subseteq> dom ?by"
    and topo: "acyclic (dep_edges ?by) \<Longrightarrow> new = xs @ x # ys \<Longrightarrow> dep_edges ?by `` {x} \<subseteq> set xs" for xs x ys
    using st'(2) by (cases st') (auto simp: added_def)
  have "set new = fst ` set mods" using new(3) st'(3) by (auto simp: new(1) dom)
  moreover have "set deps \<inter> fst ` set mods \<subseteq> set before"
    if "acyclic (dep_edges ?by)" "new = before @ n # after" "(n, deps) \<in> set mods" for before n after deps
    using topo[OF that(1,2)] that(3) by (auto simp: edges)
  ultimately show ?thesis
    using st'(1) new(1,2) by (auto simp: OrderByDependencies_def edges)
qed

theorem OrderByDependencies_topological_witness:
  "OrderByDependencies [(''b'', [''a'', ''x'']), (''a'', [])] = Some [''a'', ''b'']"
proof -
  obtain ordered where "OrderByDependencies [(''b'', [''a'', ''x'']), (''a'', [])] = Some ordered"
    "set ordered = {''b'', ''a''}"
    using OrderByDependencies_topological[of "[(''b'', [''a'', ''x'']), (''a'', [])]"] by auto
  moreover have "OrderByDependencies [(''b'', [''a'', ''x'']), (''a'', [])] = Some [''a'', ''b'']"
    by code_simp
  ultimately show ?thesis by simp
qed

end
