(* ===== verification/Model_Extension.thy ===== *)
theory Model_Extension
  imports Module_Model
begin

text \<open>
  Additive model extensions (\<^verbatim>\<open>internal/engine/modelextension\<close>): the checks of a single module, the order
  in which extensions are applied and the effective model declarations. The code copies the modules
  and edits the copies in place; here the edited copies are threaded through.
\<close>

section \<open>Validation of one module\<close>

datatype ext_error =
    ExtDeclaresModels
  | ExtNeedsTargets "string list"
  | ExtTarget string
  | ExtIdentity string string
  | ExtNullable string string
  | ExtCycle string
  | ExtDependency string string
  | ExtUnowned string string
  | ExtNotOwned string string
  | ExtNotTable string string
  | ExtEnum string string string
  | ExtFieldExists string string string
  | ExtIndexExists string string string
  | ExtIndexColumn string string string string
  | ExtInvalid string ext_error

definition ext_field_error :: "model_extension \<Rightarrow> named_field \<Rightarrow> ext_error option" where
  "ext_field_error e f =
     (let def = nf_Def f
      in if fd_IsPrimaryKey def \<or> fd_IsPrimary def \<or> fd_WorkflowTransitions def \<noteq> []
         then Some (ExtIdentity (me_Model e) (nf_Name f))
         else if fd_IsRequired def \<and> fd_DefaultExpr def = None
         then Some (ExtNullable (me_Model e) (nf_Name f))
         else None)"

definition ext_error_of :: "manifest \<Rightarrow> model_extension \<Rightarrow> ext_error option" where
  "ext_error_of mf e =
     (case cut (CHR ''.'') (me_Model e) of
        (owner, resource, qualified) \<Rightarrow>
          if mf_Type mf \<noteq> ''field_extension'' \<or> \<not> qualified \<or> resource = [] \<or>
             mf_ExtendsModule mf \<noteq> Some owner \<or> me_Model e \<notin> set (mf_ExtendsModels mf) \<or>
             owner \<notin> set (mf_DependsOn mf)
          then Some (ExtTarget (me_Model e))
          else first_err (ext_field_error e) (me_Fields e))"

definition Validate :: "'f loaded_module \<Rightarrow> ext_error option" where
  "Validate m =
     (let mf = lm_Manifest m
      in if mf_Type mf = ''field_extension'' \<and> lm_ModelDecls m \<noteq> [] then Some ExtDeclaresModels
         else if mf_Type mf = ''field_extension'' \<and>
                 (case mf_ExtendsModule mf of
                    None \<Rightarrow> True
                  | Some owner \<Rightarrow> mf_ExtendsModels mf = [] \<or> owner \<notin> set (mf_DependsOn mf))
         then Some (ExtNeedsTargets (mf_ExtendsModels mf))
         else first_err (ext_error_of mf) (lm_ModelExtensions m))"

section \<open>Order\<close>

definition load_sorted :: "'f modules \<Rightarrow> string list" where
  "load_sorted ms =
     sort_key (\<lambda>n. case map_of ms n of None \<Rightarrow> 0 | Some m \<Rightarrow> lm_LoadOrder m) (sort (map fst ms))"

definition ready :: "'f modules \<Rightarrow> string list \<Rightarrow> string \<Rightarrow> bool" where
  "ready ms loaded name \<longleftrightarrow> list_all (\<lambda>d. \<not> alive ms d \<or> d \<in> set loaded) (dependsOn ms name)"

function order_from :: "'f modules \<Rightarrow> string list \<Rightarrow> string list \<Rightarrow> (ext_error, string list) result" where
  "order_from ms [] ordered = Inr ordered"
| "order_from ms (n # ns) ordered =
     (case List.find (ready ms ordered) (n # ns) of
        None \<Rightarrow> Inl (ExtCycle n)
      | Some name \<Rightarrow> order_from ms (remove1 name (n # ns)) (ordered @ [name]))"
  by pat_completeness auto

termination
  by (relation "measure (\<lambda>(_, ns, _). length ns)") (auto simp: find_Some_iff length_remove1 split: if_splits)

definition Order :: "'f modules \<Rightarrow> (ext_error, string list) result" where
  "Order ms = order_from ms (filter (alive ms) (load_sorted ms)) []"

section \<open>Effective declarations\<close>

fun index_of :: "('a \<Rightarrow> bool) \<Rightarrow> 'a list \<Rightarrow> nat option" where
  "index_of P [] = None"
| "index_of P (x # xs) = (if P x then Some 0 else map_option Suc (index_of P xs))"

definition merge_type :: "string \<Rightarrow> model_extension \<Rightarrow> type_declaration \<Rightarrow> type_declaration list \<Rightarrow>
    (ext_error, type_declaration list) result" where
  "merge_type name e t types =
     (case List.find (\<lambda>t'. td_Name t' = td_Name t) types of
        None \<Rightarrow> Inr (types @ [t])
      | Some t' \<Rightarrow>
          if td_Values t' \<noteq> td_Values t then Inl (ExtEnum name (me_Model e) (td_Name t)) else Inr types)"

definition add_field :: "string \<Rightarrow> model_extension \<Rightarrow> named_field \<Rightarrow> model_declaration \<Rightarrow>
    (ext_error, model_declaration) result" where
  "add_field name e f md =
     (if nf_Name f = [] \<or> hasField md (nf_Name f) then Inl (ExtFieldExists name (me_Model e) (nf_Name f))
      else Inr (md\<lparr>md_Fields := md_Fields md @ [f\<lparr>nf_DeclaringModule := name\<rparr>]\<rparr>))"

definition add_index :: "string \<Rightarrow> model_extension \<Rightarrow> named_index \<Rightarrow> model_declaration \<Rightarrow>
    (ext_error, model_declaration) result" where
  "add_index name e ix md =
     (if ni_Name ix = [] \<or> list_ex (\<lambda>i. ni_Name i = ni_Name ix) (md_Indexes md)
      then Inl (ExtIndexExists name (me_Model e) (ni_Name ix))
      else case List.find (\<lambda>c. \<not> hasField md c) (ix_Columns (ni_Def ix)) of
             Some c \<Rightarrow> Inl (ExtIndexColumn name (me_Model e) (ni_Name ix) c)
           | None \<Rightarrow> Inr (md\<lparr>md_Indexes := md_Indexes md @ [ix]\<rparr>))"

definition apply_ext :: "string \<Rightarrow> type_declaration list \<Rightarrow> model_extension \<Rightarrow> 'f modules \<Rightarrow>
    (ext_error, 'f modules) result" where
  "apply_ext name types e resolved =
     (let owner = fst (cut (CHR ''.'') (me_Model e))
      in case map_of resolved owner of
           None \<Rightarrow> Inl (ExtNotOwned name (me_Model e))
         | Some base \<Rightarrow>
             if failed base \<or> me_Model e \<notin> set (mf_OwnedModels (lm_Manifest base))
             then Inl (ExtNotOwned name (me_Model e))
             else (case index_of (\<lambda>md. QualifiedName md owner = me_Model e) (lm_ModelDecls base) of
                     None \<Rightarrow> Inl (ExtNotTable name (me_Model e))
                   | Some idx \<Rightarrow>
                       if md_Backend (lm_ModelDecls base ! idx) \<noteq> [] then Inl (ExtNotTable name (me_Model e))
                       else and_then (fold_res (merge_type name e) types (lm_TypeDecls base)) (\<lambda>ts.
                            and_then (fold_res (add_field name e) (me_Fields e) (lm_ModelDecls base ! idx)) (\<lambda>md1.
                            and_then (fold_res (add_index name e) (me_Indexes e) md1) (\<lambda>md2.
                              Inr (upd owner (\<lambda>b. b\<lparr>lm_TypeDecls := ts,
                                     lm_ModelDecls := (lm_ModelDecls b)[idx := md2]\<rparr>) resolved))))))"

definition owner_ok :: "'f modules \<Rightarrow> manifest \<Rightarrow> string \<Rightarrow> bool" where
  "owner_ok ms mf target \<longleftrightarrow>
     (let owner = fst (cut (CHR ''.'') target)
      in mf_ExtendsModule mf = Some owner \<and>
         (case map_of ms owner of
            None \<Rightarrow> False
          | Some base \<Rightarrow> \<not> failed base \<and> target \<in> set (mf_OwnedModels (lm_Manifest base)) \<and>
              list_ex (\<lambda>md. QualifiedName md owner = target \<and> md_Backend md = []) (lm_ModelDecls base)))"

definition field_extension_error :: "'f modules \<Rightarrow> string \<Rightarrow> manifest \<Rightarrow> ext_error option" where
  "field_extension_error ms name mf =
     (if mf_Type mf \<noteq> ''field_extension'' then None
      else case List.find (\<lambda>d. \<not> alive ms d) (mf_DependsOn mf) of
             Some d \<Rightarrow> Some (ExtDependency name d)
           | None \<Rightarrow> map_option (ExtUnowned name) (List.find (\<lambda>t. \<not> owner_ok ms mf t) (mf_ExtendsModels mf)))"

definition resolve_module :: "'f modules \<Rightarrow> string \<Rightarrow> 'f modules \<Rightarrow> (ext_error, 'f modules) result" where
  "resolve_module ms name resolved =
     (case map_of ms name of
        None \<Rightarrow> Inr resolved
      | Some m \<Rightarrow>
          if failed m then Inr resolved
          else case Validate m of
                 Some err \<Rightarrow> Inl (ExtInvalid name err)
               | None \<Rightarrow>
                   (case field_extension_error ms name (lm_Manifest m) of
                      Some err \<Rightarrow> Inl err
                    | None \<Rightarrow> fold_res (apply_ext name (lm_TypeDecls m)) (lm_ModelExtensions m) resolved))"

definition Resolve :: "'f modules \<Rightarrow> (ext_error, 'f modules) result" where
  "Resolve ms = and_then (Order ms) (\<lambda>names. fold_res (resolve_module ms) names ms)"

section \<open>The order is a topological order\<close>

lemma find_SomeD: "List.find P xs = Some x \<Longrightarrow> x \<in> set xs \<and> P x"
  by (metis find_Some_iff nth_mem)

definition alive_edges :: "'f modules \<Rightarrow> (string \<times> string) set" where
  "alive_edges ms = {(n, d). alive ms n \<and> alive ms d \<and> d \<in> set (dependsOn ms n)}"

definition topo :: "'f modules \<Rightarrow> string list \<Rightarrow> bool" where
  "topo ms ns \<longleftrightarrow> (\<forall>xs x ys. ns = xs @ x # ys \<longrightarrow> alive_edges ms `` {x} \<subseteq> set xs)"

lemma topo_Nil [simp]: "topo ms []"
  by (simp add: topo_def)

lemma topo_snoc: "topo ms ns \<Longrightarrow> alive_edges ms `` {x} \<subseteq> set ns \<Longrightarrow> topo ms (ns @ [x])"
  unfolding topo_def by (metis append_butlast_last_id butlast.simps(2) butlast_append last_appendR last_snoc list.distinct(1) butlast_snoc last.simps)

lemma order_from_ok:
  assumes "order_from ms ns ordered = Inr out" "topo ms ordered" "distinct ordered" "distinct ns"
    "set ns \<inter> set ordered = {}" "\<forall>n \<in> set ns. alive ms n"
  shows "topo ms out \<and> distinct out \<and> set out = set ordered \<union> set ns"
  using assms
proof (induction ms ns ordered rule: order_from.induct)
  case (2 ms n ns ordered)
  from "2.prems"(1) obtain name where find: "List.find (ready ms ordered) (n # ns) = Some name"
    and rest: "order_from ms (remove1 name (n # ns)) (ordered @ [name]) = Inr out"
    by (auto simp del: find.simps split: option.splits)
  have name: "name \<in> set (n # ns)" "ready ms ordered name" using find_SomeD[OF find] by auto
  then have "topo ms (ordered @ [name])"
    using "2.prems"(2) by (intro topo_snoc) (auto simp: alive_edges_def ready_def list_all_iff)
  then have "topo ms out \<and> distinct out \<and> set out = set (ordered @ [name]) \<union> set (remove1 name (n # ns))"
    using name "2.prems"(3-6) by (intro "2.IH"[OF find rest]) (auto simp del: remove1.simps)
  moreover have "set (remove1 name (n # ns)) = set (n # ns) - {name}"
    using "2.prems"(4) by (rule set_remove1_eq)
  ultimately show ?case using name(1) by auto
qed simp

lemma order_from_cycle:
  assumes "order_from ms ns ordered = Inl err" "\<forall>n. alive ms n \<longrightarrow> n \<in> set ns \<or> n \<in> set ordered"
    "\<forall>n \<in> set ns. alive ms n" "distinct ns"
  shows "\<not> acyclic (alive_edges ms)"
  using assms
proof (induction ms ns ordered rule: order_from.induct)
  case (2 ms n ns ordered)
  show ?case
  proof (cases "List.find (ready ms ordered) (n # ns)")
    case (Some name)
    then have name: "name \<in> set (n # ns)" using find_SomeD by fast
    have set: "set (remove1 name (n # ns)) = set (n # ns) - {name}"
      using "2.prems"(4) by (rule set_remove1_eq)
    show ?thesis
    proof (rule "2.IH"[OF Some])
      show "order_from ms (remove1 name (n # ns)) (ordered @ [name]) = Inl err"
        using "2.prems"(1) Some by (simp del: find.simps)
      show "\<forall>k. alive ms k \<longrightarrow> k \<in> set (remove1 name (n # ns)) \<or> k \<in> set (ordered @ [name])"
        using "2.prems"(2) unfolding set by auto
      show "\<forall>k \<in> set (remove1 name (n # ns)). alive ms k" using "2.prems"(3) unfolding set by auto
      show "distinct (remove1 name (n # ns))" using "2.prems"(4) by (rule distinct_remove1)
    qed
  next
    case None
    let ?N = "set (n # ns)"
    have next_ex: "\<exists>d \<in> ?N. (k, d) \<in> alive_edges ms" if k: "k \<in> ?N" for k
    proof -
      have "\<not> ready ms ordered k" using None k by (auto simp: find_None_iff simp del: find.simps)
      then obtain d where "d \<in> set (dependsOn ms k)" "alive ms d" "d \<notin> set ordered"
        by (auto simp: ready_def list_all_iff)
      then show ?thesis using "2.prems"(2,3) k by (auto simp: alive_edges_def)
    qed
    show ?thesis
    proof
      assume "acyclic (alive_edges ms)"
      then have "acyclic (alive_edges ms \<inter> ?N \<times> ?N)" by (rule acyclic_subset) auto
      then have "wf ((alive_edges ms \<inter> ?N \<times> ?N)\<inverse>)"
        by (intro finite_acyclic_wf) (auto simp: acyclic_converse)
      then obtain z where "z \<in> ?N" "\<And>y. (y, z) \<in> (alive_edges ms \<inter> ?N \<times> ?N)\<inverse> \<Longrightarrow> y \<notin> ?N"
        by (rule wfE_min[of _ n ?N]) auto
      with next_ex[of z] show False by auto
    qed
  qed
qed simp

lemma topo_acyclic:
  assumes "topo ms ns" "distinct ns" "\<forall>n. alive ms n \<longrightarrow> n \<in> set ns"
  shows "acyclic (alive_edges ms)"
proof -
  define pos where "pos n = length (takeWhile (\<lambda>x. x \<noteq> n) ns)" for n
  have "pos d < pos n" if "(n, d) \<in> alive_edges ms" for n d
  proof -
    have "n \<in> set ns" using that assms(3) by (auto simp: alive_edges_def)
    then obtain xs ys where ns: "ns = xs @ n # ys" "n \<notin> set xs" by (meson split_list_first)
    then have "d \<in> set xs" using assms(1) that by (auto simp: topo_def)
    then obtain us vs where xs: "xs = us @ d # vs" "d \<notin> set us" by (meson split_list_first)
    have "pos d = length us" "pos n = length xs"
      unfolding pos_def ns xs using ns(2) xs by (auto simp: takeWhile_append)
    then show ?thesis by (simp add: xs)
  qed
  then have "(alive_edges ms)\<inverse> \<subseteq> measure pos" by auto
  then have "wf ((alive_edges ms)\<inverse>)" by (rule wf_subset[rotated]) simp
  then show ?thesis using wf_acyclic acyclic_converse by metis
qed

end
