(* ===== verification/Model_Extension_Props.thy ===== *)
theory Model_Extension_Props
  imports Model_Extension
begin

text \<open>
  What ordering and resolving model extensions (\<^const>\<open>Order\<close>, \<^const>\<open>Resolve\<close>) guarantee to the code
  that builds schemas from the effective declarations, with a small set of modules (an owner, its
  extension and a module that failed) on which the results are applied.
\<close>

section \<open>A small set of modules\<close>

definition plain_manifest :: "string \<Rightarrow> string \<Rightarrow> string list \<Rightarrow> manifest" where
  "plain_manifest name type deps =
     \<lparr>mf_Name = name, mf_Type = type, mf_DependsOn = deps, mf_SoftDependsOn = [], mf_ConflictsWith = [],
      mf_Emits = [], mf_Subscribes = [], mf_Permissions = [], mf_UsesPermissions = [], mf_Policies = [],
      mf_Views = [], mf_ViewExtensions = [], mf_ViewExtensionDefinitions = [], mf_ViewsJSON = [],
      mf_NavigationJSON = [], mf_ReportsJSON = [], mf_Reports = [], mf_ReportOverrides = [],
      mf_ConfigSchema = [], mf_UsesConfig = [], mf_OAuthProvider = None, mf_OwnedModels = [],
      mf_ExtendsModule = None, mf_ExtendsModels = []\<rparr>"

definition plain_module :: "manifest \<Rightarrow> 'f loaded_module" where
  "plain_module mf =
     \<lparr>lm_Manifest = mf, lm_Status = StatusPending, lm_FailureReason = None, lm_LoadOrder = 0,
      lm_ExplicitRoutes = [], lm_ModelDecls = [], lm_ModelExtensions = [], lm_TypeDecls = [],
      lm_UsesConfig = [], lm_Diagnostics = []\<rparr>"


definition sample_modules :: "(string \<times> unit loaded_module) list" where
  "sample_modules =
     [(''hr_ext'', (plain_module ((plain_manifest ''hr_ext'' ''field_extension'' [''hr''])
          \<lparr>mf_ExtendsModule := Some ''hr'', mf_ExtendsModels := [''hr.employee'']\<rparr>))
        \<lparr>lm_ModelExtensions :=
            [\<lparr>me_Model = ''hr.employee'', me_Fields = [\<lparr>nf_Name = ''badge'', nf_Def = of_kind KindText, nf_DeclaringModule = []\<rparr>],
              me_Indexes = []\<rparr>]\<rparr>),
      (''hr'', (plain_module ((plain_manifest ''hr'' ''module'' [])\<lparr>mf_OwnedModels := [''hr.employee'']\<rparr>))
        \<lparr>lm_ModelDecls := [Field ''name'' (of_kind KindText) (Define ''employee'')]\<rparr>),
      (''old'', Fail () (plain_module (plain_manifest ''old'' ''module'' [''old''])))]"

section \<open>The order is exact\<close>

lemma alive_keys: "alive ms n \<Longrightarrow> n \<in> set (load_sorted ms)"
  by (auto simp: alive_def load_sorted_def split: option.splits dest: map_of_SomeD intro!: image_eqI)

text \<open>
  (C16) \<^verbatim>\<open>Order\<close> succeeds exactly when the modules that have not failed have no dependency cycle among
  them, and then lists each of them once, after all it depends on.
\<close>

theorem Order_exact:
  assumes "distinct (map fst ms)"
  shows "((\<exists>names. Order ms = Inr names) \<longleftrightarrow> acyclic (alive_edges ms)) \<and>
    (\<forall>names. Order ms = Inr names \<longrightarrow> distinct names \<and> set names = {n. alive ms n} \<and> topo ms names)"
proof -
  define ns where "ns = filter (alive ms) (load_sorted ms)"
  have ns: "distinct ns"
    unfolding ns_def load_sorted_def by (intro distinct_filter) (simp only: distinct_sort assms)
  have alive: "set ns = {n. alive ms n}"
    unfolding ns_def set_filter by (intro Collect_cong) (metis alive_keys)
  have Order: "Order ms = order_from ms ns []" by (simp add: Order_def ns_def)
  have ok: "distinct names \<and> set names = {n. alive ms n} \<and> topo ms names" if "Order ms = Inr names" for names
  proof -
    have "topo ms names \<and> distinct names \<and> set names = set [] \<union> set ns"
      by (rule order_from_ok[OF that[unfolded Order] topo_Nil _ ns]) (simp_all add: alive)
    then show ?thesis unfolding alive by simp
  qed
  have "acyclic (alive_edges ms)" if "Order ms = Inr names" for names
    using ok[OF that] by (intro topo_acyclic[of ms names]) simp_all
  moreover have "\<not> acyclic (alive_edges ms)" if "Order ms = Inl err" for err
    using ns alive by (intro order_from_cycle[OF that[unfolded Order]]) simp_all
  ultimately show ?thesis using ok by (cases "Order ms") auto
qed

theorem Order_exact_witness:
  "Order sample_modules = Inr [''hr'', ''hr_ext''] \<and> acyclic (alive_edges sample_modules)"
proof -
  have order: "Order sample_modules = Inr [''hr'', ''hr_ext'']" by code_simp
  have "distinct (map fst sample_modules)" by code_simp
  from Order_exact[OF this] order show ?thesis by blast
qed

section \<open>Resolution only adds\<close>

definition extension_field :: "'f modules \<Rightarrow> string \<Rightarrow> model_declaration \<Rightarrow> named_field \<Rightarrow> bool" where
  "extension_field ms owner md f \<longleftrightarrow>
     nf_Name f \<noteq> [] \<and> \<not> hasField md (nf_Name f) \<and>
     (\<exists>m e g. map_of ms (nf_DeclaringModule f) = Some m \<and> \<not> failed m \<and> owner \<in> set (mf_DependsOn (lm_Manifest m)) \<and>
        e \<in> set (lm_ModelExtensions m) \<and> me_Model e = QualifiedName md owner \<and> g \<in> set (me_Fields e) \<and>
        f = g\<lparr>nf_DeclaringModule := nf_DeclaringModule f\<rparr> \<and> ext_field_error e g = None)"

definition extends_model :: "'f modules \<Rightarrow> string \<Rightarrow> model_declaration \<Rightarrow> model_declaration \<Rightarrow> bool" where
  "extends_model ms owner md md' \<longleftrightarrow>
     (\<exists>fs ixs. md' = md\<lparr>md_Fields := md_Fields md @ fs, md_Indexes := md_Indexes md @ ixs\<rparr> \<and>
        distinct (map nf_Name fs) \<and> (\<forall>f \<in> set fs. extension_field ms owner md f) \<and>
        distinct (map ni_Name ixs) \<and> ni_Name ` set ixs \<inter> ni_Name ` set (md_Indexes md) = {} \<and>
        (\<forall>ix \<in> set ixs. list_all (hasField md') (ix_Columns (ni_Def ix))))"

definition extends_module :: "'f modules \<Rightarrow> string \<Rightarrow> 'f loaded_module \<Rightarrow> 'f loaded_module \<Rightarrow> bool" where
  "extends_module ms owner m m' \<longleftrightarrow>
     (\<exists>ds ts. m' = m\<lparr>lm_ModelDecls := ds, lm_TypeDecls := lm_TypeDecls m @ ts\<rparr> \<and>
        list_all2 (extends_model ms owner) (lm_ModelDecls m) ds)"

definition conservative :: "'f modules \<Rightarrow> 'f modules \<Rightarrow> bool" where
  "conservative ms rs \<longleftrightarrow> map fst rs = map fst ms \<and>
     (\<forall>n m. map_of ms n = Some m \<longrightarrow> (\<exists>m'. map_of rs n = Some m' \<and> extends_module ms n m m'))"

lemma hasField_append:
  "hasField (md\<lparr>md_Fields := md_Fields md @ fs\<rparr>) c \<longleftrightarrow> hasField md c \<or> (\<exists>f \<in> set fs. nf_Name f = c)"
  by (auto simp: hasField_def list_ex_iff)

lemma hasField_indexes [simp]: "hasField (md\<lparr>md_Indexes := ixs\<rparr>) = hasField md"
  by (simp add: hasField_def fun_eq_iff)

lemma extends_model_refl: "extends_model ms owner md md"
  unfolding extends_model_def by (intro exI[of _ "[]"]) simp

lemma extends_model_field:
  assumes "extends_model ms owner md now" "add_field name e f now = Inr out" "f \<in> set (me_Fields e)"
    and "map_of ms name = Some m" "\<not> failed m" "owner \<in> set (mf_DependsOn (lm_Manifest m))"
    and "e \<in> set (lm_ModelExtensions m)" "me_Model e = QualifiedName md owner" "ext_field_error e f = None"
  shows "extends_model ms owner md out"
proof -
  obtain fs ixs where now: "now = md\<lparr>md_Fields := md_Fields md @ fs, md_Indexes := md_Indexes md @ ixs\<rparr>"
    and rest: "distinct (map nf_Name fs)" "\<forall>f \<in> set fs. extension_field ms owner md f"
      "distinct (map ni_Name ixs)" "ni_Name ` set ixs \<inter> ni_Name ` set (md_Indexes md) = {}"
      "\<forall>ix \<in> set ixs. list_all (hasField now) (ix_Columns (ni_Def ix))"
    using assms(1) by (auto simp: extends_model_def)
  let ?f = "f\<lparr>nf_DeclaringModule := name\<rparr>"
  have new: "nf_Name f \<noteq> []" "\<not> hasField now (nf_Name f)" "out = now\<lparr>md_Fields := md_Fields now @ [?f]\<rparr>"
    using assms(2) by (auto simp: add_field_def split: if_splits)
  have names: "\<not> hasField md (nf_Name f)" "nf_Name f \<notin> nf_Name ` set fs"
    using new(2) by (auto simp: now hasField_def list_ex_iff)
  have "extension_field ms owner md ?f"
    unfolding extension_field_def using new(1) names(1) assms(3-9) by auto
  moreover have "list_all (hasField out) cs" if "list_all (hasField now) cs" for cs
    using that by (auto simp: new(3) list_all_iff hasField_append)
  ultimately show ?thesis
    unfolding extends_model_def using rest names(2)
    by (intro exI[of _ "fs @ [?f]"] exI[of _ ixs]) (auto simp: new(3) now)
qed

lemma extends_model_index:
  assumes "extends_model ms owner md now" "add_index name e ix now = Inr out"
  shows "extends_model ms owner md out"
proof -
  obtain fs ixs where now: "now = md\<lparr>md_Fields := md_Fields md @ fs, md_Indexes := md_Indexes md @ ixs\<rparr>"
    and rest: "distinct (map nf_Name fs)" "\<forall>f \<in> set fs. extension_field ms owner md f"
      "distinct (map ni_Name ixs)" "ni_Name ` set ixs \<inter> ni_Name ` set (md_Indexes md) = {}"
      "\<forall>ix \<in> set ixs. list_all (hasField now) (ix_Columns (ni_Def ix))"
    using assms(1) by (auto simp: extends_model_def)
  have new: "ni_Name ix \<notin> ni_Name ` set (md_Indexes now)" "list_all (hasField now) (ix_Columns (ni_Def ix))"
    "out = now\<lparr>md_Indexes := md_Indexes now @ [ix]\<rparr>"
    using assms(2) by (auto simp: add_index_def list_ex_iff list_all_iff find_None_iff split: if_splits option.splits)
  have "\<forall>ix' \<in> set (ixs @ [ix]). list_all (hasField out) (ix_Columns (ni_Def ix'))"
    using rest(5) new(2) by (simp add: new(3))
  with rest new(1) show ?thesis
    unfolding extends_model_def
    by (intro exI[of _ fs] exI[of _ "ixs @ [ix]"]) (auto simp: new(3) now)
qed

lemma fold_res_invariant:
  assumes "fold_res f xs s = Inr t" "P s" "\<And>x s s'. x \<in> set xs \<Longrightarrow> P s \<Longrightarrow> f x s = Inr s' \<Longrightarrow> P s'"
  shows "P t"
  using assms
proof (induction xs arbitrary: s)
  case (Cons x xs)
  then obtain s1 where "f x s = Inr s1" "fold_res f xs s1 = Inr t" by (auto split: sum.splits)
  then show ?case using Cons.prems(2,3) by (auto intro: Cons.IH)
qed simp

lemma merge_types_append: "fold_res (merge_type name e) types ts = Inr ts' \<Longrightarrow> \<exists>extra. ts' = ts @ extra"
  by (erule fold_res_invariant[where P = "\<lambda>ts'. \<exists>extra. ts' = ts @ extra"])
    (auto simp: merge_type_def split: option.splits if_splits)

lemma index_of_Some: "index_of P xs = Some i \<Longrightarrow> i < length xs \<and> P (xs ! i)"
  by (induction xs arbitrary: i) (auto split: if_splits)

lemma Validate_ext:
  assumes "Validate m = None" "e \<in> set (lm_ModelExtensions m)"
  shows "fst (cut (CHR ''.'') (me_Model e)) \<in> set (mf_DependsOn (lm_Manifest m)) \<and>
    (\<forall>f \<in> set (me_Fields e). ext_field_error e f = None)"
proof -
  have "ext_error_of (lm_Manifest m) e = None"
    using assms by (auto simp: Validate_def Let_def split: if_splits)
  then show ?thesis by (auto simp: ext_error_of_def split: prod.splits if_splits)
qed

lemma extends_model_name:
  "extends_model ms owner md now \<Longrightarrow> QualifiedName now n = QualifiedName md n"
  by (auto simp: extends_model_def QualifiedName_def)

lemma apply_ext_conservative:
  assumes "conservative ms rs" "apply_ext name types e rs = Inr rs'"
    and m: "map_of ms name = Some m" "\<not> failed m" "Validate m = None" "e \<in> set (lm_ModelExtensions m)"
  shows "conservative ms rs'"
proof -
  let ?owner = "fst (cut (CHR ''.'') (me_Model e))"
  obtain base idx ts md1 md2 where base: "map_of rs ?owner = Some base"
    and idx: "index_of (\<lambda>md. QualifiedName md ?owner = me_Model e) (lm_ModelDecls base) = Some idx"
    and ts: "fold_res (merge_type name e) types (lm_TypeDecls base) = Inr ts"
    and md1: "fold_res (add_field name e) (me_Fields e) (lm_ModelDecls base ! idx) = Inr md1"
    and md2: "fold_res (add_index name e) (me_Indexes e) md1 = Inr md2"
    and rs': "rs' = upd ?owner (\<lambda>b. b\<lparr>lm_TypeDecls := ts, lm_ModelDecls := (lm_ModelDecls b)[idx := md2]\<rparr>) rs"
    using assms(2) by (auto simp: apply_ext_def Let_def and_then_Inr_iff split: option.splits if_splits)
  have i: "idx < length (lm_ModelDecls base)" "QualifiedName (lm_ModelDecls base ! idx) ?owner = me_Model e"
    using index_of_Some[OF idx] by auto
  have ext: "?owner \<in> set (mf_DependsOn (lm_Manifest m))" "\<And>f. f \<in> set (me_Fields e) \<Longrightarrow> ext_field_error e f = None"
    using Validate_ext[OF m(3,4)] by auto
  have own: "extends_module ms ?owner m0 (base\<lparr>lm_TypeDecls := ts, lm_ModelDecls := (lm_ModelDecls base)[idx := md2]\<rparr>)"
    if m0: "extends_module ms ?owner m0 base" for m0
  proof -
    obtain ds extra where b: "base = m0\<lparr>lm_ModelDecls := ds, lm_TypeDecls := lm_TypeDecls m0 @ extra\<rparr>"
      and all: "list_all2 (extends_model ms ?owner) (lm_ModelDecls m0) ds"
      using m0 by (auto simp: extends_module_def)
    let ?md = "lm_ModelDecls m0 ! idx"
    have len: "idx < length (lm_ModelDecls m0)" using i(1) all by (simp add: b list_all2_lengthD)
    have now: "extends_model ms ?owner ?md (ds ! idx)" using list_all2_nthD[OF all len] .
    have name': "me_Model e = QualifiedName ?md ?owner" using i(2) extends_model_name[OF now] by (simp add: b)
    have "extends_model ms ?owner ?md md1"
      by (rule fold_res_invariant[OF md1])
        (use now in \<open>simp add: b\<close>, rule extends_model_field[OF _ _ _ m(1,2) ext(1) m(4) name' ext(2)])
    then have "extends_model ms ?owner ?md md2"
      by (rule fold_res_invariant[OF md2]) (rule extends_model_index)
    from list_all2_update_cong[OF all this, of idx]
    have "list_all2 (extends_model ms ?owner) (lm_ModelDecls m0) (ds[idx := md2])" by simp
    moreover obtain extra' where "ts = (lm_TypeDecls m0 @ extra) @ extra'"
      using merge_types_append[OF ts] by (auto simp: b)
    ultimately show ?thesis
      unfolding extends_module_def b by (intro exI[of _ "ds[idx := md2]"] exI[of _ "extra @ extra'"]) simp
  qed
  show ?thesis
    unfolding conservative_def rs'
  proof (intro conjI allI impI)
    show "map fst (upd ?owner (\<lambda>b. b\<lparr>lm_TypeDecls := ts, lm_ModelDecls := (lm_ModelDecls b)[idx := md2]\<rparr>) rs) = map fst ms"
      using assms(1) by (simp add: conservative_def)
    fix n m0 assume "map_of ms n = Some m0"
    with assms(1) obtain m' where m': "map_of rs n = Some m'" "extends_module ms n m0 m'"
      by (auto simp: conservative_def)
    show "\<exists>m'. map_of (upd ?owner (\<lambda>b. b\<lparr>lm_TypeDecls := ts, lm_ModelDecls := (lm_ModelDecls b)[idx := md2]\<rparr>) rs) n = Some m' \<and>
        extends_module ms n m0 m'"
      using m' base own by (cases "n = ?owner") (auto simp: map_of_upd)
  qed
qed



end
