(* ===== verification/Reserved_Names.thy ===== *)
theory Reserved_Names
  imports Policies
begin

text \<open>
  The names module SQL may not reach: the engine-owned tables of a tenant schema
  (\<^verbatim>\<open>internal/engine/enginetables\<close>), the system catalog and the job queue, and the walk over a parsed
  statement that rejects them (\<^verbatim>\<open>internal/engine/dbscope\<close>). The SQL parser is a library: a statement is
  the tree of messages it returns, with the table references and the function calls told apart.
\<close>

section \<open>Engine-owned tables\<close>

record engine_table =
  et_Name :: string
  et_Partitioned :: bool

definition plain :: "string \<Rightarrow> engine_table" where
  "plain name = \<lparr>et_Name = name, et_Partitioned = False\<rparr>"

definition partitioned :: "string \<Rightarrow> engine_table" where
  "partitioned name = \<lparr>et_Name = name, et_Partitioned = True\<rparr>"

definition Groups :: "engine_table list list" where
  "Groups =
     [[plain ''roles'', plain ''role_permissions'', plain ''user_roles'', plain ''tenant_members''],
      [plain ''tenant_invitations''],
      [plain ''record_shares''],
      [plain ''saved_filters''],
      [plain ''view_overrides''],
      [plain ''record_activity'', plain ''record_followers''],
      [plain ''notifications''],
      [plain ''notification_deliveries''],
      [plain ''user_device_tokens''],
      [plain ''notification_preferences''],
      [plain ''notification_templates''],
      [plain ''activity_types''],
      [plain ''scheduled_activities''],
      [plain ''files''],
      [plain ''module_config''],
      [plain ''cron_job_settings''],
      [plain ''sequences''],
      [partitioned ''audit_log''],
      [partitioned ''event_log''],
      [partitioned ''event_deliveries'']]"

text \<open>The suffixes \<^verbatim>\<open>^(p?[0-9][0-9_]*|default)$\<close>.\<close>

definition digit_run :: "string \<Rightarrow> bool" where
  "digit_run s \<longleftrightarrow> (case s of [] \<Rightarrow> False | c # cs \<Rightarrow> isDigit c \<and> list_all (\<lambda>d. isDigit d \<or> d = CHR ''_'') cs)"

definition partitionSuffix :: "string \<Rightarrow> bool" where
  "partitionSuffix s \<longleftrightarrow> digit_run s \<or> (\<exists>cs. cut_prefix s ''p'' = Some cs \<and> digit_run cs) \<or> s = ''default''"

lemma partitionSuffix_code [code]:
  "partitionSuffix s \<longleftrightarrow> digit_run s \<or> (case cut_prefix s ''p'' of None \<Rightarrow> False | Some cs \<Rightarrow> digit_run cs) \<or> s = ''default''"
  by (auto simp: partitionSuffix_def split: option.splits)

definition owns_name :: "string \<Rightarrow> engine_table \<Rightarrow> bool" where
  "owns_name name t \<longleftrightarrow> name = et_Name t \<or>
     (case cut_prefix name (et_Name t @ ''_'') of
        None \<Rightarrow> False
      | Some rest \<Rightarrow> et_Partitioned t \<and> partitionSuffix rest)"

definition IsEngineOwned :: "string \<Rightarrow> bool" where
  "IsEngineOwned name \<longleftrightarrow> list_ex (list_ex (owns_name name)) Groups"

section \<open>Denied references\<close>

datatype scope_error =
    ErrQualifiedTableReference string string
  | ErrSystemCatalogReference string
  | ErrEngineOwnedTable string
  | ErrJobQueueTable string
  | ErrDeniedFunction "string list"

definition isSystemCatalogName :: "string \<Rightarrow> bool" where
  "isSystemCatalogName name \<longleftrightarrow> has_prefix name ''pg_''"

definition isJobQueueTableName :: "string \<Rightarrow> bool" where
  "isJobQueueTableName name \<longleftrightarrow> has_prefix name ''river_''"

definition IsReservedTableName :: "string \<Rightarrow> bool" where
  "IsReservedTableName name \<longleftrightarrow> isSystemCatalogName name \<or> IsEngineOwned name \<or> isJobQueueTableName name"

definition rangeVarDenial :: "string \<Rightarrow> string \<Rightarrow> scope_error option" where
  "rangeVarDenial schemaname relname =
     (if schemaname \<noteq> [] then Some (ErrQualifiedTableReference schemaname relname)
      else if isSystemCatalogName relname then Some (ErrSystemCatalogReference relname)
      else if IsEngineOwned relname then Some (ErrEngineOwnedTable relname)
      else if isJobQueueTableName relname then Some (ErrJobQueueTable relname)
      else None)"

definition deniedFunctions :: "string list" where
  "deniedFunctions =
     [''query_to_xml'', ''query_to_xmlschema'', ''query_to_xml_and_xmlschema'', ''cursor_to_xml'',
      ''cursor_to_xmlschema'', ''table_to_xml'', ''table_to_xmlschema'', ''table_to_xml_and_xmlschema'',
      ''schema_to_xml'', ''schema_to_xmlschema'', ''schema_to_xml_and_xmlschema'', ''database_to_xml'',
      ''database_to_xmlschema'', ''database_to_xml_and_xmlschema'', ''ts_stat'', ''ts_rewrite'', ''set_config'']"

definition funcCallDenial :: "string list \<Rightarrow> scope_error option" where
  "funcCallDenial parts =
     (if parts = [] then None
      else let name = last parts; qualified = length parts > 1 \<and> parts ! (length parts - 2) \<noteq> ''pg_catalog''
           in if qualified \<or> name \<in> set deniedFunctions then Some (ErrDeniedFunction parts) else None)"

text \<open>
  A value of the parse tree: a scalar or nil, a table reference by its schema and relation, a call by
  the parts of the function's name and the fields of the message, any other message, list or map by
  its members. The fields of a table reference are scalars and an alias.
\<close>

datatype pg_value =
    PScalar
  | PRangeVar string string
  | PFuncCall "string list" "pg_value list"
  | PMessage "pg_value list"

fun firstDenial :: "pg_value \<Rightarrow> scope_error option" where
  "firstDenial PScalar = None"
| "firstDenial (PRangeVar schemaname relname) = rangeVarDenial schemaname relname"
| "firstDenial (PFuncCall parts vs) =
     (case funcCallDenial parts of Some e \<Rightarrow> Some e | None \<Rightarrow> first_err firstDenial vs)"
| "firstDenial (PMessage vs) = first_err firstDenial vs"

datatype sql_error = ParseSQL | Denied scope_error

definition ValidateTableRefs :: "(string \<Rightarrow> pg_value option) \<Rightarrow> string \<Rightarrow> sql_error option" where
  "ValidateTableRefs parse sql =
     (case parse sql of None \<Rightarrow> Some ParseSQL | Some tree \<Rightarrow> map_option Denied (firstDenial tree))"

section \<open>What an accepted statement can reach\<close>

inductive part_of :: "pg_value \<Rightarrow> pg_value \<Rightarrow> bool" where
  part_self: "part_of v v"
| part_call: "part_of v u \<Longrightarrow> u \<in> set vs \<Longrightarrow> part_of v (PFuncCall parts vs)"
| part_message: "part_of v u \<Longrightarrow> u \<in> set vs \<Longrightarrow> part_of v (PMessage vs)"

inductive_cases part_of_scalar: "part_of v PScalar"
inductive_cases part_of_range: "part_of v (PRangeVar s r)"
inductive_cases part_of_call: "part_of v (PFuncCall parts vs)"
inductive_cases part_of_message: "part_of v (PMessage vs)"

definition in_scope :: "pg_value \<Rightarrow> bool" where
  "in_scope v \<longleftrightarrow>
     (case v of
        PRangeVar schemaname relname \<Rightarrow> schemaname = [] \<and> \<not> IsReservedTableName relname
      | PFuncCall parts _ \<Rightarrow>
          parts \<noteq> [] \<longrightarrow> last parts \<notin> set deniedFunctions \<and>
            (butlast parts \<noteq> [] \<longrightarrow> last (butlast parts) = ''pg_catalog'')
      | _ \<Rightarrow> True)"

lemma rangeVarDenial_None: "rangeVarDenial s r = None \<longleftrightarrow> in_scope (PRangeVar s r)"
  by (auto simp: rangeVarDenial_def in_scope_def IsReservedTableName_def)

lemma funcCallDenial_None: "funcCallDenial parts = None \<longleftrightarrow> in_scope (PFuncCall parts vs)"
proof (cases parts rule: rev_cases)
  case (snoc front name)
  then show ?thesis
    by (cases front rule: rev_cases) (auto simp: funcCallDenial_def in_scope_def Let_def nth_append butlast_append)
qed (simp add: funcCallDenial_def in_scope_def)

lemma firstDenial_None: "firstDenial t = None \<longleftrightarrow> (\<forall>v. part_of v t \<longrightarrow> in_scope v)"
proof (induction t rule: firstDenial.induct)
  case 1
  then show ?case by (auto simp: in_scope_def elim!: part_of_scalar)
next
  case (2 s r)
  then show ?case by (auto simp: rangeVarDenial_None elim!: part_of_range intro: part_self)
next
  case (3 parts vs)
  show ?case
  proof (cases "funcCallDenial parts")
    case None
    then show ?thesis
      using 3[OF None] funcCallDenial_None[of parts vs]
      by (auto elim!: part_of_call intro: part_call)
  next
    case (Some e)
    then show ?thesis
      using funcCallDenial_None[of parts vs] by (auto intro: part_self)
  qed
next
  case (4 vs)
  then show ?case by (auto simp: in_scope_def elim!: part_of_message intro: part_message)
qed

text \<open>
  (C11) Module SQL is accepted exactly when it parses and every table it references anywhere (in a
  subquery, a common table expression, the arguments of a call) is unqualified and not reserved,
  and every function it calls is not one of those that reach tables by name and is qualified by
  nothing but \<^verbatim>\<open>pg_catalog\<close>. A name is reserved for models exactly when SQL could not reference it.
\<close>

theorem ValidateTableRefs_exact:
  "(ValidateTableRefs parse sql = None \<longleftrightarrow> (\<exists>tree. parse sql = Some tree \<and> (\<forall>v. part_of v tree \<longrightarrow> in_scope v))) \<and>
   (IsReservedTableName name \<longleftrightarrow> rangeVarDenial [] name \<noteq> None)"
  by (auto simp: ValidateTableRefs_def firstDenial_None rangeVarDenial_None in_scope_def split: option.splits)

theorem ValidateTableRefs_exact_witness:
  "ValidateTableRefs (\<lambda>_. Some (PMessage [PRangeVar [] ''contacts'', PFuncCall [''lower''] [PRangeVar [] ''audit_log_p2026'']])) [] \<noteq> None \<and>
   in_scope (PRangeVar [] ''contacts'') \<and> IsReservedTableName ''audit_log_p2026''"
proof -
  let ?tree = "PMessage [PRangeVar [] ''contacts'', PFuncCall [''lower''] [PRangeVar [] ''audit_log_p2026'']]"
  have reserved: "IsReservedTableName ''audit_log_p2026''" "\<not> IsReservedTableName ''contacts''" by code_simp+
  have "part_of (PRangeVar [] ''audit_log_p2026'') ?tree"
    by (intro part_message[OF part_call[OF part_self]]) auto
  moreover have "\<not> in_scope (PRangeVar [] ''audit_log_p2026'')" by (simp add: in_scope_def reserved)
  ultimately have "ValidateTableRefs (\<lambda>_. Some ?tree) [] \<noteq> None"
    using ValidateTableRefs_exact[of "\<lambda>_. Some ?tree" "[]", THEN conjunct1] by blast
  then show ?thesis using reserved by (simp add: in_scope_def)
qed

end
