(* ===== verification/Model_Meta.thy ===== *)
theory Model_Meta
  imports Reserved_Names Orm_Fields
begin

text \<open>
  Metadata of relation-like fields (\<^verbatim>\<open>internal/engine/modelmeta\<close>): the key a relation expands under, the
  checks of join relations and file fields, and the fields a model composes from those it delegates to.
  The lookup of models is the association list of the models by qualified name.
\<close>

section \<open>Read keys\<close>

definition ReadKey :: "string \<Rightarrow> string \<Rightarrow> string" where
  "ReadKey name fk =
     (if fk \<in> {''many2one'', ''dynamic_link'', ''file''} then trim_suffix name ''_id''
      else if fk \<in> {''many2many'', ''file_multi''} then
        (case cut_suffix name ''_ids'' of Some stem \<Rightarrow> stem @ ''s'' | None \<Rightarrow> name)
      else [])"

definition read_key :: "named_field \<Rightarrow> string" where
  "read_key f = ReadKey (nf_Name f) (kind_name (fd_Kind (nf_Def f)))"

definition JoinDefinition :: "model_declaration \<Rightarrow> named_field \<Rightarrow> field_def" where
  "JoinDefinition md f =
     (let d = nf_Def f
      in if fd_Kind d = KindFileMulti
         then d\<lparr>fd_Column1 := ResourceName md @ ''_id'', fd_Column2 := ''file_id''\<rparr> else d)"

section \<open>Field checks\<close>

datatype meta_error =
    BadFieldName
  | InvalidIdentifier string
  | ReservedJoinTable string
  | SameJoinColumns
  | ReadKeyConflict string
  | ColumnModifiers
  | FileMultiDerives
  | UnsupportedModifiers
  | NeedsTable
  | NeedsUUIDKey
  | NeedsSingleKey
  | FileTarget
  | BadDelegate string
  | DelegationCycle string
  | BadDelegateTarget string
  | AmbiguousField string

text \<open>\<^verbatim>\<open>^[a-z_][a-z0-9_]{0,62}$\<close>\<close>

definition relationIdentifier :: "string \<Rightarrow> bool" where
  "relationIdentifier s \<longleftrightarrow>
     (case s of
        [] \<Rightarrow> False
      | c # cs \<Rightarrow> (lower_letter c \<or> c = CHR ''_'') \<and> list_all (\<lambda>d. lower_letter d \<or> isDigit d \<or> d = CHR ''_'') cs \<and>
          length cs \<le> 62)"

definition stem_of :: "string \<Rightarrow> string \<Rightarrow> bool" where
  "stem_of ending name \<longleftrightarrow> has_suffix name ending \<and> name \<noteq> ending"

definition conflicts :: "model_declaration \<Rightarrow> named_field \<Rightarrow> string \<Rightarrow> bool" where
  "conflicts md f key \<longleftrightarrow>
     list_ex (\<lambda>g. nf_Name g \<noteq> nf_Name f \<and> (nf_Name g = key \<or> read_key g = key)) (md_Fields md)"

fun count_keys :: "named_field list \<Rightarrow> nat \<Rightarrow> (meta_error, nat) result" where
  "count_keys [] n = Inr n"
| "count_keys (f # fs) n =
     (if fd_IsPrimaryKey (nf_Def f)
      then if fd_Kind (nf_Def f) \<noteq> KindUUID then Inl NeedsUUIDKey else count_keys fs (Suc n)
      else count_keys fs n)"

definition ValidateMany2ManyTarget :: "model_declaration \<Rightarrow> meta_error option" where
  "ValidateMany2ManyTarget md =
     (if md_Backend md \<noteq> [] then Some NeedsTable
      else case count_keys (md_Fields md) 0 of
             Inl e \<Rightarrow> Some e
           | Inr n \<Rightarrow> if n \<noteq> 1 then Some NeedsSingleKey else None)"

definition ValidateMany2Many :: "model_declaration \<Rightarrow> named_field \<Rightarrow> meta_error option" where
  "ValidateMany2Many md f =
     (let d = JoinDefinition md f; key = ReadKey (nf_Name f) (kind_name (fd_Kind d))
      in if \<not> stem_of ''_ids'' (nf_Name f) then Some BadFieldName
         else case List.find (\<lambda>n. \<not> relationIdentifier n) [nf_Name f, fd_JoinTable d, fd_Column1 d, fd_Column2 d] of
                Some n \<Rightarrow> Some (InvalidIdentifier n)
              | None \<Rightarrow>
                  if IsReservedTableName (fd_JoinTable d) then Some (ReservedJoinTable (fd_JoinTable d))
                  else if fd_Column1 d = fd_Column2 d then Some SameJoinColumns
                  else if conflicts md f key then Some (ReadKeyConflict key)
                  else if fd_IsPrimaryKey d \<or> fd_IsPrimary d \<or> fd_IsComputed d \<or> fd_DefaultExpr d \<noteq> None \<or>
                          fd_IsTree d \<or> fd_IsTracked d then Some ColumnModifiers
                  else if fd_Kind d = KindFileMulti \<and>
                          (fd_RelatedModel d \<noteq> [] \<or> fd_Column1 (nf_Def f) \<noteq> [] \<or> fd_Column2 (nf_Def f) \<noteq> [])
                  then Some FileMultiDerives
                  else if (fd_IsRequired d \<and> fd_Kind d \<noteq> KindFileMulti) \<or> fd_RelationDomain d \<noteq> [] \<or>
                          fd_RelationOnDelete d \<noteq> Restrict then Some UnsupportedModifiers
                  else ValidateMany2ManyTarget md)"

definition ValidateFile :: "model_declaration \<Rightarrow> named_field \<Rightarrow> meta_error option" where
  "ValidateFile md f =
     (let d = nf_Def f
      in if md_Backend md \<noteq> [] then Some NeedsTable
         else if \<not> stem_of ''_id'' (nf_Name f) then Some BadFieldName
         else if fd_RelatedModel d \<noteq> [] \<or> fd_RelationDomain d \<noteq> [] \<or> fd_IsTree d \<or> fd_RelationOnDelete d \<noteq> Restrict
         then Some FileTarget
         else if conflicts md f (read_key f) then Some (ReadKeyConflict (read_key f)) else None)"

definition ValidateDynamicLink :: "model_declaration \<Rightarrow> named_field \<Rightarrow> meta_error option" where
  "ValidateDynamicLink md f =
     (if \<not> stem_of ''_id'' (nf_Name f) then Some BadFieldName
      else if conflicts md f (read_key f) then Some (ReadKeyConflict (read_key f)) else None)"

section \<open>Composed fields\<close>

type_synonym models = "(string \<times> model_declaration) list"

definition delegate_problem :: "model_declaration \<Rightarrow> named_field \<Rightarrow> bool" where
  "delegate_problem md f \<longleftrightarrow>
     (let d = nf_Def f
      in md_Backend md \<noteq> [] \<or> \<not> has_suffix (nf_Name f) ''_id'' \<or> nf_Name f = ''_id'' \<or> fd_IsTree d \<or>
         fd_IsComputed d \<or> fd_IsPrimaryKey d \<or> fd_RelationDomain d \<noteq> [])"

definition delegate_target_ok :: "model_declaration \<Rightarrow> bool" where
  "delegate_target_ok md \<longleftrightarrow> md_Backend md = [] \<and>
     list_ex (\<lambda>f. fd_IsPrimaryKey (nf_Def f) \<and> fd_Kind (nf_Def f) = KindUUID) (md_Fields md)"

definition inherited_field :: "string \<Rightarrow> named_field \<Rightarrow> named_field" where
  "inherited_field target f =
     f\<lparr>nf_DeclaringModule := (if nf_DeclaringModule f = [] then fst (cut (CHR ''.'') target) else nf_DeclaringModule f),
       nf_Def := (nf_Def f)\<lparr>fd_IsRequired := False, fd_IsPrimaryKey := False\<rparr>\<rparr>"

definition inherit :: "model_declaration \<Rightarrow> string \<Rightarrow> named_field \<Rightarrow> named_field list \<Rightarrow>
    (meta_error, named_field list) result" where
  "inherit md target f got =
     (if nf_Name f \<in> nf_Name ` set (md_Fields md) then Inr got
      else if nf_Name f \<in> nf_Name ` set got then Inl (AmbiguousField (nf_Name f))
      else Inr (got @ [inherited_field target f]))"

definition claim_key :: "named_field \<Rightarrow> (string \<times> string) list \<Rightarrow> (meta_error, (string \<times> string) list) result" where
  "claim_key f keys =
     (let key = read_key f
      in if key = [] \<or> key = nf_Name f then Inr keys
         else if map_of keys key \<noteq> None then Inl (ReadKeyConflict key)
         else Inr ((key, nf_Name f) # keys))"

definition check_keys :: "named_field list \<Rightarrow> meta_error option" where
  "check_keys fs =
     (case fold_res claim_key fs (rev (map (\<lambda>f. (nf_Name f, nf_Name f)) fs)) of Inl e \<Rightarrow> Some e | Inr _ \<Rightarrow> None)"

text \<open>
  \<^verbatim>\<open>composedFields\<close> follows a delegate field into its target unless the target is on the path from the
  start, which it marks while it is there. The fields got so far are those inherited by this model.
\<close>

function (sequential) composedFields :: "models \<Rightarrow> string list \<Rightarrow> model_declaration \<Rightarrow> (meta_error, named_field list) result"
and composeDelegates :: "models \<Rightarrow> string list \<Rightarrow> model_declaration \<Rightarrow> named_field list \<Rightarrow> named_field list \<Rightarrow>
    (meta_error, named_field list) result" where
  "composedFields models path md =
     (case composeDelegates models path md (md_Fields md) [] of
        Inl e \<Rightarrow> Inl e
      | Inr got \<Rightarrow>
          (let fs = md_Fields md @ got
           in if got = [] then Inr fs else case check_keys fs of Some e \<Rightarrow> Inl e | None \<Rightarrow> Inr fs))"
| "composeDelegates models path md [] got = Inr got"
| "composeDelegates models path md (f # fs) got =
     (let target = fd_RelatedModel (nf_Def f)
      in if fd_Kind (nf_Def f) \<noteq> KindDelegate then composeDelegates models path md fs got
         else if delegate_problem md f then Inl (BadDelegate (nf_Name f))
         else if target \<in> set path then Inl (DelegationCycle target)
         else case map_of models target of
                None \<Rightarrow> composeDelegates models path md fs got
              | Some md' \<Rightarrow>
                  if \<not> delegate_target_ok md' then Inl (BadDelegateTarget target)
                  else (case composedFields models (target # path) md' of
                          Inl e \<Rightarrow> Inl e
                        | Inr remote \<Rightarrow>
                            (case fold_res (inherit md target) remote got of
                               Inl e \<Rightarrow> Inl e
                             | Inr got' \<Rightarrow> composeDelegates models path md fs got')))"
  by pat_completeness auto

termination
proof (relation "measures
    [\<lambda>x. case x of Inl (models, path, md) \<Rightarrow> card (fst ` set models - set path)
                | Inr (models, path, md, fs, got) \<Rightarrow> card (fst ` set models - set path),
     \<lambda>x. case x of Inl (models, path, md) \<Rightarrow> Suc (length (md_Fields md))
                | Inr (models, path, md, fs, got) \<Rightarrow> length fs]", goal_cases)
  case (5 models path md f fs got target md')
  then have "target \<in> fst ` set models - set path" by (force dest: map_of_SomeD)
  then have "card (fst ` set models - set (target # path)) < card (fst ` set models - set path)"
    by (intro psubset_card_mono) auto
  then show ?case by simp
qed auto

definition ComposedFields :: "models \<Rightarrow> model_declaration \<Rightarrow> (meta_error, named_field list) result" where
  "ComposedFields models md = composedFields models [] md"

section \<open>What a model composes\<close>

definition delegate_targets :: "named_field list \<Rightarrow> string set" where
  "delegate_targets fs = {fd_RelatedModel (nf_Def f) | f. f \<in> set fs \<and> fd_Kind (nf_Def f) = KindDelegate}"

definition delegation :: "models \<Rightarrow> (string \<times> string) set" where
  "delegation models =
     {(t, u). \<exists>md. map_of models t = Some md \<and> u \<in> delegate_targets (md_Fields md) \<inter> fst ` set models}"

definition delegated :: "models \<Rightarrow> named_field list \<Rightarrow> string set" where
  "delegated models fs = (delegation models)\<^sup>* `` (delegate_targets fs \<inter> fst ` set models)"

abbreviation field_names :: "named_field list \<Rightarrow> string set" where
  "field_names fs \<equiv> nf_Name ` set fs"

definition comes_from :: "models \<Rightarrow> string \<Rightarrow> named_field \<Rightarrow> bool" where
  "comes_from models t f \<longleftrightarrow>
     (\<exists>md g. map_of models t = Some md \<and> g \<in> set (md_Fields md) \<and> nf_Name f = nf_Name g \<and>
        nf_Def f = (nf_Def g)\<lparr>fd_IsRequired := False, fd_IsPrimaryKey := False\<rparr>)"

definition fresh_for :: "model_declaration \<Rightarrow> named_field list \<Rightarrow> bool" where
  "fresh_for md got \<longleftrightarrow> distinct (map nf_Name got) \<and> field_names got \<inter> field_names (md_Fields md) = {}"

lemma inherited_name [simp]: "nf_Name (inherited_field t f) = nf_Name f"
  by (simp add: inherited_field_def)

lemma inherit_all:
  assumes "fold_res (inherit md t) remote got = Inr got'" "fresh_for md got"
  shows "fresh_for md got' \<and> set got \<subseteq> set got' \<and> set got' \<subseteq> set got \<union> inherited_field t ` set remote \<and>
    field_names got' \<union> field_names (md_Fields md) = field_names got \<union> field_names remote \<union> field_names (md_Fields md)"
  using assms
proof (induction remote arbitrary: got)
  case (Cons f fs)
  then obtain got1 where step: "inherit md t f got = Inr got1" and rest: "fold_res (inherit md t) fs got1 = Inr got'"
    by (auto split: sum.splits)
  show ?case
  proof (cases "nf_Name f \<in> field_names (md_Fields md)")
    case True
    with step have "got1 = got" by (simp add: inherit_def)
    with Cons.IH[OF rest] Cons.prems(2) True show ?thesis by auto
  next
    case False
    with step have new: "nf_Name f \<notin> field_names got" "got1 = got @ [inherited_field t f]"
      by (auto simp: inherit_def split: if_splits)
    with Cons.prems(2) False have "fresh_for md got1" by (auto simp: fresh_for_def)
    from Cons.IH[OF rest this] show ?thesis by (auto simp: new(2))
  qed
qed auto

lemma UN_upd:
  "t \<in> D \<Longrightarrow> t \<in> T \<longrightarrow> c t = r \<Longrightarrow>
    (\<Union>u \<in> insert t T \<inter> D. g u ((c(t := r)) u)) = g t r \<union> (\<Union>u \<in> T \<inter> D. g u (c u))"
  by (cases "t \<in> T") (auto simp: insert_absorb split: if_splits)

lemma add_subset: "A \<subseteq> B \<union> U \<Longrightarrow> B \<subseteq> C \<union> D \<Longrightarrow> A \<subseteq> C \<union> (D \<union> U)"
  by blast

lemma add_names: "A \<union> M = B \<union> M \<union> U \<Longrightarrow> B \<union> M = C \<union> D \<union> M \<Longrightarrow> A \<union> M = C \<union> M \<union> (D \<union> U)"
  by blast

lemma composedFields_got:
  assumes "composedFields models path md = Inr fs"
  shows "\<exists>got. composeDelegates models path md (md_Fields md) [] = Inr got \<and> fs = md_Fields md @ got"
  using assms by (auto simp: Let_def split: sum.splits if_splits option.splits)

text \<open>The delegates of a model one by one: none is on the path and each one loaded composes.\<close>

lemma composeDelegates_ok:
  assumes "composeDelegates models path md fs got = Inr got'" "fresh_for md got"
  shows "fresh_for md got' \<and> delegate_targets fs \<inter> set path = {} \<and> set got \<subseteq> set got' \<and>
    (\<exists>composed.
       (\<forall>t \<in> delegate_targets fs \<inter> fst ` set models. \<exists>md'. map_of models t = Some md' \<and>
          composedFields models (t # path) md' = Inr (composed t)) \<and>
       set got' \<subseteq> set got \<union> (\<Union>t \<in> delegate_targets fs \<inter> fst ` set models. inherited_field t ` set (composed t)) \<and>
       field_names got' \<union> field_names (md_Fields md) =
         field_names got \<union> field_names (md_Fields md) \<union>
         (\<Union>t \<in> delegate_targets fs \<inter> fst ` set models. field_names (composed t)))"
  using assms
proof (induction fs arbitrary: got)
  case Nil
  then show ?case by (auto simp: delegate_targets_def)
next
  case (Cons f fs)
  let ?t = "fd_RelatedModel (nf_Def f)"
  show ?case
  proof (cases "fd_Kind (nf_Def f) = KindDelegate")
    case False
    then have "delegate_targets (f # fs) = delegate_targets fs" by (auto simp: delegate_targets_def)
    with False Cons show ?thesis by simp
  next
    case True
    then have targets: "delegate_targets (f # fs) = insert ?t (delegate_targets fs)"
      by (auto simp: delegate_targets_def)
    from Cons.prems(1) True have path: "?t \<notin> set path"
      by (auto simp: Let_def split: if_splits)
    show ?thesis
    proof (cases "map_of models ?t")
      case None
      then have "?t \<notin> fst ` set models" by (simp add: map_of_eq_None_iff)
      moreover have "composeDelegates models path md fs got = Inr got'"
        using Cons.prems(1) True None by (auto simp: Let_def split: if_splits)
      ultimately show ?thesis using Cons.IH[OF _ Cons.prems(2)] path unfolding targets by auto
    next
      case (Some md')
      then have dom: "?t \<in> fst ` set models" by (force dest: map_of_SomeD)
      obtain remote got1 where remote: "composedFields models (?t # path) md' = Inr remote"
        and got1: "fold_res (inherit md ?t) remote got = Inr got1"
        and rest: "composeDelegates models path md fs got1 = Inr got'"
        using Cons.prems(1) True Some
        by (auto simp: Let_def simp del: composedFields.simps split: if_splits sum.splits)
      note inh = inherit_all[OF got1 Cons.prems(2)]
      from Cons.IH[OF rest] inh obtain composed where IH:
        "fresh_for md got'" "delegate_targets fs \<inter> set path = {}" "set got1 \<subseteq> set got'"
        "\<forall>t \<in> delegate_targets fs \<inter> fst ` set models. \<exists>md'. map_of models t = Some md' \<and>
          composedFields models (t # path) md' = Inr (composed t)"
        "set got' \<subseteq> set got1 \<union> (\<Union>t \<in> delegate_targets fs \<inter> fst ` set models. inherited_field t ` set (composed t))"
        "field_names got' \<union> field_names (md_Fields md) = field_names got1 \<union> field_names (md_Fields md) \<union>
          (\<Union>t \<in> delegate_targets fs \<inter> fst ` set models. field_names (composed t))"
        by (auto simp del: composedFields.simps)
      let ?c = "composed(?t := remote)"
      have same: "?t \<in> delegate_targets fs \<longrightarrow> composed ?t = remote"
        using IH(4)[rule_format, of ?t, OF IntI[OF _ dom]] Some remote by (auto simp del: composedFields.simps)
      have each: "\<forall>t \<in> delegate_targets (f # fs) \<inter> fst ` set models. \<exists>md'. map_of models t = Some md' \<and>
          composedFields models (t # path) md' = Inr (?c t)"
      proof
        fix t assume t: "t \<in> delegate_targets (f # fs) \<inter> fst ` set models"
        show "\<exists>md'. map_of models t = Some md' \<and> composedFields models (t # path) md' = Inr (?c t)"
        proof (cases "t = ?t")
          case True
          with Some remote show ?thesis by (simp del: composedFields.simps)
        next
          case False
          with t have "t \<in> delegate_targets fs \<inter> fst ` set models" by (simp add: targets)
          with IH(4) False show ?thesis by (simp del: composedFields.simps)
        qed
      qed
      have sub: "set got' \<subseteq> set got \<union> (\<Union>t \<in> delegate_targets (f # fs) \<inter> fst ` set models. inherited_field t ` set (?c t))"
        unfolding targets UN_upd[where g = "\<lambda>t xs. inherited_field t ` set xs" and c = composed, OF dom same]
        by (rule add_subset[OF IH(5)]) (use inh in simp)
      have names: "field_names got' \<union> field_names (md_Fields md) = field_names got \<union> field_names (md_Fields md) \<union>
          (\<Union>t \<in> delegate_targets (f # fs) \<inter> fst ` set models. field_names (?c t))"
        unfolding targets UN_upd[where g = "\<lambda>t xs. field_names xs" and c = composed, OF dom same]
        by (rule add_names[OF IH(6)]) (use inh in simp)
      have "delegate_targets (f # fs) \<inter> set path = {}" "set got \<subseteq> set got'"
        using IH(2,3) inh path by (auto simp: targets)
      with IH(1) each sub names show ?thesis by blast
    qed
  qed
qed

definition names_of :: "models \<Rightarrow> string \<Rightarrow> string set" where
  "names_of models t = (case map_of models t of None \<Rightarrow> {} | Some md \<Rightarrow> field_names (md_Fields md))"

lemma reach_unfold:
  assumes "map_of models t = Some md"
  shows "(delegation models)\<^sup>* `` {t} = insert t (delegated models (md_Fields md))"
proof -
  have edge: "(t, u) \<in> delegation models \<longleftrightarrow> u \<in> delegate_targets (md_Fields md) \<inter> fst ` set models" for u
    using assms by (auto simp: delegation_def)
  have "x \<in> insert t (delegated models (md_Fields md))" if "(t, x) \<in> (delegation models)\<^sup>*" for x
    using that
  proof (cases rule: converse_rtranclE)
    case (step u)
    then show ?thesis using edge[of u] unfolding delegated_def by blast
  qed simp
  moreover have "(t, x) \<in> (delegation models)\<^sup>*" if x: "x \<in> delegated models (md_Fields md)" for x
  proof -
    obtain u where "u \<in> delegate_targets (md_Fields md) \<inter> fst ` set models" "(u, x) \<in> (delegation models)\<^sup>*"
      using x unfolding delegated_def by blast
    then show ?thesis using edge[of u] by (meson converse_rtrancl_into_rtrancl)
  qed
  ultimately show ?thesis by auto
qed

lemma delegated_UN: "delegated models fs = (\<Union>t \<in> delegate_targets fs \<inter> fst ` set models. (delegation models)\<^sup>* `` {t})"
  by (auto simp: delegated_def)

lemma trancl_reach: "map_of models t = Some md \<Longrightarrow> (t, t) \<in> (delegation models)\<^sup>+ \<Longrightarrow> t \<in> delegated models (md_Fields md)"
  by (auto simp: delegated_def delegation_def dest!: tranclD)

lemma comes_from_inherited:
  assumes "map_of models t = Some md" "f \<in> set (md_Fields md) \<or> (\<exists>u \<in> delegated models (md_Fields md). comes_from models u f)"
  shows "\<exists>u \<in> (delegation models)\<^sup>* `` {t}. comes_from models u (inherited_field t f)"
  using assms(2)
proof
  assume "f \<in> set (md_Fields md)"
  with assms(1) have "comes_from models t (inherited_field t f)"
    by (auto simp: comes_from_def inherited_field_def)
  then show ?thesis by auto
next
  assume "\<exists>u \<in> delegated models (md_Fields md). comes_from models u f"
  then obtain u where u: "u \<in> delegated models (md_Fields md)" "comes_from models u f" by blast
  from u(2) have "comes_from models u (inherited_field t f)"
    by (auto simp: comes_from_def inherited_field_def)
  with u(1) show ?thesis by (auto simp: reach_unfold[OF assms(1)])
qed

lemma composed_ok:
  assumes "composedFields models path md = Inr fs"
  shows "(\<exists>got. fs = md_Fields md @ got \<and> fresh_for md got \<and>
       (\<forall>f \<in> set got. \<exists>t \<in> delegated models (md_Fields md). comes_from models t f)) \<and>
     field_names fs = field_names (md_Fields md) \<union> (\<Union>t \<in> delegated models (md_Fields md). names_of models t) \<and>
     (\<forall>t \<in> delegated models (md_Fields md). t \<notin> set path \<and> (t, t) \<notin> (delegation models)\<^sup>+)"
  using assms
proof (induction "card (fst ` set models - set path)" arbitrary: path md fs rule: less_induct)
  case less
  let ?T = "delegate_targets (md_Fields md) \<inter> fst ` set models"
  obtain got where got: "composeDelegates models path md (md_Fields md) [] = Inr got" and fs: "fs = md_Fields md @ got"
    using composedFields_got[OF less.prems] by blast
  have "fresh_for md []" by (simp add: fresh_for_def)
  note ok = composeDelegates_ok[OF got this]
  have fresh: "fresh_for md got" using ok by (elim conjE)
  have path: "delegate_targets (md_Fields md) \<inter> set path = {}" using ok by (elim conjE)
  from ok obtain composed where
    each: "\<forall>t \<in> ?T. \<exists>md'. map_of models t = Some md' \<and> composedFields models (t # path) md' = Inr (composed t)"
    and "set got \<subseteq> set [] \<union> (\<Union>t \<in> ?T. inherited_field t ` set (composed t))"
    and "field_names got \<union> field_names (md_Fields md) =
      field_names [] \<union> field_names (md_Fields md) \<union> (\<Union>t \<in> ?T. field_names (composed t))"
    by (elim conjE exE)
  then have sub: "set got \<subseteq> (\<Union>t \<in> ?T. inherited_field t ` set (composed t))"
    and names: "field_names got \<union> field_names (md_Fields md) =
      field_names (md_Fields md) \<union> (\<Union>t \<in> ?T. field_names (composed t))"
    by (simp_all del: composedFields.simps)
  have one: "(\<forall>f \<in> set (composed t). \<exists>u \<in> (delegation models)\<^sup>* `` {t}. comes_from models u (inherited_field t f)) \<and>
      field_names (composed t) = (\<Union>u \<in> (delegation models)\<^sup>* `` {t}. names_of models u) \<and>
      (\<forall>u \<in> (delegation models)\<^sup>* `` {t}. u \<notin> set path \<and> (u, u) \<notin> (delegation models)\<^sup>+)"
    if t: "t \<in> ?T" for t
  proof -
    from each t obtain md' where md': "map_of models t = Some md'" "composedFields models (t # path) md' = Inr (composed t)"
      by blast
    have fresh_t: "t \<notin> set path" using path t by auto
    then have "card (fst ` set models - set (t # path)) < card (fst ` set models - set path)"
      using t by (intro psubset_card_mono) auto
    note IH = less.hyps[OF this md'(2)]
    have "(t, t) \<notin> (delegation models)\<^sup>+" using IH trancl_reach[OF md'(1)] by auto
    moreover have "names_of models t = field_names (md_Fields md')" by (simp add: names_of_def md'(1))
    moreover have "\<exists>u \<in> (delegation models)\<^sup>* `` {t}. comes_from models u (inherited_field t f)" if "f \<in> set (composed t)" for f
      using IH that by (intro comes_from_inherited[OF md'(1)]) auto
    ultimately show ?thesis using IH fresh_t unfolding reach_unfold[OF md'(1)] by simp
  qed
  have "\<exists>t \<in> delegated models (md_Fields md). comes_from models t f" if "f \<in> set got" for f
  proof -
    from that sub obtain t g where "t \<in> ?T" "g \<in> set (composed t)" "f = inherited_field t g" by blast
    with one[of t] show ?thesis unfolding delegated_UN by blast
  qed
  moreover have "field_names fs = field_names (md_Fields md) \<union> (\<Union>t \<in> delegated models (md_Fields md). names_of models t)"
  proof -
    have "(\<Union>t \<in> ?T. field_names (composed t)) = (\<Union>t \<in> delegated models (md_Fields md). names_of models t)"
      unfolding delegated_UN UN_UN_flatten using one by (intro SUP_cong) auto
    with names show ?thesis by (auto simp: fs)
  qed
  moreover have "\<forall>t \<in> delegated models (md_Fields md). t \<notin> set path \<and> (t, t) \<notin> (delegation models)\<^sup>+"
    unfolding delegated_UN using one by blast
  ultimately show ?case using fs fresh by blast
qed

text \<open>
  (C15) The composed fields of a model, when there are any to compose, are its own fields as declared
  followed by fields that come from the models it delegates to directly or through others: each has
  the definition it has there, access permissions included, but is neither required nor a key; no
  two of them share a name or take one of the model's own, and every field name of those models is
  covered. A model that composes reaches no cycle of delegation.
\<close>

theorem ComposedFields_exact:
  assumes "ComposedFields models md = Inr fs"
  shows "(\<exists>got. fs = md_Fields md @ got \<and> distinct (map nf_Name got) \<and>
       field_names got \<inter> field_names (md_Fields md) = {} \<and>
       (\<forall>f \<in> set got. \<exists>t \<in> delegated models (md_Fields md). comes_from models t f)) \<and>
     field_names fs = field_names (md_Fields md) \<union> (\<Union>t \<in> delegated models (md_Fields md). names_of models t) \<and>
     (\<forall>t \<in> delegated models (md_Fields md). (t, t) \<notin> (delegation models)\<^sup>+)"
proof -
  note ok = composed_ok[OF assms[unfolded ComposedFields_def], unfolded fresh_for_def conj_assoc]
  have "\<forall>t \<in> delegated models (md_Fields md). (t, t) \<notin> (delegation models)\<^sup>+"
    using ok[THEN conjunct2, THEN conjunct2] by simp
  then show ?thesis
    by (intro conjI) (rule ok[THEN conjunct1], rule ok[THEN conjunct2, THEN conjunct1], assumption)
qed

definition sample_contact :: model_declaration where
  "sample_contact = Field ''phone'' (of_kind KindText) (Field ''name'' (of_kind KindText) (Field ''id'' (PrimaryKey (of_kind KindUUID)) (Define ''contacts.contact'')))"

definition sample_employee :: model_declaration where
  "sample_employee = Field ''name'' (of_kind KindText) (Field ''contact_id'' (Delegate_field ''contacts.contact'') (Define ''hr.employee''))"

theorem ComposedFields_exact_witness:
  "\<exists>fs. ComposedFields [(''contacts.contact'', sample_contact)] sample_employee = Inr fs \<and>
     map nf_Name fs = [''contact_id'', ''name'', ''id'', ''phone''] \<and>
     field_names fs = field_names (md_Fields sample_employee) \<union>
       (\<Union>t \<in> delegated [(''contacts.contact'', sample_contact)] (md_Fields sample_employee).
          names_of [(''contacts.contact'', sample_contact)] t)"
proof -
  have "case ComposedFields [(''contacts.contact'', sample_contact)] sample_employee of
      Inl _ \<Rightarrow> False | Inr fs \<Rightarrow> map nf_Name fs = [''contact_id'', ''name'', ''id'', ''phone'']"
    by code_simp
  then obtain fs where fs: "ComposedFields [(''contacts.contact'', sample_contact)] sample_employee = Inr fs"
    "map nf_Name fs = [''contact_id'', ''name'', ''id'', ''phone'']"
    by (auto split: sum.splits)
  show ?thesis
    by (intro exI[of _ fs] conjI) (rule fs, rule fs, rule ComposedFields_exact[OF fs(1), THEN conjunct2, THEN conjunct1])
qed

end
