(* ===== verification/Loader_Checks.thy ===== *)
theory Loader_Checks
  imports Model_Meta Module_Model Orm_Sequence Domain_Eval_Props
begin

text \<open>
  The checks of the declarations of one module when it is loaded (\<^verbatim>\<open>internal/engine/loader/loader.go\<close>). The
  declarations themselves come from the module's WebAssembly instance and are arguments here, as is
  the table of virtual backends it reports.
\<close>

section \<open>Routes and storage backends\<close>

datatype decl_error =
    SSERoute string string
  | PollRoute string string
  | TypeWithoutRoutes string nat
  | VirtualOutsideConnector
  | VirtualBackends
  | VirtualListCondition string
  | VirtualCreate string
  | TransientTTL string
  | TransientList string
  | LifecycleBackend string string
  | LifecyclePayload string string string
  | TrackedRelation string string
  | TrackedComputed string string
  | TrackedBackend string
  | TrackedKey string
  | ReservedTable string string
  | WorkflowKind string string
  | WorkflowName string string
  | WorkflowSlash string string string
  | WorkflowFrom string string string
  | WorkflowTo string string string
  | WorkflowTwice string string string string
  | WorkflowEventBackend string string
  | WorkflowEventPayload string string string
  | WorkflowConditionParse string string string parse_error
  | WorkflowCondition string string string validate_error
  | SequenceFormat string string sequence_error

definition route_problem :: "route_declaration \<Rightarrow> decl_error option" where
  "route_problem rt =
     (if rd_Streaming rt \<and> \<not> rd_Websocket rt
      then if rd_Method rt \<noteq> ''GET'' \<or> rd_PollIntervalMs rt < 500 \<or> rd_PollIntervalMs rt > 60000
           then Some (SSERoute (rd_Method rt) (rd_Path rt)) else None
      else if rd_PollIntervalMs rt \<noteq> 0 then Some (PollRoute (rd_Method rt) (rd_Path rt)) else None)"

definition routeless_types :: "string list" where
  "routeless_types = [''l10n'', ''bridge'', ''theme'', ''report_bundle'', ''automation'', ''field_extension'']"

definition validateModuleRoutes :: "manifest \<Rightarrow> route_declaration list \<Rightarrow> decl_error option" where
  "validateModuleRoutes mf routes =
     (case first_err route_problem routes of
        Some e \<Rightarrow> Some e
      | None \<Rightarrow>
          if mf_Type mf \<in> set routeless_types \<and> routes \<noteq> []
          then Some (TypeWithoutRoutes (mf_Type mf) (length routes)) else None)"

definition virtual_op_problem :: "(string \<Rightarrow> string list) \<Rightarrow> model_declaration \<Rightarrow> op \<Rightarrow> decl_error option" where
  "virtual_op_problem backends md oper =
     (if op_Name oper = ''list'' \<and> op_Condition oper \<noteq> [] then Some (VirtualListCondition (md_Name md))
      else if op_Name oper = ''create'' \<and> ''create'' \<notin> set (backends (md_Name md)) then Some (VirtualCreate (md_Name md))
      else None)"

definition validateVirtualModels :: "(string \<Rightarrow> string list) option \<Rightarrow> manifest \<Rightarrow> model_declaration list \<Rightarrow> decl_error option" where
  "validateVirtualModels virtual_backends mf models =
     (if \<not> list_ex (\<lambda>md. md_Backend md = BackendVirtual) models then None
      else if mf_Type mf \<noteq> ''connector'' then Some VirtualOutsideConnector
      else case virtual_backends of
             None \<Rightarrow> Some VirtualBackends
           | Some backends \<Rightarrow>
               first_err (\<lambda>md. if md_Backend md \<noteq> BackendVirtual then None
                               else first_err (virtual_op_problem backends md) (md_EnabledOps md)) models)"

definition transient_problem :: "model_declaration \<Rightarrow> decl_error option" where
  "transient_problem md =
     (if md_Backend md \<noteq> BackendTransient then None
      else if md_TransientTTLSeconds md \<le> 0 then Some (TransientTTL (md_Name md))
      else if list_ex (\<lambda>oper. op_Name oper = ''list'') (md_EnabledOps md) then Some (TransientList (md_Name md))
      else None)"

definition validateTransientModels :: "model_declaration list \<Rightarrow> decl_error option" where
  "validateTransientModels models = first_err transient_problem models"

section \<open>Events, tracking, names\<close>

definition payload_ok :: "model_declaration \<Rightarrow> lifecycle_event \<Rightarrow> bool" where
  "payload_ok md ev \<longleftrightarrow> list_all (\<lambda>lf. hasField md (lf_Record lf)) (le_Fields ev)"

definition lifecycle_problem :: "model_declaration \<Rightarrow> string \<times> lifecycle_event option \<Rightarrow> decl_error option" where
  "lifecycle_problem md decl =
     (case snd decl of
        None \<Rightarrow> None
      | Some ev \<Rightarrow>
          if md_Backend md \<noteq> [] then Some (LifecycleBackend (md_Name md) (fst decl))
          else if \<not> payload_ok md ev then Some (LifecyclePayload (md_Name md) (fst decl) (le_Name ev)) else None)"

definition validateLifecycleEvents :: "model_declaration list \<Rightarrow> decl_error option" where
  "validateLifecycleEvents models =
     first_err (\<lambda>md. first_err (lifecycle_problem md)
       [(''OnCreate'', md_OnCreateEvent md), (''OnUpdate'', md_OnUpdateEvent md), (''OnDelete'', md_OnDeleteEvent md)]) models"

definition tracked_field_problem :: "model_declaration \<Rightarrow> named_field \<Rightarrow> decl_error option" where
  "tracked_field_problem md f =
     (if \<not> fd_IsTracked (nf_Def f) then None
      else if fd_Kind (nf_Def f) = KindOne2Many \<or> IsJoinRelation (fd_Kind (nf_Def f))
      then Some (TrackedRelation (md_Name md) (nf_Name f))
      else if fd_IsComputed (nf_Def f) \<and> \<not> fd_IsStored (nf_Def f)
      then Some (TrackedComputed (md_Name md) (nf_Name f)) else None)"

definition single_uuid_key :: "model_declaration \<Rightarrow> bool" where
  "single_uuid_key md \<longleftrightarrow>
     (case filter (\<lambda>f. fd_IsPrimaryKey (nf_Def f)) (md_Fields md) of
        [f] \<Rightarrow> fd_Kind (nf_Def f) = KindUUID
      | _ \<Rightarrow> False)"

definition tracked_problem :: "model_declaration \<Rightarrow> decl_error option" where
  "tracked_problem md =
     (case first_err (tracked_field_problem md) (md_Fields md) of
        Some e \<Rightarrow> Some e
      | None \<Rightarrow>
          if \<not> list_ex (\<lambda>f. fd_IsTracked (nf_Def f)) (md_Fields md) then None
          else if md_Backend md \<noteq> [] then Some (TrackedBackend (md_Name md))
          else if \<not> single_uuid_key md then Some (TrackedKey (md_Name md)) else None)"

definition validateTrackedFields :: "model_declaration list \<Rightarrow> decl_error option" where
  "validateTrackedFields models = first_err tracked_problem models"

definition validateReservedTableNames :: "model_declaration list \<Rightarrow> decl_error option" where
  "validateReservedTableNames models =
     first_err (\<lambda>md. if md_Backend md \<noteq> [] then None
                     else if IsReservedTableName (TableName md) then Some (ReservedTable (md_Name md) (TableName md))
                     else None) models"

definition validateSequenceFormats :: "model_declaration list \<Rightarrow> decl_error option" where
  "validateSequenceFormats models =
     first_err (\<lambda>md. first_err (\<lambda>f. if fd_Kind (nf_Def f) \<noteq> KindSequence then None
         else map_option (SequenceFormat (md_Name md) (nf_Name f)) (ValidateSequenceFormat (fd_SequenceFormat (nf_Def f))))
       (md_Fields md)) models"

section \<open>Workflow transitions\<close>

text \<open>The claimed action names map an action to the field that declares it.\<close>

definition check_transition :: "model_declaration \<Rightarrow> named_field \<Rightarrow> workflow_transition \<Rightarrow> (string \<times> string) list \<Rightarrow>
    (decl_error, (string \<times> string) list) result" where
  "check_transition md f t claimed =
     (let states = fd_SelectionValues (nf_Def f); act = wt_ActionName t
      in if act = [] then Inl (WorkflowName (md_Name md) (nf_Name f))
         else if CHR ''/'' \<in> set act then Inl (WorkflowSlash (md_Name md) (nf_Name f) act)
         else if wt_From t \<notin> set states then Inl (WorkflowFrom (md_Name md) (nf_Name f) act)
         else if wt_To t \<notin> set states then Inl (WorkflowTo (md_Name md) (nf_Name f) act)
         else case map_of claimed act of
                Some claimant \<Rightarrow> Inl (WorkflowTwice (md_Name md) claimant (nf_Name f) act)
              | None \<Rightarrow>
                  if wt_Event t \<noteq> None \<and> md_Backend md \<noteq> [] then Inl (WorkflowEventBackend (md_Name md) act)
                  else if (case wt_Event t of None \<Rightarrow> False | Some ev \<Rightarrow> \<not> payload_ok md ev)
                  then Inl (WorkflowEventPayload (md_Name md) act (case wt_Event t of None \<Rightarrow> [] | Some ev \<Rightarrow> le_Name ev))
                  else if wt_ConditionExpr t = [] then Inr ((act, nf_Name f) # claimed)
                  else (case Parse (wt_ConditionExpr t) of
                          Inl e \<Rightarrow> Inl (WorkflowConditionParse (md_Name md) (nf_Name f) act e)
                        | Inr expr \<Rightarrow>
                            (case ValidateEval expr of
                               Some e \<Rightarrow> Inl (WorkflowCondition (md_Name md) (nf_Name f) act e)
                             | None \<Rightarrow> Inr ((act, nf_Name f) # claimed))))"

definition check_workflow_field :: "model_declaration \<Rightarrow> named_field \<Rightarrow> (string \<times> string) list \<Rightarrow>
    (decl_error, (string \<times> string) list) result" where
  "check_workflow_field md f claimed =
     (if fd_WorkflowTransitions (nf_Def f) = [] then Inr claimed
      else if fd_Kind (nf_Def f) \<noteq> KindSelection then Inl (WorkflowKind (md_Name md) (nf_Name f))
      else fold_res (check_transition md f) (fd_WorkflowTransitions (nf_Def f)) claimed)"

definition validateWorkflowTransitions :: "model_declaration list \<Rightarrow> decl_error option" where
  "validateWorkflowTransitions models =
     first_err (\<lambda>md. case fold_res (check_workflow_field md) (md_Fields md) [] of Inl e \<Rightarrow> Some e | Inr _ \<Rightarrow> None) models"

section \<open>Checked workflows register\<close>

definition transition_ok :: "model_declaration \<Rightarrow> named_field \<Rightarrow> workflow_transition \<Rightarrow> bool" where
  "transition_ok md f t \<longleftrightarrow>
     wt_ActionName t \<noteq> [] \<and> CHR ''/'' \<notin> set (wt_ActionName t) \<and> fd_Kind (nf_Def f) = KindSelection \<and>
     {wt_From t, wt_To t} \<subseteq> set (fd_SelectionValues (nf_Def f)) \<and>
     (\<forall>ev. wt_Event t = Some ev \<longrightarrow> md_Backend md = [] \<and> payload_ok md ev) \<and>
     (\<exists>w. compileCondition (transition_manifest f t) = Inr w)"

lemma check_transition_Inr:
  assumes "check_transition md f t claimed = Inr claimed'" "fd_Kind (nf_Def f) = KindSelection"
  shows "transition_ok md f t \<and> claimed' = (wt_ActionName t, nf_Name f) # claimed \<and> wt_ActionName t \<notin> fst ` set claimed"
  using assms
  by (auto simp: check_transition_def transition_ok_def Let_def compileCondition_def transition_manifest_def
      map_of_eq_None_iff split: if_splits option.splits sum.splits)

lemma check_transitions_Inr:
  assumes "fold_res (check_transition md f) ts claimed = Inr claimed'" "fd_Kind (nf_Def f) = KindSelection"
    "distinct (map fst claimed)"
  shows "list_all (transition_ok md f) ts \<and> map fst claimed' = rev (map wt_ActionName ts) @ map fst claimed \<and>
    distinct (map fst claimed')"
  using assms
proof (induction ts arbitrary: claimed)
  case (Cons t ts)
  then obtain c1 where step: "check_transition md f t claimed = Inr c1" and rest: "fold_res (check_transition md f) ts c1 = Inr claimed'"
    by (auto split: sum.splits)
  note head = check_transition_Inr[OF step Cons.prems(2)]
  with Cons.prems(3) have "distinct (map fst c1)" by simp
  from Cons.IH[OF rest Cons.prems(2) this] head show ?case by (elim conjE) simp
qed simp

lemma check_fields_Inr:
  assumes "fold_res (check_workflow_field md) fs claimed = Inr claimed'" "distinct (map fst claimed)"
  shows "(\<forall>f \<in> set fs. list_all (transition_ok md f) (fd_WorkflowTransitions (nf_Def f))) \<and>
    map fst claimed' = rev (map wt_ActionName (concat (map (fd_WorkflowTransitions \<circ> nf_Def) fs))) @ map fst claimed \<and>
    distinct (map fst claimed')"
  using assms
proof (induction fs arbitrary: claimed)
  case (Cons f fs)
  then obtain c1 where step: "check_workflow_field md f claimed = Inr c1"
    and rest: "fold_res (check_workflow_field md) fs c1 = Inr claimed'"
    by (auto split: sum.splits)
  have head: "list_all (transition_ok md f) (fd_WorkflowTransitions (nf_Def f)) \<and>
      map fst c1 = rev (map wt_ActionName (fd_WorkflowTransitions (nf_Def f))) @ map fst claimed \<and> distinct (map fst c1)"
  proof (cases "fd_WorkflowTransitions (nf_Def f) = []")
    case True
    with step Cons.prems(2) show ?thesis by (simp add: check_workflow_field_def)
  next
    case False
    with step show ?thesis
      by (intro check_transitions_Inr Cons.prems(2)) (simp_all add: check_workflow_field_def split: if_splits)
  qed
  then have "distinct (map fst c1)" by blast
  from Cons.IH[OF rest this] head show ?case by (elim conjE) simp
qed simp

lemma transitions_actions:
  "map (\<lambda>ft. wt_ActionName (snd ft)) (transitions md) =
     map wt_ActionName (concat (map (fd_WorkflowTransitions \<circ> nf_Def) (md_Fields md)))"
proof -
  have "map (\<lambda>ft. wt_ActionName (snd ft)) (concat (map (\<lambda>f. map (Pair f) (fd_WorkflowTransitions (nf_Def f))) fs)) =
      map wt_ActionName (concat (map (fd_WorkflowTransitions \<circ> nf_Def) fs))" for fs
    by (induction fs) auto
  then show ?thesis by (simp add: transitions_def)
qed

lemma find_by_key: "distinct (map g xs) \<Longrightarrow> x \<in> set xs \<Longrightarrow> List.find (\<lambda>y. g y = g x) xs = Some x"
  by (induction xs) (auto simp: image_iff)

lemma validated_workflow:
  assumes "validateWorkflowTransitions models = None" "md \<in> set models" "(f, t) \<in> set (transitions md)"
  shows "transition_ok md f t \<and> modelWorkflow md (wt_ActionName t) = Some (transition_manifest f t, wt_Permission t)"
proof -
  have "(case fold_res (check_workflow_field md) (md_Fields md) [] of Inl e \<Rightarrow> Some e | Inr _ \<Rightarrow> None) = None"
    using assms(1,2) by (simp add: validateWorkflowTransitions_def)
  then obtain claimed where "fold_res (check_workflow_field md) (md_Fields md) [] = Inr claimed"
    by (auto split: sum.splits)
  from check_fields_Inr[OF this] have ok: "\<forall>f \<in> set (md_Fields md). list_all (transition_ok md f) (fd_WorkflowTransitions (nf_Def f))"
    and "distinct (map (\<lambda>ft. wt_ActionName (snd ft)) (transitions md))"
    by (auto simp: transitions_actions)
  from find_by_key[OF this(2) assms(3)]
  have "List.find (\<lambda>(g, u). wt_ActionName u = wt_ActionName t) (transitions md) = Some (f, t)"
    by (simp add: case_prod_unfold)
  moreover have "transition_ok md f t"
    using ok assms(3) by (auto simp: transitions_def list_all_iff)
  ultimately show ?thesis by (simp add: modelWorkflow_def)
qed


definition sample_order :: model_declaration where
  "sample_order =
     Field ''state'' ((Selection_field [''draft'', ''confirmed''])
       \<lparr>fd_WorkflowTransitions := [\<lparr>wt_From = ''draft'', wt_To = ''confirmed'', wt_ActionName = ''confirm'',
          wt_Permission = ''sales:order:confirm'', wt_ConditionExpr = ''record.total > 0'', wt_Event = None\<rparr>]\<rparr>)
       (Define ''sales.order'')"


end
