(* ===== verification/Module_Sweep.thy ===== *)
theory Module_Sweep
  imports Model_Extension_Props Loader_Checks Domain_Compile
begin

text \<open>
  The frame of the checks over a set of modules (\<^verbatim>\<open>internal/engine/loader\<close>): a check may fail a module, replace
  its diagnostics and record its resolved configuration, and nothing else. The interface of a check is
  the locale \<^verbatim>\<open>check_pass\<close>; a check that fails nothing leaves a set of survivors that meets its condition.
\<close>

section \<open>Failures\<close>

datatype set_failure =
    DependencyNotLoaded string
  | ConflictsWith string string
  | ModelOwned string string
  | ProviderDeclared string string
  | PermissionDeclared string string
  | ReportTarget string

datatype event_failure =
    SystemEventSync string
  | UnknownEvent string
  | UnknownEventVersion string int

datatype config_failure =
    ConfigNotLoaded string string
  | ConfigMissing string string
  | ConfigType string string string

datatype permission_failure =
    OwnerUndeclared string string
  | OwnerNotLoaded string string
  | NotDeclared string string
  | UnknownReference string string

datatype view_failure =
    ViewModuleNotLoaded string string
  | ViewMissing string string
  | ViewSubList string string

datatype relation_failure =
    RelationInvalid meta_error
  | RelationNotLoaded string
  | RelationNotDependency string
  | JoinTableTaken string string
  | DelegateOwner string
  | DelegateNotLoaded string

datatype reference_failure =
    PolicyTarget string string
  | PolicyParse string parse_error
  | PolicyCompile string compile_error
  | PolicyField string string
  | ComposedInvalid string meta_error
  | FileInvalid string string meta_error
  | ComputedPath string string string

datatype load_failure =
    SetFailure set_failure
  | RouteFailure route_error
  | ExtensionFailure ext_error
  | DependencyFailed string
  | DeclarationFailure decl_error
  | EventFailure event_failure
  | ConfigFailure config_failure
  | PermissionFailure permission_failure
  | ViewFailure view_failure
  | RelationFailure string string relation_failure
  | ReferenceFailure reference_failure

type_synonym lmodule = "load_failure loaded_module"
type_synonym lmodules = "load_failure modules"

section \<open>What a check may change\<close>

text \<open>The part of a module no check changes, with its status reduced to failed or not.\<close>

definition face :: "lmodule \<Rightarrow> lmodule" where
  "face m = m\<lparr>lm_Status := (if failed m then StatusFailed else StatusPending), lm_FailureReason := None,
     lm_Diagnostics := [], lm_UsesConfig := []\<rparr>"

definition demoted :: "lmodule \<Rightarrow> lmodule \<Rightarrow> bool" where
  "demoted m m' \<longleftrightarrow> face (m'\<lparr>lm_Status := lm_Status m\<rparr>) = face m \<and> (failed m \<longrightarrow> failed m')"

definition demotes :: "lmodules \<Rightarrow> lmodules \<Rightarrow> bool" where
  "demotes ms ms' \<longleftrightarrow> list_all2 (\<lambda>(n, m) (n', m'). n = n' \<and> demoted m m') ms ms'"

definition quiet :: "lmodules \<Rightarrow> lmodules \<Rightarrow> bool" where
  "quiet ms ms' \<longleftrightarrow> map (map_prod id face) ms = map (map_prod id face) ms'"

definition survivors :: "lmodules \<Rightarrow> lmodules" where
  "survivors ms = filter (\<lambda>(n, m). \<not> failed m) ms"

definition failedCount :: "lmodules \<Rightarrow> nat" where
  "failedCount ms = length (filter (\<lambda>(n, m). failed m) ms)"

lemma face_simps [simp]:
  "lm_Manifest (face m) = lm_Manifest m" "lm_LoadOrder (face m) = lm_LoadOrder m"
  "lm_ExplicitRoutes (face m) = lm_ExplicitRoutes m" "lm_ModelDecls (face m) = lm_ModelDecls m"
  "lm_ModelExtensions (face m) = lm_ModelExtensions m" "lm_TypeDecls (face m) = lm_TypeDecls m"
  "failed (face m) = failed m"
  by (simp_all add: face_def failed_def)

lemma demoted_refl [simp]: "demoted m m"
  by (simp add: demoted_def)

lemma demoted_trans: "demoted m m' \<Longrightarrow> demoted m' m'' \<Longrightarrow> demoted m m''"
  unfolding demoted_def
  by (cases m; cases m'; cases m'') (auto simp: face_def failed_def split: if_splits)

lemma demoted_Fail [simp]: "demoted m (Fail r m)"
  by (cases m) (simp add: demoted_def face_def Fail_def failed_def)

lemma demoted_Warn [simp]: "demoted m (Warn ds m)"
  by (cases m) (simp add: demoted_def face_def Warn_def failed_def)

lemma demoted_ClearDiagnostics [simp]: "demoted m (ClearDiagnostics rule m)"
  by (cases m) (simp add: demoted_def face_def ClearDiagnostics_def failed_def)

lemma demoted_UsesConfig [simp]: "demoted m (m\<lparr>lm_UsesConfig := uc\<rparr>)"
  by (cases m) (simp add: demoted_def face_def failed_def)

lemma failed_simps [simp]:
  "failed (Fail r m)" "failed (Warn ds m) = failed m" "failed (ClearDiagnostics rule m) = failed m"
  "failed (m\<lparr>lm_UsesConfig := uc\<rparr>) = failed m"
  by (simp_all add: failed_def Fail_def Warn_def ClearDiagnostics_def)

lemma demoted_face: "demoted m m' \<Longrightarrow> failed m' = failed m \<Longrightarrow> face m' = face m"
  by (cases m; cases m') (auto simp: demoted_def face_def failed_def split: if_splits)

lemma demotes_refl [simp]: "demotes ms ms"
  unfolding demotes_def by (rule list_all2_refl) auto

lemma demotes_trans: "demotes ms ms' \<Longrightarrow> demotes ms' ms'' \<Longrightarrow> demotes ms ms''"
  unfolding demotes_def by (rule list_all2_trans[rotated], assumption+) (auto intro: demoted_trans)

lemma demotes_map: "(\<And>n m. (n, m) \<in> set ms \<Longrightarrow> demoted m (g n m)) \<Longrightarrow> demotes ms (map (\<lambda>(n, m). (n, g n m)) ms)"
  unfolding demotes_def by (induction ms) auto

lemma demotes_upd: "(\<And>m. demoted m (g m)) \<Longrightarrow> demotes ms (upd name g ms)"
  unfolding upd_def by (rule demotes_map) simp

lemma demotes_keys: "demotes ms ms' \<Longrightarrow> map fst ms' = map fst ms"
  unfolding demotes_def by (induction rule: list_all2_induct) auto

lemma demotes_length: "demotes ms ms' \<Longrightarrow> length ms' = length ms"
  unfolding demotes_def by (simp add: list_all2_lengthD)

lemma failedCount_simps [simp]:
  "failedCount [] = 0" "failedCount ((n, m) # ms) = (if failed m then Suc (failedCount ms) else failedCount ms)"
  by (simp_all add: failedCount_def)

lemma quiet_simps [simp]:
  "quiet [] []" "quiet ((n, m) # ms) ((n', m') # ms') \<longleftrightarrow> n = n' \<and> face m = face m' \<and> quiet ms ms'"
  by (simp_all add: quiet_def)

lemma demoted_failed: "demoted m m' \<Longrightarrow> failed m \<Longrightarrow> failed m'"
  by (simp add: demoted_def)

lemma demotes_failedCount:
  "demotes ms ms' \<Longrightarrow> failedCount ms \<le> failedCount ms' \<and> (failedCount ms' = failedCount ms \<longrightarrow> quiet ms ms')"
  unfolding demotes_def
proof (induction rule: list_all2_induct)
  case (Cons x xs y ys)
  obtain n m m' where xy: "x = (n, m)" "y = (n, m')" "demoted m m'"
    using Cons.hyps(1) by (cases x; cases y) auto
  show ?case
    using Cons.IH demoted_failed[OF xy(3)] demoted_face[OF xy(3)] by (auto simp: xy(1,2))
qed simp

lemma failedCount_length: "failedCount ms \<le> length ms"
  by (simp add: failedCount_def)

lemma quiet_failedCount: "quiet ms ms' \<Longrightarrow> failedCount ms' = failedCount ms"
proof -
  have "failedCount (map (map_prod id face) xs) = failedCount xs" for xs
    by (induction xs) (auto simp: failedCount_def)
  then show "quiet ms ms' \<Longrightarrow> failedCount ms' = failedCount ms" by (metis quiet_def)
qed

lemma quiet_refl [simp]: "quiet ms ms" and quiet_sym: "quiet ms ms' \<Longrightarrow> quiet ms' ms"
  and quiet_trans: "quiet ms ms' \<Longrightarrow> quiet ms' ms'' \<Longrightarrow> quiet ms ms''"
  by (auto simp: quiet_def)

lemma quiet_between:
  assumes "demotes ms ms1" "demotes ms1 ms2" "quiet ms ms2"
  shows "quiet ms ms1 \<and> quiet ms1 ms2"
proof -
  have "failedCount ms \<le> failedCount ms1" "failedCount ms1 \<le> failedCount ms2"
    using assms demotes_failedCount by blast+
  with quiet_failedCount[OF assms(3)] show ?thesis
    using demotes_failedCount[OF assms(1)] demotes_failedCount[OF assms(2)] by auto
qed

lemma map_of_face: "map_of (map (map_prod id face) ms) n = map_option face (map_of ms n)"
  by (induction ms) auto

lemma quiet_map_of: "quiet ms ms' \<Longrightarrow> map_of ms n = Some m \<Longrightarrow> \<exists>m'. map_of ms' n = Some m' \<and> face m' = face m"
  using map_of_face[of ms n] map_of_face[of ms' n] by (auto simp: quiet_def)

lemma quiet_alive: "quiet ms ms' \<Longrightarrow> alive ms' n = alive ms n"
proof -
  have "alive (map (map_prod id face) xs) n = alive xs n" for xs
    by (simp add: alive_def map_of_face split: option.splits)
  then show "quiet ms ms' \<Longrightarrow> alive ms' n = alive ms n" by (metis quiet_def)
qed

lemma quiet_survivors: "quiet ms ms' \<Longrightarrow> map (map_prod id face) (survivors ms') = map (map_prod id face) (survivors ms)"
proof -
  have "map (map_prod id face) (survivors xs) = survivors (map (map_prod id face) xs)" for xs
    by (induction xs) (auto simp: survivors_def)
  then show "quiet ms ms' \<Longrightarrow> map (map_prod id face) (survivors ms') = map (map_prod id face) (survivors ms)"
    by (simp add: quiet_def)
qed

lemma quiet_keys: "quiet ms ms' \<Longrightarrow> map fst ms' = map fst ms"
proof -
  have "map fst (map (map_prod id face) xs) = map fst xs" for xs by (induction xs) auto
  then show "quiet ms ms' \<Longrightarrow> map fst ms' = map fst ms" by (metis quiet_def)
qed

section \<open>Loops over the modules\<close>

text \<open>
  \<^verbatim>\<open>for _, name := range names { m := modules[name]; if m.Status == StatusFailed { continue } ... }\<close>: the
  body sees the modules as they are by then and says what becomes of the module it visits.
\<close>

fun sweep :: "('s \<Rightarrow> string \<Rightarrow> lmodule \<Rightarrow> lmodules \<Rightarrow> 's \<times> (lmodule \<Rightarrow> lmodule)) \<Rightarrow> string list \<Rightarrow> 's \<Rightarrow> lmodules \<Rightarrow>
    's \<times> lmodules" where
  "sweep body [] s ms = (s, ms)"
| "sweep body (n # ns) s ms =
     (case map_of ms n of
        None \<Rightarrow> sweep body ns s ms
      | Some m \<Rightarrow>
          if failed m then sweep body ns s ms
          else case body s n m ms of (s', g) \<Rightarrow> sweep body ns s' (upd n g ms))"

lemma sweep_append:
  "sweep body (xs @ ys) s ms = (case sweep body xs s ms of (s', ms') \<Rightarrow> sweep body ys s' ms')"
  by (induction xs arbitrary: s ms) (auto split: option.splits prod.splits)

lemma sweep_demotes:
  assumes "\<And>s n m ms x. demoted x (snd (body s n m ms) x)"
  shows "demotes ms (snd (sweep body ns s ms))"
proof (induction ns arbitrary: s ms)
  case (Cons n ns)
  show ?case
  proof (cases "map_of ms n")
    case None
    then show ?thesis using Cons by simp
  next
    case (Some m)
    obtain s' g where b: "body s n m ms = (s', g)" by fastforce
    have "demoted x (g x)" for x using assms[of x s n m ms] b by simp
    then have "demotes ms (upd n g ms)" by (rule demotes_upd)
    from demotes_trans[OF this Cons] show ?thesis using Cons by (simp add: Some b)
  qed
qed simp

text \<open>A loop that fails nothing accepts every module it visits, in an equivalent set of modules.\<close>

lemma sweep_visit:
  assumes body: "\<And>s n m ms x. demoted x (snd (body s n m ms) x)"
    and quiet: "quiet ms (snd (sweep body (xs @ n # ys) s ms))" and n: "alive ms n"
  shows "\<exists>s1 ms1 m1. sweep body xs s ms = (s1, ms1) \<and> quiet ms ms1 \<and> map_of ms1 n = Some m1 \<and> \<not> failed m1 \<and>
    \<not> failed (snd (body s1 n m1 ms1) m1)"
proof -
  obtain s1 ms1 where xs: "sweep body xs s ms = (s1, ms1)" by fastforce
  let ?out = "snd (sweep body (n # ys) s1 ms1)"
  have out: "snd (sweep body (xs @ n # ys) s ms) = ?out" by (simp only: sweep_append xs prod.case)
  have d1: "demotes ms ms1" using sweep_demotes[where body = body and ms = ms and ns = xs and s = s, OF body] xs by simp
  have d2: "demotes ms1 ?out" by (rule sweep_demotes[OF body])
  have q: "quiet ms ms1" "quiet ms1 ?out" using quiet_between[OF d1 d2 quiet[unfolded out]] by simp_all
  have "alive ms1 n" using q(1) n by (simp add: quiet_alive)
  then obtain m1 where m1: "map_of ms1 n = Some m1" "\<not> failed m1" by (auto simp: alive_def split: option.splits)
  obtain s2 g where b: "body s1 n m1 ms1 = (s2, g)" by fastforce
  have g: "demoted x (g x)" for x using body[of x s1 n m1 ms1] b by simp
  have last: "?out = snd (sweep body ys s2 (upd n g ms1))" using m1 b by simp
  have "demotes (upd n g ms1) ?out" unfolding last by (rule sweep_demotes[OF body])
  from quiet_between[OF demotes_upd[OF g] this q(2)] have "quiet ms1 (upd n g ms1)" ..
  from quiet_alive[OF this, of n] \<open>alive ms1 n\<close> have "alive (upd n g ms1) n" by simp
  then have "\<not> failed (g m1)" using m1 by (simp add: alive_def map_of_upd)
  then show ?thesis using xs q(1) m1 b by auto
qed

section \<open>The interface of a check\<close>

locale check_pass =
  fixes pass :: "lmodules \<Rightarrow> lmodules"
    and ok :: "lmodules \<Rightarrow> bool"
  assumes pass_demotes: "demotes ms (pass ms)"
    and pass_ok: "distinct (map fst ms) \<Longrightarrow> quiet ms (pass ms) \<Longrightarrow> ok (survivors ms)"
    and ok_face: "ok (map (map_prod id face) ms) = ok ms"
begin

lemma ok_quiet: "quiet ms ms' \<Longrightarrow> ok (survivors ms') = ok (survivors ms)"
  using arg_cong[OF quiet_survivors, of ms ms' ok] by (simp only: ok_face)

lemma pass_keys: "map fst (pass ms) = map fst ms"
  using pass_demotes by (rule demotes_keys)

end

lemma check_pass_comp:
  assumes "check_pass p P" "check_pass q Q"
  shows "check_pass (\<lambda>ms. q (p ms)) (\<lambda>ms. P ms \<and> Q ms)"
proof
  fix ms
  have p: "demotes ms (p ms)" and q: "demotes (p ms) (q (p ms))"
    by (rule check_pass.pass_demotes[OF assms(1)], rule check_pass.pass_demotes[OF assms(2)])
  then show "demotes ms (q (p ms))" by (rule demotes_trans)
  assume dist: "distinct (map fst ms)" and "quiet ms (q (p ms))"
  from quiet_between[OF p q this(2)] have quiet: "quiet ms (p ms)" "quiet (p ms) (q (p ms))" by simp_all
  have "P (survivors ms)" using check_pass.pass_ok[OF assms(1) dist quiet(1)] .
  moreover have "Q (survivors (p ms))"
    using check_pass.pass_ok[OF assms(2) _ quiet(2)] dist check_pass.pass_keys[OF assms(1)] by simp
  ultimately show "P (survivors ms) \<and> Q (survivors ms)"
    using check_pass.ok_quiet[OF assms(2) quiet(1)] by simp
next
  fix ms
  show "(P (map (map_prod id face) ms) \<and> Q (map (map_prod id face) ms)) = (P ms \<and> Q ms)"
    by (simp only: check_pass.ok_face[OF assms(1)] check_pass.ok_face[OF assms(2)])
qed

end
