(* ===== verification/Module_Checks.thy ===== *)
theory Module_Checks
  imports Module_Sweep
begin

text \<open>
  The checks of a set of modules against each other (\<^verbatim>\<open>internal/engine/loader\<close>): declarations that must be
  unique or present, event subscriptions, configuration and permissions of other modules, view
  extensions. Each check comes with the condition its survivors meet and is an interpretation of the
  interface \<^verbatim>\<open>check_pass\<close>.
\<close>

section \<open>Declarations (validation.go)\<close>

definition validationOrder :: "lmodules \<Rightarrow> string list" where
  "validationOrder ms = load_sorted ms"

record claims =
  cl_models :: "(string \<times> string) list"
  cl_providers :: "(string \<times> string) list"
  cl_permissions :: "(string \<times> string) list"
  cl_table :: node
  cl_incumbents :: "string list"

definition no_claims :: claims where
  "no_claims = \<lparr>cl_models = [], cl_providers = [], cl_permissions = [], cl_table = New, cl_incumbents = []\<rparr>"

definition FindPermissionCollision :: "(string \<times> string) list \<Rightarrow> permission list \<Rightarrow> (string \<times> string) option" where
  "FindPermissionCollision owners candidate =
     (case List.find (\<lambda>p. map_of owners (perm_Name p) \<noteq> None) candidate of
        None \<Rightarrow> None
      | Some p \<Rightarrow> map_option (\<lambda>owner. (owner, perm_Name p)) (map_of owners (perm_Name p)))"

definition in_conflict :: "lmodules \<Rightarrow> manifest \<Rightarrow> string \<Rightarrow> bool" where
  "in_conflict ms mf name \<longleftrightarrow> name \<noteq> mf_Name mf \<and>
     (case map_of ms name of
        None \<Rightarrow> False
      | Some other \<Rightarrow> \<not> failed other \<and>
          (name \<in> set (mf_ConflictsWith mf) \<or> mf_Name mf \<in> set (mf_ConflictsWith (lm_Manifest other))))"

definition report_ok :: "lmodules \<Rightarrow> string \<Rightarrow> bool" where
  "report_ok ms override =
     (case cut (CHR ''.'') override of
        (owner, report, qualified) \<Rightarrow>
          qualified \<and>
          (case map_of ms owner of None \<Rightarrow> False | Some t \<Rightarrow> \<not> failed t \<and> report \<in> set (mf_Reports (lm_Manifest t))))"

definition checkModuleDeclarations :: "lmodule \<Rightarrow> lmodules \<Rightarrow> claims \<Rightarrow> set_failure option" where
  "checkModuleDeclarations m ms cl =
     (let mf = lm_Manifest m
      in case List.find (\<lambda>d. \<not> alive ms d) (mf_DependsOn mf) of
           Some d \<Rightarrow> Some (DependencyNotLoaded d)
         | None \<Rightarrow>
      (case List.find (in_conflict ms mf) (sort (cl_incumbents cl)) of
           Some other \<Rightarrow> Some (ConflictsWith (mf_Name mf) other)
         | None \<Rightarrow>
      (case List.find (\<lambda>owned. map_of (cl_models cl) owned \<noteq> None) (mf_OwnedModels mf) of
           Some owned \<Rightarrow> Some (ModelOwned owned (the (map_of (cl_models cl) owned)))
         | None \<Rightarrow>
      (case (case mf_OAuthProvider mf of None \<Rightarrow> None | Some p \<Rightarrow> map_option (Pair p) (map_of (cl_providers cl) p)) of
           Some (p, owner) \<Rightarrow> Some (ProviderDeclared p owner)
         | None \<Rightarrow>
      (case FindPermissionCollision (cl_permissions cl) (mf_Permissions mf) of
           Some (owner, name) \<Rightarrow> Some (PermissionDeclared name owner)
         | None \<Rightarrow> map_option ReportTarget (List.find (\<lambda>r. \<not> report_ok ms r) (mf_ReportOverrides mf)))))))"

definition claim :: "string \<Rightarrow> manifest \<Rightarrow> claims \<Rightarrow> claims" where
  "claim name mf cl =
     cl\<lparr>cl_incumbents := name # cl_incumbents cl,
        cl_models := rev (map (\<lambda>owned. (owned, name)) (mf_OwnedModels mf)) @ cl_models cl,
        cl_permissions := rev (map (\<lambda>p. (perm_Name p, name)) (mf_Permissions mf)) @ cl_permissions cl,
        cl_providers := (case mf_OAuthProvider mf of None \<Rightarrow> [] | Some p \<Rightarrow> [(p, name)]) @ cl_providers cl\<rparr>"

definition declare_module :: "(string \<Rightarrow> string) \<Rightarrow> claims \<Rightarrow> string \<Rightarrow> lmodule \<Rightarrow> lmodules \<Rightarrow> claims \<times> (lmodule \<Rightarrow> lmodule)" where
  "declare_module inflect cl name m ms =
     (case checkModuleDeclarations m ms cl of
        Some e \<Rightarrow> (cl, Fail (SetFailure e))
      | None \<Rightarrow>
          (case RegisterRoutes inflect name (mf_Type (lm_Manifest m)) (ExplicitRoutesFrom (lm_ExplicitRoutes m))
                  (lm_ModelDecls m) (cl_table cl) of
             (table, Inl e) \<Rightarrow> (cl\<lparr>cl_table := table\<rparr>, Fail (RouteFailure e))
           | (table, Inr _) \<Rightarrow> (claim name (lm_Manifest m) (cl\<lparr>cl_table := table\<rparr>), id)))"

definition validateModuleDeclarations :: "(string \<Rightarrow> string) \<Rightarrow> lmodules \<Rightarrow> lmodules" where
  "validateModuleDeclarations inflect ms = snd (sweep (declare_module inflect) (validationOrder ms) no_claims ms)"

section \<open>Event subscriptions (loader.go)\<close>

definition EventSubscriptionProblem :: "event_subscription \<Rightarrow> event_declaration list \<Rightarrow> event_failure option" where
  "EventSubscriptionProblem s emitted =
     (if has_prefix (sub_Name s) ''system.''
      then if \<not> sub_Async s then Some (SystemEventSync (sub_Name s)) else None
      else if emitted = [] then Some (UnknownEvent (sub_Name s))
      else if \<not> list_ex (\<lambda>e. emit_version e = sub_version s) emitted
      then Some (UnknownEventVersion (sub_Name s) (sub_version s)) else None)"

definition emits_of :: "lmodules \<Rightarrow> string \<Rightarrow> event_declaration list" where
  "emits_of ms name =
     concat (map (\<lambda>(_, m). if failed m then [] else filter (\<lambda>e. ev_Name e = name) (mf_Emits (lm_Manifest m))) ms)"

definition RuleMissingEmitter :: string where
  "RuleMissingEmitter = ''subscribes.missing_emitter''"

fun subscribe_all :: "(string \<Rightarrow> event_declaration list) \<Rightarrow> event_subscription list \<Rightarrow> lmodule \<Rightarrow> lmodule" where
  "subscribe_all emits [] m = m"
| "subscribe_all emits (s # ss) m =
     (case EventSubscriptionProblem s (emits (sub_Name s)) of
        None \<Rightarrow> subscribe_all emits ss m
      | Some problem \<Rightarrow>
          if fst (cut (CHR ''.'') (sub_Name s)) \<in> set (mf_SoftDependsOn (lm_Manifest m))
          then subscribe_all emits ss (Warn [\<lparr>dg_Rule = RuleMissingEmitter,
                 dg_Context = [(''event'', sub_Name s), (''version'', show_int (sub_version s))]\<rparr>] m)
          else Fail (EventFailure problem) m)"

definition on_alive :: "(lmodule \<Rightarrow> lmodule) \<Rightarrow> string \<times> lmodule \<Rightarrow> string \<times> lmodule" where
  "on_alive g = (\<lambda>(n, m). (n, if failed m then m else g m))"

definition clear_rule :: "string \<Rightarrow> lmodules \<Rightarrow> lmodules" where
  "clear_rule rule ms = map (\<lambda>(n, m). (n, ClearDiagnostics rule m)) ms"

definition ValidateEventSubscriptions :: "lmodules \<Rightarrow> lmodules" where
  "ValidateEventSubscriptions ms =
     map (on_alive (\<lambda>m. subscribe_all (emits_of ms) (mf_Subscribes (lm_Manifest m)) m)) (clear_rule RuleMissingEmitter ms)"

section \<open>Configuration of other modules (uses\_config.go)\<close>

definition findConfigEntry :: "config_entry list \<Rightarrow> string \<Rightarrow> config_entry option" where
  "findConfigEntry schema key = List.find (\<lambda>c. ce_Key c = key) schema"

definition resolve_config_ref :: "lmodules \<Rightarrow> lmodule \<Rightarrow> uses_config_ref \<Rightarrow> (config_failure, uses_config_entry) result" where
  "resolve_config_ref ms m ref =
     (case cut (CHR ''.'') (uc_Key ref) of
        (ownerName, key, _) \<Rightarrow>
          (case map_of ms ownerName of
             Some owner \<Rightarrow>
               if failed owner
               then if ownerName \<notin> set (mf_SoftDependsOn (lm_Manifest m)) then Inl (ConfigNotLoaded (uc_Key ref) ownerName) else Inr None
               else (case findConfigEntry (mf_ConfigSchema (lm_Manifest owner)) key of
                       None \<Rightarrow> Inl (ConfigMissing (uc_Key ref) ownerName)
                     | Some entry \<Rightarrow>
                         if ce_Type entry \<noteq> uc_Type ref then Inl (ConfigType (uc_Key ref) (uc_Type ref) (ce_Type entry))
                         else Inr (Some entry))
           | None \<Rightarrow>
               if ownerName \<notin> set (mf_SoftDependsOn (lm_Manifest m)) then Inl (ConfigNotLoaded (uc_Key ref) ownerName) else Inr None))"

fun resolve_config :: "lmodules \<Rightarrow> lmodule \<Rightarrow> uses_config_ref list \<Rightarrow> (config_failure, (string \<times> uses_config_entry) list) result" where
  "resolve_config ms m [] = Inr []"
| "resolve_config ms m (ref # refs) =
     and_then (resolve_config_ref ms m ref) (\<lambda>entry.
       and_then (resolve_config ms m refs) (\<lambda>rest. Inr (rest @ [(uc_Key ref, entry)])))"

definition uses_config :: "lmodules \<Rightarrow> lmodule \<Rightarrow> lmodule" where
  "uses_config ms m =
     (case resolve_config ms m (mf_UsesConfig (lm_Manifest m)) of
        Inl e \<Rightarrow> Fail (ConfigFailure e) m
      | Inr resolved \<Rightarrow> m\<lparr>lm_UsesConfig := resolved\<rparr>)"

definition ValidateUsesConfig :: "lmodules \<Rightarrow> lmodules" where
  "ValidateUsesConfig ms = map (on_alive (uses_config ms)) ms"

section \<open>Permissions of other modules (uses\_permissions.go)\<close>

definition RuleMissingPermissionOwner :: string where
  "RuleMissingPermissionOwner = ''uses_permissions.missing_owner''"

definition declaresPermission :: "lmodule \<Rightarrow> string \<Rightarrow> bool" where
  "declaresPermission m name \<longleftrightarrow> list_ex (\<lambda>p. perm_Name p = name) (mf_Permissions (lm_Manifest m))"

text \<open>The warnings of the entries before the one that fails, and its failure.\<close>

fun checkUsesPermissionOwners :: "lmodules \<Rightarrow> manifest \<Rightarrow> string list \<Rightarrow> diagnostic list \<Rightarrow>
    diagnostic list \<times> permission_failure option" where
  "checkUsesPermissionOwners ms mf [] ds = (ds, None)"
| "checkUsesPermissionOwners ms mf (perm # perms) ds =
     (let owner = fst (cut (CHR '':'') perm); soft = owner \<in> set (mf_SoftDependsOn mf)
      in if \<not> soft \<and> owner \<notin> set (mf_DependsOn mf) then (ds, Some (OwnerUndeclared perm owner))
         else case map_of ms owner of
                Some m \<Rightarrow>
                  if failed m
                  then if \<not> soft then (ds, Some (OwnerNotLoaded perm owner))
                       else checkUsesPermissionOwners ms mf perms
                              (ds @ [\<lparr>dg_Rule = RuleMissingPermissionOwner, dg_Context = [(''permission'', perm)]\<rparr>])
                  else if \<not> declaresPermission m perm then (ds, Some (NotDeclared owner perm))
                  else checkUsesPermissionOwners ms mf perms ds
              | None \<Rightarrow>
                  if \<not> soft then (ds, Some (OwnerNotLoaded perm owner))
                  else checkUsesPermissionOwners ms mf perms
                         (ds @ [\<lparr>dg_Rule = RuleMissingPermissionOwner, dg_Context = [(''permission'', perm)]\<rparr>]))"

text \<open>A permission and where it is named; places are reduced to the kind of declaration and its name.\<close>

type_synonym permission_reference = "string \<times> string"

definition named :: "string \<Rightarrow> string \<Rightarrow> permission_reference list" where
  "named name site = (if name = [] then [] else [(name, site)])"

definition field_references :: "string \<Rightarrow> named_field \<Rightarrow> permission_reference list" where
  "field_references site f =
     named (fd_ReadPermission (nf_Def f)) (site @ nf_Name f @ '' read access'') @
     named (fd_WritePermission (nf_Def f)) (site @ nf_Name f @ '' write access'')"

definition model_references :: "model_declaration \<Rightarrow> permission_reference list" where
  "model_references md =
     concat (map (\<lambda>oper. named (op_Permission oper) (''model '' @ md_Name md @ '' EnableOps '' @ op_Name oper)) (md_EnabledOps md)) @
     concat (map (\<lambda>f. field_references (''model '' @ md_Name md @ '' field '') f @
       concat (map (\<lambda>t. named (wt_Permission t) (''model '' @ md_Name md @ '' field '' @ nf_Name f @ '' workflow transition '' @ wt_ActionName t))
         (fd_WorkflowTransitions (nf_Def f)))) (md_Fields md))"

text \<open>
  \<^verbatim>\<open>walkPermissionNames\<close>: the entries of an object are in key order already; the paths of the visited
  names only serve the message. A string is visited under the key \<^verbatim>\<open>permission\<close>, the strings of a list
  under the key \<^verbatim>\<open>permissions\<close>; anything else is searched.
\<close>

fun string_value :: "json \<Rightarrow> string" where
  "string_value (JString s) = s"
| "string_value _ = []"

fun walkPermissionNames :: "json \<Rightarrow> string list" where
  "walkPermissionNames (JObject kvs) =
     concat (map (\<lambda>(k, v).
       case v of
         JString s \<Rightarrow> if k = ''permission'' \<and> s \<noteq> [] then [s] else []
       | JArray els \<Rightarrow>
           if k = ''permissions'' then filter (\<lambda>n. n \<noteq> []) (map string_value els)
           else walkPermissionNames (JArray els)
       | w \<Rightarrow> walkPermissionNames w) kvs)"
| "walkPermissionNames (JArray els) = concat (map walkPermissionNames els)"
| "walkPermissionNames _ = []"

definition block_references :: "string \<Rightarrow> json list \<Rightarrow> permission_reference list" where
  "block_references entity block = concat (map (\<lambda>entry. map (\<lambda>n. (n, entity)) (walkPermissionNames entry)) block)"

definition permissionReferences :: "lmodule \<Rightarrow> permission_reference list" where
  "permissionReferences m =
     concat (map (\<lambda>r. concat (map (\<lambda>p. named p (''route '' @ rd_Method r @ '' '' @ rd_Path r)) (rd_Permissions r))) (lm_ExplicitRoutes m)) @
     concat (map model_references (lm_ModelDecls m)) @
     concat (map (\<lambda>p. named (mp_AppliesTo p) (''policy '' @ mp_Name p)) (mf_Policies (lm_Manifest m))) @
     concat (map (\<lambda>e. concat (map (field_references (''model extension '' @ me_Model e @ '' field '')) (me_Fields e))) (lm_ModelExtensions m)) @
     block_references ''view'' (mf_ViewsJSON (lm_Manifest m)) @
     block_references ''navigation group'' (mf_NavigationJSON (lm_Manifest m)) @
     block_references ''report'' (mf_ReportsJSON (lm_Manifest m))"

definition checkPermissionReferences :: "lmodule \<Rightarrow> permission_failure option" where
  "checkPermissionReferences m =
     (let allowed = map perm_Name (mf_Permissions (lm_Manifest m)) @ mf_UsesPermissions (lm_Manifest m)
      in map_option (\<lambda>(name, site). UnknownReference name site)
           (List.find (\<lambda>(name, site). name \<notin> set allowed) (permissionReferences m)))"

definition uses_permissions :: "lmodules \<Rightarrow> lmodule \<Rightarrow> lmodule" where
  "uses_permissions ms m =
     (case checkUsesPermissionOwners ms (lm_Manifest m) (mf_UsesPermissions (lm_Manifest m)) [] of
        (ds, Some e) \<Rightarrow> Fail (PermissionFailure e) (Warn ds m)
      | (ds, None) \<Rightarrow>
          (case checkPermissionReferences m of
             Some e \<Rightarrow> Fail (PermissionFailure e) (Warn ds m)
           | None \<Rightarrow> Warn ds m))"

definition ValidateUsesPermissions :: "lmodules \<Rightarrow> lmodules" where
  "ValidateUsesPermissions ms = map (on_alive (uses_permissions ms)) (clear_rule RuleMissingPermissionOwner ms)"

section \<open>View extensions (view\_extensions.go)\<close>

definition RuleMissingSection :: string where
  "RuleMissingSection = ''view_extensions.missing_section''"

definition viewExtensionAreaNames :: "string \<rightharpoonup> string \<times> string" where
  "viewExtensionAreaNames =
     map_of [(''tab'', ''tabs'', ''form''), (''section'', ''sections'', ''form''), (''columns'', ''columns'', ''list''),
       (''filter'', ''filters'', ''list''), (''action'', ''actions'', ''list''), (''bulk_action'', ''bulk_actions'', ''list'')]"

record applied_extension =
  ap_Module :: string
  ap_LoadOrder :: int
  ap_TargetView :: string
  ap_TargetSection :: string
  ap_Position :: string
  ap_Type :: string
  ap_TabLabel :: string

definition findView :: "view list \<Rightarrow> string \<Rightarrow> view option" where
  "findView views name = List.find (\<lambda>v. v_Name v = name) views"

definition findSectionIn :: "form_section list \<Rightarrow> string \<Rightarrow> form_section option" where
  "findSectionIn sections name = List.find (\<lambda>s. sec_Name s = name) sections"

definition findSection :: "view \<Rightarrow> string \<Rightarrow> form_section option" where
  "findSection v name =
     (case findSectionIn (v_Sections v) name of
        Some s \<Rightarrow> Some s
      | None \<Rightarrow> findSectionIn (concat (map tab_Sections (v_Tabs v))) name)"

datatype ref_outcome = RefSkip | RefFail view_failure | RefWarn diagnostic | RefApply applied_extension

definition missing_section :: "view_extension_def \<Rightarrow> view_extension_ref \<Rightarrow> (string \<times> string) list \<Rightarrow> diagnostic" where
  "missing_section def ref extra =
     \<lparr>dg_Rule = RuleMissingSection,
      dg_Context = [(''extension'', vd_Name def), (''extends'', vr_Extends ref), (''target_section'', vd_TargetSection def)] @ extra\<rparr>"

definition apply_view_extension :: "string \<Rightarrow> lmodule \<Rightarrow> view_extension_ref \<Rightarrow> view_extension_def \<Rightarrow> view \<Rightarrow> ref_outcome" where
  "apply_view_extension name m ref def v =
     (let entry = \<lambda>label. \<lparr>ap_Module = name, ap_LoadOrder = lm_LoadOrder m, ap_TargetView = vr_Extends ref,
            ap_TargetSection = vd_TargetSection def, ap_Position = vd_Position def, ap_Type = vd_Type def, ap_TabLabel = label\<rparr>
      in if vd_Type def = ''fields'' then
           (case findSection v (vd_TargetSection def) of
              None \<Rightarrow> RefWarn (missing_section def ref [])
            | Some s \<Rightarrow> if sec_Type s = ''sub_list'' then RefFail (ViewSubList (vd_Name def) (vr_Extends ref)) else RefApply (entry []))
         else case viewExtensionAreaNames (vd_Type def) of
                None \<Rightarrow> RefWarn (missing_section def ref [])
              | Some (section_name, viewType) \<Rightarrow>
                  if vd_TargetSection def \<noteq> section_name then RefWarn (missing_section def ref [])
                  else if v_Type v \<noteq> viewType then RefWarn (missing_section def ref [(''view_type'', v_Type v)])
                  else RefApply (entry (if vd_Type def = ''tab'' then case vd_Tab def of None \<Rightarrow> [] | Some t \<Rightarrow> tab_Label t else [])))"

definition view_ref_outcome :: "lmodules \<Rightarrow> string \<Rightarrow> lmodule \<Rightarrow> view_extension_ref \<Rightarrow> ref_outcome" where
  "view_ref_outcome ms name m ref =
     (case cut (CHR ''.'') (vr_Extends ref) of
        (targetModule, viewName, ok) \<Rightarrow>
          if \<not> ok then RefSkip
          else case map_of (rev (map (\<lambda>d. (vd_Name d, d)) (mf_ViewExtensionDefinitions (lm_Manifest m)))) (vr_Extension ref) of
                 None \<Rightarrow> RefSkip
               | Some def \<Rightarrow>
                   (case map_of ms targetModule of
                      Some target \<Rightarrow>
                        if failed target
                        then if targetModule \<in> set (mf_SoftDependsOn (lm_Manifest m)) then RefSkip
                             else RefFail (ViewModuleNotLoaded (vr_Extends ref) targetModule)
                        else (case findView (mf_Views (lm_Manifest target)) viewName of
                                None \<Rightarrow> RefFail (ViewMissing (vr_Extends ref) viewName)
                              | Some v \<Rightarrow> apply_view_extension name m ref def v)
                    | None \<Rightarrow>
                        if targetModule \<in> set (mf_SoftDependsOn (lm_Manifest m)) then RefSkip
                        else RefFail (ViewModuleNotLoaded (vr_Extends ref) targetModule)))"

fun apply_view_refs :: "lmodules \<Rightarrow> string \<Rightarrow> lmodule \<Rightarrow> view_extension_ref list \<Rightarrow> diagnostic list \<Rightarrow> applied_extension list \<Rightarrow>
    applied_extension list \<times> diagnostic list \<times> view_failure option" where
  "apply_view_refs ms name m [] ds applied = (applied, ds, None)"
| "apply_view_refs ms name m (ref # refs) ds applied =
     (case view_ref_outcome ms name m ref of
        RefSkip \<Rightarrow> apply_view_refs ms name m refs ds applied
      | RefFail e \<Rightarrow> (applied, ds, Some e)
      | RefWarn d \<Rightarrow> apply_view_refs ms name m refs (ds @ [d]) applied
      | RefApply a \<Rightarrow> apply_view_refs ms name m refs ds (applied @ [a]))"

definition extend_views :: "applied_extension list \<Rightarrow> string \<Rightarrow> lmodule \<Rightarrow> lmodules \<Rightarrow> applied_extension list \<times> (lmodule \<Rightarrow> lmodule)" where
  "extend_views applied name m ms =
     (case apply_view_refs ms name m (mf_ViewExtensions (lm_Manifest m)) [] applied of
        (applied', ds, None) \<Rightarrow> (applied', Warn ds)
      | (applied', ds, Some e) \<Rightarrow> (applied', \<lambda>m. Fail (ViewFailure e) (Warn ds m)))"

definition ValidateViewExtensions :: "lmodules \<Rightarrow> applied_extension list \<times> lmodules" where
  "ValidateViewExtensions ms = sweep extend_views (map fst ms) [] (clear_rule RuleMissingSection ms)"

end
