(* ===== verification/Module_Checks_Props.thy ===== *)
theory Module_Checks_Props
  imports Module_Checks
begin

text \<open>
  The conditions the checks of \<^verbatim>\<open>internal/engine/loader\<close> leave the surviving modules in: a check that fails no
  module has found its condition true of all of them.
\<close>

section \<open>Survivors\<close>

lemma survivors_iff: "(n, m) \<in> set (survivors ms) \<longleftrightarrow> (n, m) \<in> set ms \<and> \<not> failed m"
  by (auto simp: survivors_def)

lemma map_of_survivors:
  "distinct (map fst ms) \<Longrightarrow>
    map_of (survivors ms) n = (case map_of ms n of None \<Rightarrow> None | Some m \<Rightarrow> if failed m then None else Some m)"
proof (induction ms)
  case (Cons x ms)
  then show ?case
    by (cases x) (auto simp: survivors_def map_of_eq_None_iff dest: map_of_SomeD split: option.splits)
qed (simp add: survivors_def)

lemma alive_survivors: "distinct (map fst ms) \<Longrightarrow> alive ms n \<longleftrightarrow> n \<in> fst ` set (survivors ms)"
proof -
  assume "distinct (map fst ms)"
  then have "(n, m) \<in> set ms \<longleftrightarrow> map_of ms n = Some m" for m by simp
  then show "alive ms n \<longleftrightarrow> n \<in> fst ` set (survivors ms)"
    by (auto simp: alive_def image_iff Bex_def survivors_iff split: option.splits)
qed

lemma alive_member: "distinct (map fst ms) \<Longrightarrow> (n, m) \<in> set ms \<Longrightarrow> alive ms n \<longleftrightarrow> \<not> failed m"
  by (simp add: alive_def)

lemma quiet_map: "quiet ms (map (\<lambda>(n, m). (n, g m)) ms) \<Longrightarrow> (n, m) \<in> set ms \<Longrightarrow> failed (g m) = failed m"
proof (induction ms)
  case (Cons x ms)
  obtain n' m' where x: "x = (n', m')" by (cases x)
  from Cons.prems(1) have "face m' = face (g m')" "quiet ms (map (\<lambda>(n, m). (n, g m)) ms)" by (simp_all add: x)
  moreover from this(1) have "failed (g m') = failed m'" by (metis face_simps(7))
  ultimately show ?case using Cons.prems(2) Cons.IH by (auto simp: x)
qed simp

lemma map_on_alive: "map (on_alive g) ms = map (\<lambda>(n, m). (n, if failed m then m else g m)) ms"
  by (auto simp: on_alive_def)

lemma map_on_alive_clear:
  "map (on_alive g) (clear_rule rule ms) =
     map (\<lambda>(n, m). (n, if failed m then ClearDiagnostics rule m else g (ClearDiagnostics rule m))) ms"
  by (auto simp: on_alive_def clear_rule_def)

lemma demoted_Fail_Warn [simp]: "demoted m (Fail r (Warn ds m))"
  by (rule demoted_trans[OF demoted_Warn demoted_Fail])

lemma Warn_manifest [simp]: "lm_Manifest (Warn ds m) = lm_Manifest m"
  by (simp add: Warn_def)

lemma Clear_simps [simp]:
  "lm_Manifest (ClearDiagnostics r m) = lm_Manifest m" "lm_ExplicitRoutes (ClearDiagnostics r m) = lm_ExplicitRoutes m"
  "lm_ModelDecls (ClearDiagnostics r m) = lm_ModelDecls m" "lm_ModelExtensions (ClearDiagnostics r m) = lm_ModelExtensions m"
  by (simp_all add: ClearDiagnostics_def)

section \<open>Event subscriptions\<close>

definition subscriptions_ok :: "lmodules \<Rightarrow> bool" where
  "subscriptions_ok L \<longleftrightarrow>
     (\<forall>(n, m) \<in> set L. \<forall>s \<in> set (mf_Subscribes (lm_Manifest m)).
        EventSubscriptionProblem s (emits_of L (sub_Name s)) = None \<or>
        fst (cut (CHR ''.'') (sub_Name s)) \<in> set (mf_SoftDependsOn (lm_Manifest m)))"

lemma demoted_subscribe_all: "demoted m (subscribe_all emits ss m)"
proof (induction emits ss m rule: subscribe_all.induct)
  case (2 emits s ss m)
  then show ?case by (auto split: option.splits intro: demoted_trans[OF demoted_Warn])
qed simp

lemma subscribe_all_failed:
  "\<not> failed m \<Longrightarrow> \<not> failed (subscribe_all emits ss m) \<longleftrightarrow>
     (\<forall>s \<in> set ss. EventSubscriptionProblem s (emits (sub_Name s)) = None \<or>
        fst (cut (CHR ''.'') (sub_Name s)) \<in> set (mf_SoftDependsOn (lm_Manifest m)))"
  by (induction emits ss m rule: subscribe_all.induct) (auto split: option.splits)

lemma emits_of_survivors: "emits_of (survivors ms) = emits_of ms"
proof
  fix name show "emits_of (survivors ms) name = emits_of ms name"
    by (induction ms) (auto simp: emits_of_def survivors_def)
qed

lemma emits_of_face: "emits_of (map (map_prod id face) ms) = emits_of ms"
proof
  fix name show "emits_of (map (map_prod id face) ms) name = emits_of ms name"
    by (induction ms) (auto simp: emits_of_def)
qed

interpretation events: check_pass ValidateEventSubscriptions subscriptions_ok
proof
  fix ms
  show "demotes ms (ValidateEventSubscriptions ms)"
    unfolding ValidateEventSubscriptions_def map_on_alive_clear
    by (rule demotes_map) (auto intro: demoted_trans[OF demoted_ClearDiagnostics] demoted_subscribe_all)
  assume q: "quiet ms (ValidateEventSubscriptions ms)"
  show "subscriptions_ok (survivors ms)"
    unfolding subscriptions_ok_def emits_of_survivors
  proof (intro ballI, clarify)
    fix n m s assume m: "(n, m) \<in> set (survivors ms)" "s \<in> set (mf_Subscribes (lm_Manifest m))"
    then have alive: "(n, m) \<in> set ms" "\<not> failed m" by (auto simp: survivors_iff)
    with quiet_map[OF q[unfolded ValidateEventSubscriptions_def map_on_alive_clear], of n m]
    have "\<not> failed (subscribe_all (emits_of ms) (mf_Subscribes (lm_Manifest m)) (ClearDiagnostics RuleMissingEmitter m))"
      by simp
    moreover assume "fst (cut (CHR ''.'') (sub_Name s)) \<notin> set (mf_SoftDependsOn (lm_Manifest m))"
    ultimately show "EventSubscriptionProblem s (emits_of ms (sub_Name s)) = None"
      using alive(2) m(2) by (auto simp: subscribe_all_failed)
  qed
next
  fix ms
  show "subscriptions_ok (map (map_prod id face) ms) = subscriptions_ok ms"
    unfolding subscriptions_ok_def emits_of_face by (fastforce simp: map_prod_def)
qed

section \<open>Configuration\<close>

definition config_ref_ok :: "lmodules \<Rightarrow> lmodule \<Rightarrow> uses_config_ref \<Rightarrow> bool" where
  "config_ref_ok L m ref \<longleftrightarrow>
     (case cut (CHR ''.'') (uc_Key ref) of
        (owner, key, _) \<Rightarrow>
          (case map_of L owner of
             None \<Rightarrow> owner \<in> set (mf_SoftDependsOn (lm_Manifest m))
           | Some m' \<Rightarrow>
               (case findConfigEntry (mf_ConfigSchema (lm_Manifest m')) key of
                  None \<Rightarrow> False
                | Some entry \<Rightarrow> ce_Type entry = uc_Type ref)))"

definition config_ok :: "lmodules \<Rightarrow> bool" where
  "config_ok L \<longleftrightarrow> (\<forall>(n, m) \<in> set L. list_all (config_ref_ok L m) (mf_UsesConfig (lm_Manifest m)))"

lemma resolve_config_ref_ok:
  "distinct (map fst ms) \<Longrightarrow> resolve_config_ref ms m ref = Inr entry \<Longrightarrow> config_ref_ok (survivors ms) m ref"
  unfolding resolve_config_ref_def config_ref_ok_def
  by (auto simp: map_of_survivors simp del: map_of_eq_Some_iff split: prod.splits option.splits if_splits)

lemma resolve_config_all:
  "resolve_config ms m refs = Inr out \<Longrightarrow> ref \<in> set refs \<Longrightarrow> \<exists>entry. resolve_config_ref ms m ref = Inr entry"
  by (induction refs arbitrary: out) (auto simp: and_then_Inr_iff)

lemma config_ref_face: "config_ref_ok (map (map_prod id face) L) (face m) ref = config_ref_ok L m ref"
  by (simp add: config_ref_ok_def map_of_face split: prod.splits option.splits)

lemma set_face: "(\<forall>(n, m) \<in> set (map (map_prod id face) L). P n m) \<longleftrightarrow> (\<forall>(n, m) \<in> set L. P n (face m))"
  by (auto simp: map_prod_def)

interpretation config: check_pass ValidateUsesConfig config_ok
proof
  fix ms
  show "demotes ms (ValidateUsesConfig ms)"
    unfolding ValidateUsesConfig_def map_on_alive
    by (rule demotes_map) (auto simp: uses_config_def split: sum.splits)
  assume dist: "distinct (map fst ms)" and q: "quiet ms (ValidateUsesConfig ms)"
  show "config_ok (survivors ms)"
    unfolding config_ok_def
  proof clarify
    fix n m assume m: "(n, m) \<in> set (survivors ms)"
    then have alive: "(n, m) \<in> set ms" "\<not> failed m" by (auto simp: survivors_iff)
    with quiet_map[OF q[unfolded ValidateUsesConfig_def map_on_alive], of n m]
    have "\<not> failed (uses_config ms m)" by simp
    then obtain out where "resolve_config ms m (mf_UsesConfig (lm_Manifest m)) = Inr out"
      by (auto simp: uses_config_def split: sum.splits)
    then show "list_all (config_ref_ok (survivors ms) m) (mf_UsesConfig (lm_Manifest m))"
      using resolve_config_all resolve_config_ref_ok[OF dist] by (fastforce simp: list_all_iff)
  qed
next
  fix ms
  show "config_ok (map (map_prod id face) ms) = config_ok ms"
    unfolding config_ok_def set_face by (simp add: config_ref_face list_all_iff)
qed

section \<open>Permissions\<close>

definition permission_use_ok :: "lmodules \<Rightarrow> manifest \<Rightarrow> string \<Rightarrow> bool" where
  "permission_use_ok L mf perm \<longleftrightarrow>
     (let owner = fst (cut (CHR '':'') perm)
      in (owner \<in> set (mf_SoftDependsOn mf) \<or> owner \<in> set (mf_DependsOn mf)) \<and>
         (case map_of L owner of
            None \<Rightarrow> owner \<in> set (mf_SoftDependsOn mf)
          | Some m' \<Rightarrow> declaresPermission m' perm))"

definition permissions_ok :: "lmodules \<Rightarrow> bool" where
  "permissions_ok L \<longleftrightarrow>
     (\<forall>(n, m) \<in> set L.
        list_all (permission_use_ok L (lm_Manifest m)) (mf_UsesPermissions (lm_Manifest m)) \<and>
        (\<forall>(p, site) \<in> set (permissionReferences m).
           declaresPermission m p \<or> p \<in> set (mf_UsesPermissions (lm_Manifest m))))"

lemma uses_owners_ok:
  assumes "distinct (map fst ms)" "snd (checkUsesPermissionOwners ms mf perms ds) = None"
  shows "list_all (permission_use_ok (survivors ms) mf) perms"
  using assms(2)
  by (induction perms arbitrary: ds)
    (auto simp: Let_def permission_use_ok_def map_of_survivors[OF assms(1)] split: if_splits option.splits)

lemma references_ok:
  "checkPermissionReferences m = None \<Longrightarrow> (p, site) \<in> set (permissionReferences m) \<Longrightarrow>
     declaresPermission m p \<or> p \<in> set (mf_UsesPermissions (lm_Manifest m))"
  by (auto simp: checkPermissionReferences_def Let_def find_None_iff declaresPermission_def list_ex_iff)

lemma permissionReferences_face [simp]: "permissionReferences (face m) = permissionReferences m"
  by (simp add: permissionReferences_def)

lemma permissionReferences_Clear [simp]: "permissionReferences (ClearDiagnostics r m) = permissionReferences m"
  by (simp add: permissionReferences_def)

lemma declaresPermission_face [simp]: "declaresPermission (face m) p = declaresPermission m p"
  by (simp add: declaresPermission_def)

lemma permission_use_face: "permission_use_ok (map (map_prod id face) L) mf p = permission_use_ok L mf p"
  by (simp add: permission_use_ok_def map_of_face Let_def split: option.splits)

lemma uses_permissions_passed:
  assumes "\<not> failed (uses_permissions ms (ClearDiagnostics r m))"
  shows "snd (checkUsesPermissionOwners ms (lm_Manifest m) (mf_UsesPermissions (lm_Manifest m)) []) = None \<and>
    checkPermissionReferences m = None"
proof -
  have "checkPermissionReferences (ClearDiagnostics r m) = checkPermissionReferences m"
    by (simp add: checkPermissionReferences_def)
  with assms show ?thesis by (auto simp: uses_permissions_def split: prod.splits option.splits)
qed

interpretation permissions: check_pass ValidateUsesPermissions permissions_ok
proof
  fix ms
  have "demoted m (uses_permissions ms m)" for m
    by (auto simp: uses_permissions_def split: prod.splits option.splits)
  then show "demotes ms (ValidateUsesPermissions ms)"
    unfolding ValidateUsesPermissions_def map_on_alive_clear
    by (intro demotes_map) (auto intro: demoted_trans[OF demoted_ClearDiagnostics])
  assume dist: "distinct (map fst ms)" and q: "quiet ms (ValidateUsesPermissions ms)"
  show "permissions_ok (survivors ms)"
    unfolding permissions_ok_def
  proof (intro ballI, unfold case_prod_unfold, intro conjI)
    fix x assume "x \<in> set (survivors ms)"
    then have alive: "(fst x, snd x) \<in> set ms" "\<not> failed (snd x)" by (auto simp: survivors_iff split: prod.splits) (auto simp: survivors_def)
    with quiet_map[OF q[unfolded ValidateUsesPermissions_def map_on_alive_clear], of "fst x" "snd x"]
    have "\<not> failed (uses_permissions ms (ClearDiagnostics RuleMissingPermissionOwner (snd x)))" by simp
    note passed = uses_permissions_passed[OF this]
    show "list_all (permission_use_ok (survivors ms) (lm_Manifest (snd x))) (mf_UsesPermissions (lm_Manifest (snd x)))"
      using uses_owners_ok[OF dist] passed by blast
    show "\<forall>r \<in> set (permissionReferences (snd x)).
        declaresPermission (snd x) (fst r) \<or> fst r \<in> set (mf_UsesPermissions (lm_Manifest (snd x)))"
      using references_ok[of "snd x"] passed by fastforce
  qed
next
  fix ms
  show "permissions_ok (map (map_prod id face) ms) = permissions_ok ms"
    unfolding permissions_ok_def set_face by (simp add: permission_use_face list_all_iff)
qed

section \<open>View extensions\<close>

definition view_ref_ok :: "lmodules \<Rightarrow> string \<Rightarrow> lmodule \<Rightarrow> view_extension_ref \<Rightarrow> bool" where
  "view_ref_ok L n m ref \<longleftrightarrow> (case view_ref_outcome L n m ref of RefFail _ \<Rightarrow> False | _ \<Rightarrow> True)"

definition views_ok :: "lmodules \<Rightarrow> bool" where
  "views_ok L \<longleftrightarrow> (\<forall>(n, m) \<in> set L. list_all (view_ref_ok L n m) (mf_ViewExtensions (lm_Manifest m)))"

lemma apply_view_extension_face: "apply_view_extension n (face m) ref d v = apply_view_extension n m ref d v"
  by (simp add: apply_view_extension_def)

lemma view_ref_face: "view_ref_outcome (map (map_prod id face) L) n (face m) ref = view_ref_outcome L n m ref"
  by (simp add: view_ref_outcome_def map_of_face apply_view_extension_face split: prod.splits option.splits)

lemma view_ref_survivors:
  "distinct (map fst ms) \<Longrightarrow> view_ref_outcome (survivors ms) n m ref = view_ref_outcome ms n m ref"
  unfolding view_ref_outcome_def
  by (auto simp: map_of_survivors simp del: map_of_eq_Some_iff split: prod.splits option.splits)

lemma apply_view_refs_ok:
  "apply_view_refs ms n m refs ds applied = (applied', ds', None) \<Longrightarrow> list_all (view_ref_ok ms n m) refs"
  by (induction refs arbitrary: ds applied) (auto simp: view_ref_ok_def split: ref_outcome.splits)

lemma demoted_extend_views: "demoted x (snd (extend_views s n m ms) x)"
  by (auto simp: extend_views_def split: prod.splits option.splits)

lemma demotes_clear: "demotes ms (clear_rule rule ms)"
  unfolding clear_rule_def by (rule demotes_map) simp

lemma clear_keys [simp]: "map fst (clear_rule rule ms) = map fst ms"
  by (rule demotes_keys[OF demotes_clear])

interpretation views: check_pass "\<lambda>ms. snd (ValidateViewExtensions ms)" views_ok
proof
  fix ms
  let ?ms0 = "clear_rule RuleMissingSection ms"
  have d: "demotes ms ?ms0" "demotes ?ms0 (snd (ValidateViewExtensions ms))"
    unfolding ValidateViewExtensions_def by (rule demotes_clear, rule sweep_demotes[OF demoted_extend_views])
  then show "demotes ms (snd (ValidateViewExtensions ms))" by (rule demotes_trans)
  assume dist: "distinct (map fst ms)" and q: "quiet ms (snd (ValidateViewExtensions ms))"
  from quiet_between[OF d q] have q0: "quiet ms ?ms0" and q1: "quiet ?ms0 (snd (ValidateViewExtensions ms))" by auto
  show "views_ok (survivors ms)"
    unfolding views_ok_def
  proof clarify
    fix n m assume "(n, m) \<in> set (survivors ms)"
    then have m: "(n, m) \<in> set ms" "\<not> failed m" by (auto simp: survivors_iff)
    then obtain xs ys where keys: "map fst ms = xs @ n # ys" by (metis fst_conv image_eqI list.set_map split_list)
    have "alive ?ms0 n" using alive_member[OF dist m(1)] m(2) quiet_alive[OF q0, of n] by simp
    from sweep_visit[OF demoted_extend_views q1[unfolded ValidateViewExtensions_def keys] this]
    obtain s1 ms1 m1 where v: "quiet ?ms0 ms1" "map_of ms1 n = Some m1" "\<not> failed (snd (extend_views s1 n m1 ms1) m1)" by blast
    then have ok: "list_all (view_ref_ok ms1 n m1) (mf_ViewExtensions (lm_Manifest m1))"
      by (auto simp: extend_views_def intro: apply_view_refs_ok split: prod.splits option.splits)
    have q2: "quiet ms1 ms" using v(1) q0 quiet_sym quiet_trans by blast
    have "face m = face m1" using quiet_map_of[OF q2 v(2)] dist m(1) by auto
    moreover have "map (map_prod id face) ms1 = map (map_prod id face) ms" using q2 by (simp add: quiet_def)
    ultimately have "view_ref_outcome ms n m ref = view_ref_outcome ms1 n m1 ref" for ref
      using view_ref_face[of ms n m ref] view_ref_face[of ms1 n m1 ref] by simp
    moreover have "lm_Manifest m = lm_Manifest m1" using \<open>face m = face m1\<close> face_simps(1) by metis
    ultimately show "list_all (view_ref_ok (survivors ms) n m) (mf_ViewExtensions (lm_Manifest m))"
      using ok by (simp add: list_all_iff view_ref_ok_def view_ref_survivors[OF dist])
  qed
next
  fix ms
  show "views_ok (map (map_prod id face) ms) = views_ok ms"
    unfolding views_ok_def set_face by (simp add: view_ref_ok_def view_ref_face list_all_iff)
qed

section \<open>Declarations\<close>

definition manifest_at :: "lmodules \<Rightarrow> string \<Rightarrow> manifest" where
  "manifest_at ms n = lm_Manifest (the (map_of ms n))"

definition register_in :: "(string \<Rightarrow> string) \<Rightarrow> lmodules \<Rightarrow> string \<Rightarrow> node \<Rightarrow> (route_error, node) result" where
  "register_in inflect ms n table =
     (let m = the (map_of ms n)
      in case RegisterRoutes inflect n (mf_Type (lm_Manifest m)) (ExplicitRoutesFrom (lm_ExplicitRoutes m)) (lm_ModelDecls m) table of
           (_, Inl e) \<Rightarrow> Inl e
         | (table', Inr _) \<Rightarrow> Inr table')"

definition compatible :: "string \<times> manifest \<Rightarrow> string \<times> manifest \<Rightarrow> bool" where
  "compatible = (\<lambda>(n, mf) (n', mf').
     set (mf_OwnedModels mf) \<inter> set (mf_OwnedModels mf') = {} \<and>
     perm_Name ` set (mf_Permissions mf) \<inter> perm_Name ` set (mf_Permissions mf') = {} \<and>
     (mf_OAuthProvider mf = None \<or> mf_OAuthProvider mf \<noteq> mf_OAuthProvider mf') \<and>
     (mf_Name mf = n \<and> mf_Name mf' = n' \<longrightarrow> n' \<notin> set (mf_ConflictsWith mf) \<and> n \<notin> set (mf_ConflictsWith mf')))"

definition declared_ok :: "(string \<Rightarrow> string) \<Rightarrow> lmodules \<Rightarrow> bool" where
  "declared_ok inflect L \<longleftrightarrow>
     (\<forall>(n, m) \<in> set L. set (mf_DependsOn (lm_Manifest m)) \<subseteq> fst ` set L \<and> list_all (report_ok L) (mf_ReportOverrides (lm_Manifest m))) \<and>
     (\<forall>n \<in> fst ` set L. \<forall>n' \<in> fst ` set L. n \<noteq> n' \<longrightarrow> compatible (n, manifest_at L n) (n', manifest_at L n')) \<and>
     (\<exists>names table. distinct names \<and> set names = fst ` set L \<and> fold_res (register_in inflect L) names New = Inr table)"

lemma compatible_sym: "compatible x y \<longleftrightarrow> compatible y x"
  by (cases x; cases y) (auto simp: compatible_def)

lemma demoted_declare: "demoted x (snd (declare_module inflect cl n m ms) x)"
  by (auto simp: declare_module_def split: option.splits prod.splits sum.splits)

lemma declare_passed:
  assumes "\<not> failed (snd (declare_module inflect cl n m ms) x)"
  obtains table sup where "checkModuleDeclarations m ms cl = None"
    "RegisterRoutes inflect n (mf_Type (lm_Manifest m)) (ExplicitRoutesFrom (lm_ExplicitRoutes m)) (lm_ModelDecls m) (cl_table cl) = (table, Inr sup)"
    "declare_module inflect cl n m ms = (claim n (lm_Manifest m) (cl\<lparr>cl_table := table\<rparr>), id)"
  using assms by (auto simp: declare_module_def split: option.splits prod.splits sum.splits)

definition claimed :: "(string \<Rightarrow> string) \<Rightarrow> lmodules \<Rightarrow> string list \<Rightarrow> claims \<Rightarrow> bool" where
  "claimed inflect ms names cl \<longleftrightarrow>
     set (cl_incumbents cl) = set names \<and>
     fst ` set (cl_models cl) = (\<Union>n \<in> set names. set (mf_OwnedModels (manifest_at ms n))) \<and>
     fst ` set (cl_permissions cl) = (\<Union>n \<in> set names. perm_Name ` set (mf_Permissions (manifest_at ms n))) \<and>
     fst ` set (cl_providers cl) = {p. \<exists>n \<in> set names. mf_OAuthProvider (manifest_at ms n) = Some p} \<and>
     fold_res (register_in inflect ms) names New = Inr (cl_table cl)"

lemma claimed_claim:
  assumes "claimed inflect ms names cl" "manifest_at ms n = mf" "register_in inflect ms n (cl_table cl) = Inr table"
  shows "claimed inflect ms (names @ [n]) (claim n mf (cl\<lparr>cl_table := table\<rparr>))"
  using assms unfolding claimed_def claim_def
  by (auto simp: fold_res_append image_Un image_comp comp_def split: option.splits)

lemma sweep_prefix_quiet:
  assumes body: "\<And>s n m ms x. demoted x (snd (body s n m ms) x)"
    and q: "quiet ms (snd (sweep body (xs @ ys) s ms))"
  shows "quiet ms (snd (sweep body xs s ms))"
proof -
  obtain s1 ms1 where xs: "sweep body xs s ms = (s1, ms1)" by fastforce
  have d1: "demotes ms ms1" using sweep_demotes[where body = body and ms = ms and ns = xs and s = s, OF body] xs by simp
  have d2: "demotes ms1 (snd (sweep body ys s1 ms1))" by (rule sweep_demotes[OF body])
  have "quiet ms (snd (sweep body ys s1 ms1))" using q by (simp add: sweep_append xs)
  from quiet_between[OF d1 d2 this] show ?thesis by (simp add: xs)
qed

lemma quiet_at:
  assumes "quiet ms ms1" "map_of ms1 n = Some m1"
  shows "manifest_at ms n = lm_Manifest m1" "register_in inflect ms n = register_in inflect ms1 n"
proof -
  obtain m where m: "map_of ms n = Some m" "face m = face m1" using quiet_map_of[OF quiet_sym[OF assms(1)] assms(2)] by auto
  from m(2) have "lm_Manifest m = lm_Manifest m1" "lm_ExplicitRoutes m = lm_ExplicitRoutes m1" "lm_ModelDecls m = lm_ModelDecls m1"
    by (metis face_simps(1), metis face_simps(3), metis face_simps(4))
  with m(1) assms(2) show "manifest_at ms n = lm_Manifest m1" "register_in inflect ms n = register_in inflect ms1 n"
    by (auto simp: manifest_at_def register_in_def)
qed

lemma sweep_claimed:
  "quiet ms (snd (sweep (declare_module inflect) ns no_claims ms)) \<Longrightarrow>
     claimed inflect ms (filter (alive ms) ns) (fst (sweep (declare_module inflect) ns no_claims ms))"
proof (induction ns rule: rev_induct)
  case Nil
  then show ?case by (simp add: claimed_def no_claims_def)
next
  case (snoc n ns)
  let ?sw = "sweep (declare_module inflect)"
  have IH: "claimed inflect ms (filter (alive ms) ns) (fst (?sw ns no_claims ms))"
    by (rule snoc.IH[OF sweep_prefix_quiet[OF demoted_declare snoc.prems]])
  have q1: "quiet ms (snd (?sw ns no_claims ms))" by (rule sweep_prefix_quiet[OF demoted_declare snoc.prems])
  show ?case
  proof (cases "alive ms n")
    case False
    obtain s1 ms1 where sw: "?sw ns no_claims ms = (s1, ms1)" by fastforce
    have "\<not> alive ms1 n" using False q1 quiet_alive[of ms ms1 n] by (simp add: sw)
    then have "?sw (ns @ [n]) no_claims ms = (s1, ms1)"
      by (auto simp: sweep_append sw alive_def split: option.splits)
    with IH False show ?thesis by (simp add: sw)
  next
    case True
    from sweep_visit[OF demoted_declare snoc.prems True]
    obtain s1 ms1 m1 where v: "?sw ns no_claims ms = (s1, ms1)" "quiet ms ms1" "map_of ms1 n = Some m1" "\<not> failed m1"
      "\<not> failed (snd (declare_module inflect s1 n m1 ms1) m1)" by blast
    from v(5) obtain table sup where d:
      "RegisterRoutes inflect n (mf_Type (lm_Manifest m1)) (ExplicitRoutesFrom (lm_ExplicitRoutes m1)) (lm_ModelDecls m1) (cl_table s1) = (table, Inr sup)"
      "declare_module inflect s1 n m1 ms1 = (claim n (lm_Manifest m1) (s1\<lparr>cl_table := table\<rparr>), id)"
      by (rule declare_passed)
    have "register_in inflect ms n (cl_table s1) = Inr table"
      unfolding quiet_at(2)[OF v(2,3)] by (simp add: register_in_def v(3) d(1))
    moreover have "claimed inflect ms (filter (alive ms) ns) s1" using IH by (simp add: v(1))
    ultimately have "claimed inflect ms (filter (alive ms) ns @ [n]) (claim n (lm_Manifest m1) (s1\<lparr>cl_table := table\<rparr>))"
      using quiet_at(1)[OF v(2,3)] by (intro claimed_claim)
    moreover have "fst (?sw (ns @ [n]) no_claims ms) = claim n (lm_Manifest m1) (s1\<lparr>cl_table := table\<rparr>)"
      using v(1,3,4) d(2) by (simp add: sweep_append)
    ultimately show ?thesis using True by simp
  qed
qed

lemma no_collision:
  "FindPermissionCollision owners perms = None \<longleftrightarrow> perm_Name ` set perms \<inter> fst ` set owners = {}"
  by (auto simp: FindPermissionCollision_def find_None_iff map_of_eq_None_iff image_iff split: option.splits
      dest!: find_SomeD)

lemma check_declarations_ok:
  assumes check: "checkModuleDeclarations m ms1 cl = None" and cl: "claimed inflect ms names cl" and q: "quiet ms ms1"
  shows "\<forall>d \<in> set (mf_DependsOn (lm_Manifest m)). alive ms d"
    "list_all (report_ok ms1) (mf_ReportOverrides (lm_Manifest m))"
    "n' \<in> set names \<Longrightarrow> alive ms n' \<Longrightarrow> n' \<noteq> n \<Longrightarrow> compatible (n, lm_Manifest m) (n', manifest_at ms n')"
proof -
  note parts = check[unfolded checkModuleDeclarations_def Let_def]
  show "\<forall>d \<in> set (mf_DependsOn (lm_Manifest m)). alive ms d"
    using parts by (auto simp: find_None_iff quiet_alive[OF q] split: option.splits)
  show "list_all (report_ok ms1) (mf_ReportOverrides (lm_Manifest m))"
    using parts by (auto simp: find_None_iff list_all_iff split: option.splits)
  assume n': "n' \<in> set names" "alive ms n'" "n' \<noteq> n"
  have conflict: "\<not> in_conflict ms1 (lm_Manifest m) n'"
    using parts n'(1) cl by (auto simp: find_None_iff claimed_def split: option.splits)
  have "\<forall>owned \<in> set (mf_OwnedModels (lm_Manifest m)). owned \<notin> fst ` set (cl_models cl)"
    using parts by (auto simp: find_None_iff map_of_eq_None_iff image_iff split: option.splits)
  then have models: "set (mf_OwnedModels (lm_Manifest m)) \<inter> set (mf_OwnedModels (manifest_at ms n')) = {}"
    using cl n'(1) by (auto simp: claimed_def)
  have "FindPermissionCollision (cl_permissions cl) (mf_Permissions (lm_Manifest m)) = None"
    using parts by (auto split: option.splits)
  then have perms: "perm_Name ` set (mf_Permissions (lm_Manifest m)) \<inter> perm_Name ` set (mf_Permissions (manifest_at ms n')) = {}"
    using cl n'(1) unfolding no_collision by (auto simp: claimed_def)
  have "p \<notin> fst ` set (cl_providers cl)" if "mf_OAuthProvider (lm_Manifest m) = Some p" for p
    using parts that by (auto simp: map_of_eq_None_iff split: option.splits)
  then have provider: "mf_OAuthProvider (lm_Manifest m) = None \<or> mf_OAuthProvider (lm_Manifest m) \<noteq> mf_OAuthProvider (manifest_at ms n')"
    using cl n'(1) by (cases "mf_OAuthProvider (manifest_at ms n')") (auto simp: claimed_def)
  obtain m' where m': "map_of ms1 n' = Some m'" "\<not> failed m'"
    using n'(2) quiet_alive[OF q, of n'] by (auto simp: alive_def split: option.splits)
  with conflict n'(3) have "mf_Name (lm_Manifest m) = n \<longrightarrow>
      n' \<notin> set (mf_ConflictsWith (lm_Manifest m)) \<and> n \<notin> set (mf_ConflictsWith (manifest_at ms n'))"
    unfolding quiet_at(1)[OF q m'(1)] by (auto simp: in_conflict_def)
  with models perms provider show "compatible (n, lm_Manifest m) (n', manifest_at ms n')"
    by (simp add: compatible_def)
qed

lemma report_ok_face: "report_ok (map (map_prod id face) L) r = report_ok L r"
  by (simp add: report_ok_def map_of_face split: prod.splits option.splits)

lemma report_ok_survivors: "distinct (map fst ms) \<Longrightarrow> report_ok (survivors ms) r = report_ok ms r"
  unfolding report_ok_def
  by (auto simp: map_of_survivors simp del: map_of_eq_Some_iff split: prod.splits option.splits)

lemma report_ok_quiet: "quiet ms ms1 \<Longrightarrow> report_ok ms1 r = report_ok ms r"
  unfolding quiet_def using report_ok_face by metis

lemma at_face: "n \<in> fst ` set L \<Longrightarrow> manifest_at (map (map_prod id face) L) n = manifest_at L n"
  "n \<in> fst ` set L \<Longrightarrow> register_in inflect (map (map_prod id face) L) n = register_in inflect L n"
  by (auto simp: manifest_at_def register_in_def map_of_face fun_eq_iff dest!: weak_map_of_SomeI)

lemma at_survivors:
  assumes "distinct (map fst ms)" "alive ms n"
  shows "manifest_at (survivors ms) n = manifest_at ms n" "register_in inflect (survivors ms) n = register_in inflect ms n"
  using assms(2) by (auto simp: manifest_at_def register_in_def fun_eq_iff map_of_survivors[OF assms(1)] alive_def
      simp del: map_of_eq_Some_iff split: option.splits)

lemma fold_res_cong:
  "(\<And>x s. x \<in> set xs \<Longrightarrow> f x s = g x s) \<Longrightarrow> fold_res f xs s = fold_res g xs s"
  by (induction xs arbitrary: s) (auto split: sum.splits)

lemma declared_visit:
  assumes dist: "distinct (map fst ms)" and q: "quiet ms (validateModuleDeclarations inflect ms)"
    and order: "validationOrder ms = xs @ n # ys" and m: "(n, m) \<in> set ms" "\<not> failed m"
  shows "set (mf_DependsOn (lm_Manifest m)) \<subseteq> {d. alive ms d}"
    "list_all (report_ok ms) (mf_ReportOverrides (lm_Manifest m))"
    "n' \<in> set xs \<Longrightarrow> alive ms n' \<Longrightarrow> n' \<noteq> n \<Longrightarrow> compatible (n, manifest_at ms n) (n', manifest_at ms n')"
proof -
  have q': "quiet ms (snd (sweep (declare_module inflect) (xs @ n # ys) no_claims ms))"
    using q by (simp add: validateModuleDeclarations_def order)
  have "alive ms n" using alive_member[OF dist m(1)] m(2) by simp
  from sweep_visit[OF demoted_declare q' this]
  obtain s1 ms1 m1 where v: "sweep (declare_module inflect) xs no_claims ms = (s1, ms1)" "quiet ms ms1" "map_of ms1 n = Some m1"
    "\<not> failed (snd (declare_module inflect s1 n m1 ms1) m1)" by blast
  have cl: "claimed inflect ms (filter (alive ms) xs) s1"
    using sweep_claimed[OF sweep_prefix_quiet[OF demoted_declare q']] by (simp add: v(1))
  have check: "checkModuleDeclarations m1 ms1 s1 = None" using v(4) by (rule declare_passed)
  have mf: "lm_Manifest m1 = lm_Manifest m" "manifest_at ms n = lm_Manifest m"
    using quiet_at(1)[OF v(2,3)] dist m(1) by (simp_all add: manifest_at_def)
  note ok = check_declarations_ok[OF check cl v(2), unfolded mf(1)]
  show "set (mf_DependsOn (lm_Manifest m)) \<subseteq> {d. alive ms d}" using ok(1) by blast
  show "list_all (report_ok ms) (mf_ReportOverrides (lm_Manifest m))"
    using ok(2) by (simp add: report_ok_quiet[OF v(2)] list_all_iff)
  show "compatible (n, manifest_at ms n) (n', manifest_at ms n')" if "n' \<in> set xs" "alive ms n'" "n' \<noteq> n"
    unfolding mf(2) using ok(3)[of n' n] that by simp
qed

lemma order_split:
  assumes "distinct ns" "a \<in> set ns" "b \<in> set ns" "a \<noteq> b"
  shows "(\<exists>xs ys. ns = xs @ a # ys \<and> b \<in> set xs) \<or> (\<exists>xs ys. ns = xs @ b # ys \<and> a \<in> set xs)"
proof -
  obtain xs ys where ns: "ns = xs @ a # ys" using assms(2) by (meson split_list)
  show ?thesis
  proof (cases "b \<in> set xs")
    case True
    then show ?thesis using ns by blast
  next
    case False
    with assms(3,4) ns have "b \<in> set ys" by auto
    then obtain us vs where "ys = us @ b # vs" by (meson split_list)
    with ns have "ns = (xs @ a # us) @ b # vs" "a \<in> set (xs @ a # us)" by auto
    then show ?thesis by blast
  qed
qed

lemma validationOrder_keys: "set (validationOrder ms) = fst ` set ms" "distinct (map fst ms) \<Longrightarrow> distinct (validationOrder ms)"
  by (simp_all add: validationOrder_def load_sorted_def distinct_sort)

lemma declared_survivors:
  assumes dist: "distinct (map fst ms)" and q: "quiet ms (validateModuleDeclarations inflect ms)"
  shows "declared_ok inflect (survivors ms)"
  unfolding declared_ok_def
proof (intro conjI ballI impI)
  have keys: "fst ` set (survivors ms) = {n. alive ms n}" using alive_survivors[OF dist] by auto
  fix x assume mem: "x \<in> set (survivors ms)"
  obtain n m where x: "x = (n, m)" by fastforce
  then have m: "(n, m) \<in> set ms" "\<not> failed m" using mem by (auto simp: survivors_iff)
  have "n \<in> set (validationOrder ms)" using m(1) by (force simp: validationOrder_keys)
  then obtain xs ys where "validationOrder ms = xs @ n # ys" by (meson split_list)
  note visit = declared_visit[OF dist q this m]
  show "case x of (n, m) \<Rightarrow> set (mf_DependsOn (lm_Manifest m)) \<subseteq> fst ` set (survivors ms) \<and>
      list_all (report_ok (survivors ms)) (mf_ReportOverrides (lm_Manifest m))"
    unfolding x prod.case keys using visit(1,2) by (simp add: report_ok_survivors[OF dist] list_all_iff)
next
  fix n n' assume n: "n \<in> fst ` set (survivors ms)" "n' \<in> fst ` set (survivors ms)" "n \<noteq> n'"
  then have alive: "alive ms n" "alive ms n'" by (simp_all add: alive_survivors[OF dist])
  have mem: "(k, the (map_of ms k)) \<in> set ms" "\<not> failed (the (map_of ms k))" if "alive ms k" for k
    using that by (auto simp: alive_def split: option.splits dest: map_of_SomeD)
  have "n \<in> set (validationOrder ms)" "n' \<in> set (validationOrder ms)"
    using mem(1)[OF alive(1)] mem(1)[OF alive(2)] by (force simp: validationOrder_keys)+
  from order_split[OF validationOrder_keys(2)[OF dist] this n(3)]
  have "compatible (n, manifest_at ms n) (n', manifest_at ms n')"
    using declared_visit(3)[OF dist q _ mem[OF alive(1)]] declared_visit(3)[OF dist q _ mem[OF alive(2)]] alive n(3) compatible_sym
    by metis
  then show "compatible (n, manifest_at (survivors ms) n) (n', manifest_at (survivors ms) n')"
    by (simp add: at_survivors[OF dist] alive)
next
  have keys: "fst ` set (survivors ms) = {n. alive ms n}" using alive_survivors[OF dist] by auto
  let ?names = "filter (alive ms) (validationOrder ms)"
  let ?sw = "sweep (declare_module inflect) (validationOrder ms) no_claims ms"
  have "fold_res (register_in inflect ms) ?names New = Inr (cl_table (fst ?sw))"
    using sweep_claimed[OF q[unfolded validateModuleDeclarations_def]] by (simp add: claimed_def)
  moreover have "fold_res (register_in inflect (survivors ms)) ?names New = fold_res (register_in inflect ms) ?names New"
    by (rule fold_res_cong) (simp add: at_survivors[OF dist])
  moreover have "distinct ?names" using validationOrder_keys(2)[OF dist] by simp
  moreover have "set ?names = fst ` set (survivors ms)"
    unfolding keys by (auto simp: validationOrder_keys alive_def image_iff Bex_def split: option.splits dest: map_of_SomeD)
  ultimately show "\<exists>names table. distinct names \<and> set names = fst ` set (survivors ms) \<and>
      fold_res (register_in inflect (survivors ms)) names New = Inr table" by metis
qed

interpretation declarations: check_pass "validateModuleDeclarations inflect" "declared_ok inflect" for inflect
proof
  fix ms
  show "demotes ms (validateModuleDeclarations inflect ms)"
    unfolding validateModuleDeclarations_def by (rule sweep_demotes[OF demoted_declare])
  show "distinct (map fst ms) \<Longrightarrow> quiet ms (validateModuleDeclarations inflect ms) \<Longrightarrow> declared_ok inflect (survivors ms)"
    by (rule declared_survivors)
next
  fix ms :: lmodules
  have keys: "fst ` set (map (map_prod id face) ms) = fst ` set ms" by force
  have reg: "set names = fst ` set ms \<Longrightarrow>
      fold_res (register_in inflect (map (map_prod id face) ms)) names t = fold_res (register_in inflect ms) names t" for names t
    by (rule fold_res_cong) (simp add: at_face)
  show "declared_ok inflect (map (map_prod id face) ms) = declared_ok inflect ms"
    unfolding declared_ok_def keys set_face
    using reg by (simp add: report_ok_face at_face list_all_iff cong: conj_cong)
qed

end
