(* ===== verification/Module_References.thy ===== *)
theory Module_References
  imports Module_Checks_Props
begin

text \<open>
  The checks of a set of modules that need the effective models, with the extensions applied
  (\<^verbatim>\<open>internal/engine/loader\<close>: \<^verbatim>\<open>model_extensions.go\<close>, \<^verbatim>\<open>many2many.go\<close>, \<^verbatim>\<open>delegate.go\<close>, \<^verbatim>\<open>model_references.go\<close>). The effective
  models by qualified name are an association list, the last declaration of a name first.
\<close>

section \<open>Model extensions\<close>

definition validateResolvedModels :: "lmodules \<Rightarrow> load_failure option" where
  "validateResolvedModels ms =
     (case Resolve ms of
        Inl e \<Rightarrow> Some (ExtensionFailure e)
      | Inr resolved \<Rightarrow>
          first_err (\<lambda>(n, m). if failed m then None
            else map_option DeclarationFailure
              (case validateTrackedFields (lm_ModelDecls m) of
                 Some e \<Rightarrow> Some e
               | None \<Rightarrow> validateSequenceFormats (lm_ModelDecls m))) resolved)"

definition is_extension :: "lmodule \<Rightarrow> bool" where
  "is_extension m \<longleftrightarrow> lm_ModelExtensions m \<noteq> [] \<or> mf_Type (lm_Manifest m) = ''field_extension''"

definition dep_failed :: "lmodules \<Rightarrow> string \<Rightarrow> bool" where
  "dep_failed ms d \<longleftrightarrow> (case map_of ms d of None \<Rightarrow> False | Some dep \<Rightarrow> failed dep)"

text \<open>The modules taken into account so far, by name: the code keeps pointers to them.\<close>

definition validate_extension :: "string list \<Rightarrow> string \<Rightarrow> lmodule \<Rightarrow> lmodules \<Rightarrow> string list \<times> (lmodule \<Rightarrow> lmodule)" where
  "validate_extension validated name m ms =
     (case List.find (dep_failed ms) (mf_DependsOn (lm_Manifest m)) of
        Some d \<Rightarrow> (validated, Fail (DependencyFailed d))
      | None \<Rightarrow>
          if \<not> is_extension m then (validated, id)
          else let validated' = name # validated
               in (validated',
                   case validateResolvedModels (filter (\<lambda>(n, _). n \<in> set validated') ms) of
                     Some e \<Rightarrow> Fail e
                   | None \<Rightarrow> id))"

definition ValidateModelExtensions :: "lmodules \<Rightarrow> lmodules" where
  "ValidateModelExtensions ms =
     (case Order ms of
        Inl e \<Rightarrow> map (\<lambda>(n, m). (n, if lm_ModelExtensions m \<noteq> [] then Fail (ExtensionFailure e) m else m)) ms
      | Inr names \<Rightarrow>
          snd (sweep validate_extension names (map fst (filter (\<lambda>(n, m). \<not> is_extension m) ms)) ms))"

section \<open>Join relations\<close>

definition effective_models :: "lmodules \<Rightarrow> models" where
  "effective_models resolved =
     rev (concat (map (\<lambda>(name, m). if failed m then [] else map (\<lambda>md. (QualifiedName md name, md)) (lm_ModelDecls m)) resolved))"

definition model_at :: "models \<Rightarrow> string \<Rightarrow> model_declaration" where
  "model_at models name = (case map_of models name of None \<Rightarrow> Define [] | Some md \<Rightarrow> md)"

definition check_join :: "models \<Rightarrow> string \<Rightarrow> manifest \<Rightarrow> model_declaration \<Rightarrow> named_field \<Rightarrow> (string \<times> string) list \<Rightarrow>
    (relation_failure, (string \<times> string) list) result" where
  "check_join models name mf md f tables =
     (case ValidateMany2Many md f of
        Some e \<Rightarrow> Inl (RelationInvalid e)
      | None \<Rightarrow>
          (let d = nf_Def f; related = fd_RelatedModel d
           in case (if fd_Kind d = KindFileMulti then None
                    else case map_of models related of
                           None \<Rightarrow> Some (RelationNotLoaded related)
                         | Some target \<Rightarrow>
                             (case cut (CHR ''.'') related of
                                (targetModule, _, qualified) \<Rightarrow>
                                  if \<not> qualified then Some (RelationNotLoaded related)
                                  else if targetModule \<noteq> name \<and> targetModule \<notin> set (mf_DependsOn mf)
                                  then Some (RelationNotDependency related)
                                  else map_option RelationInvalid (ValidateMany2ManyTarget target))) of
                Some e \<Rightarrow> Inl e
              | None \<Rightarrow>
                  (case map_of tables (fd_JoinTable d) of
                     Some prior \<Rightarrow> Inl (JoinTableTaken (fd_JoinTable d) prior)
                   | None \<Rightarrow> Inr ((fd_JoinTable d, name @ ''.'' @ ResourceName md @ ''.'' @ nf_Name f) # tables))))"

text \<open>The fields of one declaration, up to the first that fails.\<close>

definition check_join_field :: "models \<Rightarrow> string \<Rightarrow> manifest \<Rightarrow> model_declaration \<Rightarrow> named_field \<Rightarrow> (string \<times> string) list \<Rightarrow>
    (string \<times> string) list \<times> (string \<times> relation_failure) option" where
  "check_join_field models name mf md f tables =
     (case check_join models name mf md f tables of
        Inl e \<Rightarrow> (tables, Some (nf_Name f, e))
      | Inr tables' \<Rightarrow> (tables', None))"

definition own_joins :: "string \<Rightarrow> named_field list \<Rightarrow> named_field list" where
  "own_joins name fs =
     filter (\<lambda>f. IsJoinRelation (fd_Kind (nf_Def f)) \<and> (nf_DeclaringModule f = [] \<or> nf_DeclaringModule f = name)) fs"

definition check_joins :: "models \<Rightarrow> string \<Rightarrow> manifest \<Rightarrow> string \<Rightarrow> model_declaration \<Rightarrow> named_field list \<Rightarrow>
    (string \<times> string) list \<times> load_failure option \<Rightarrow> (string \<times> string) list \<times> load_failure option" where
  "check_joins models name mf site md fs = (\<lambda>(tables, reason).
     (case each (check_join_field models name mf md) fs tables of
        (tables', None) \<Rightarrow> (tables', reason)
      | (tables', Some (f, e)) \<Rightarrow> (tables', Some (RelationFailure site f e))))"

definition join_module :: "models \<Rightarrow> (string \<times> string) list \<Rightarrow> string \<Rightarrow> lmodule \<Rightarrow> lmodules \<Rightarrow>
    (string \<times> string) list \<times> (lmodule \<Rightarrow> lmodule)" where
  "join_module models tables name m ms =
     (let mf = lm_Manifest m;
          st1 = fold (\<lambda>md. check_joins models name mf (md_Name md) (model_at models (QualifiedName md name))
                  (own_joins name (md_Fields md))) (lm_ModelDecls m) (tables, None);
          st2 = fold (\<lambda>e. check_joins models name mf (me_Model e) (model_at models (me_Model e))
                  (filter (\<lambda>f. IsJoinRelation (fd_Kind (nf_Def f))) (me_Fields e))) (lm_ModelExtensions m) st1
      in (fst st2, case snd st2 of None \<Rightarrow> id | Some r \<Rightarrow> Fail r))"

definition table_names :: "models \<Rightarrow> (string \<times> string) list" where
  "table_names models = map (\<lambda>(q, md). (TableName md, q)) (filter (\<lambda>(q, md). md_Backend md = []) models)"

definition validateMany2ManyModels :: "models \<Rightarrow> lmodules \<Rightarrow> lmodules" where
  "validateMany2ManyModels models ms = snd (sweep (join_module models) (validationOrder ms) (table_names models) ms)"

section \<open>Delegation\<close>

definition check_delegate :: "models \<Rightarrow> string \<Rightarrow> manifest \<Rightarrow> lmodules \<Rightarrow> named_field \<Rightarrow> relation_failure option" where
  "check_delegate models name mf ms f =
     (let related = fd_RelatedModel (nf_Def f)
      in if fd_Kind (nf_Def f) \<noteq> KindDelegate then None
         else case cut (CHR ''.'') related of
                (owner, resource, qualified) \<Rightarrow>
                  if \<not> qualified \<or> resource = [] \<or>
                     (owner \<noteq> name \<and> owner \<notin> set (mf_DependsOn mf) \<and> owner \<notin> set (mf_SoftDependsOn mf))
                  then Some (DelegateOwner related)
                  else if map_of models related = None \<and> (owner = name \<or> owner \<in> set (mf_DependsOn mf) \<or> alive ms owner)
                  then Some (DelegateNotLoaded related)
                  else None)"

definition delegate_module :: "models \<Rightarrow> unit \<Rightarrow> string \<Rightarrow> lmodule \<Rightarrow> lmodules \<Rightarrow> unit \<times> (lmodule \<Rightarrow> lmodule)" where
  "delegate_module models u name m ms =
     (let failure = (\<lambda>site f. map_option (RelationFailure site (nf_Name f)) (check_delegate models name (lm_Manifest m) ms f));
          own = concat (map (\<lambda>md. map (failure (md_Name md))
                  (filter (\<lambda>f. nf_DeclaringModule f = [] \<or> nf_DeclaringModule f = name) (md_Fields md))) (lm_ModelDecls m));
          ext = concat (map (\<lambda>e. map (failure (me_Model e)) (me_Fields e)) (lm_ModelExtensions m))
      in ((), fold (\<lambda>r g. case r of None \<Rightarrow> g | Some reason \<Rightarrow> Fail reason \<circ> g) (own @ ext) id))"

definition validateDelegateModels :: "models \<Rightarrow> lmodules \<Rightarrow> lmodules" where
  "validateDelegateModels models ms = snd (sweep (delegate_module models) (validationOrder ms) () ms)"

section \<open>References to models\<close>

definition hasStoredField :: "model_declaration \<Rightarrow> string \<Rightarrow> bool" where
  "hasStoredField md name \<longleftrightarrow>
     list_ex (\<lambda>f. nf_Name f = name \<and> (\<not> fd_IsComputed (nf_Def f) \<or> fd_IsStored (nf_Def f)) \<and>
       fd_Kind (nf_Def f) \<noteq> KindOne2Many \<and> \<not> IsJoinRelation (fd_Kind (nf_Def f))) (md_Fields md)"

definition checkComputedPath :: "models \<Rightarrow> model_declaration \<Rightarrow> string \<Rightarrow> bool" where
  "checkComputedPath models md path =
     (case cut (CHR ''.'') path of
        (hop_name, remote, hop) \<Rightarrow>
          if \<not> hop then hasField md path
          else if CHR ''.'' \<in> set remote \<or> remote = [] then False
          else case List.find (\<lambda>f. (nf_Name f = hop_name @ ''_id'' \<and> fd_Kind (nf_Def f) = KindMany2One) \<or>
                                   (nf_Name f = hop_name \<and> fd_Kind (nf_Def f) = KindOne2Many)) (md_Fields md) of
                 None \<Rightarrow> False
               | Some f \<Rightarrow>
                   (case map_of models (fd_RelatedModel (nf_Def f)) of
                      None \<Rightarrow> False
                    | Some target \<Rightarrow> hasField target remote))"

definition policy_problem :: "(string \<Rightarrow> string) \<Rightarrow> models \<Rightarrow> manifest_policy \<Rightarrow> reference_failure option" where
  "policy_problem sanitize models p =
     (case cut (CHR '':'') (mp_AppliesTo p) of
        (owner, rest, _) \<Rightarrow>
          (case map_of models (owner @ ''.'' @ fst (cut (CHR '':'') rest)) of
             None \<Rightarrow> Some (PolicyTarget (mp_Name p) (mp_AppliesTo p))
           | Some md \<Rightarrow>
               (case Parse (mp_Condition p) of
                  Inl e \<Rightarrow> Some (PolicyParse (mp_Name p) e)
                | Inr expr \<Rightarrow>
                    (case CompileToRLS sanitize expr of
                       Inl e \<Rightarrow> Some (PolicyCompile (mp_Name p) e)
                     | Inr _ \<Rightarrow> map_option (PolicyField (mp_Name p)) (List.find (\<lambda>f. \<not> hasStoredField md f) (RecordFields expr))))))"

definition field_problem :: "models \<Rightarrow> string \<Rightarrow> model_declaration \<Rightarrow> named_field \<Rightarrow> reference_failure option" where
  "field_problem models self md f =
     (case (if fd_Kind (nf_Def f) = KindFile then ValidateFile md f else None) of
        Some e \<Rightarrow> Some (FileInvalid (md_Name md) (nf_Name f) e)
      | None \<Rightarrow>
          if nf_DeclaringModule f \<noteq> [] \<and> nf_DeclaringModule f \<noteq> self then None
          else map_option (ComputedPath (md_Name md) (nf_Name f))
                 (List.find (\<lambda>path. \<not> checkComputedPath models md path) (fd_DependsOn (nf_Def f))))"

definition model_problem :: "models \<Rightarrow> string \<Rightarrow> model_declaration \<Rightarrow> reference_failure option" where
  "model_problem models self md =
     (case ComposedFields models md of
        Inl e \<Rightarrow> Some (ComposedInvalid (md_Name md) e)
      | Inr _ \<Rightarrow> first_err (field_problem models self md) (md_Fields md))"

definition extension_problem :: "models \<Rightarrow> model_extension \<Rightarrow> reference_failure option" where
  "extension_problem models e =
     first_err (\<lambda>f. map_option (ComputedPath (me_Model e) (nf_Name f))
       (List.find (\<lambda>path. \<not> checkComputedPath models (model_at models (me_Model e)) path) (fd_DependsOn (nf_Def f)))) (me_Fields e)"

definition checkModelReferences :: "(string \<Rightarrow> string) \<Rightarrow> models \<Rightarrow> lmodule \<Rightarrow> reference_failure option" where
  "checkModelReferences sanitize models m =
     (case first_err (policy_problem sanitize models) (mf_Policies (lm_Manifest m)) of
        Some e \<Rightarrow> Some e
      | None \<Rightarrow>
          (case first_err (model_problem models (mf_Name (lm_Manifest m))) (lm_ModelDecls m) of
             Some e \<Rightarrow> Some e
           | None \<Rightarrow> first_err (extension_problem models) (lm_ModelExtensions m)))"

definition reference_module :: "(string \<Rightarrow> string) \<Rightarrow> models \<Rightarrow> lmodules \<Rightarrow> unit \<Rightarrow> string \<Rightarrow> lmodule \<Rightarrow> lmodules \<Rightarrow>
    unit \<times> (lmodule \<Rightarrow> lmodule)" where
  "reference_module sanitize models resolved u name m ms =
     ((), case checkModelReferences sanitize models (case map_of resolved name of None \<Rightarrow> m | Some r \<Rightarrow> r) of
            None \<Rightarrow> id
          | Some e \<Rightarrow> Fail (ReferenceFailure e))"

definition validateModelReferences :: "(string \<Rightarrow> string) \<Rightarrow> lmodules \<Rightarrow> lmodules" where
  "validateModelReferences sanitize ms =
     (case Resolve ms of
        Inl _ \<Rightarrow> ms
      | Inr resolved \<Rightarrow>
          (let models = effective_models resolved;
               ms1 = validateMany2ManyModels models ms;
               ms2 = validateDelegateModels models ms1
           in snd (sweep (reference_module sanitize models resolved) (validationOrder ms2) () ms2)))"

end
