(* ===== verification/Module_Set.thy ===== *)
theory Module_Set
  imports Module_References
begin

text \<open>
  Validation of a whole set of modules before it is published (\<^verbatim>\<open>internal/engine/loader/validation.go\<close>): the
  checks are repeated until a round fails no module, and a candidate is accepted only when it and the
  modules that worked before it survive. The final logging of view extensions that meet in one place
  changes nothing and is left out.
\<close>

section \<open>Rounds\<close>

definition validate_round :: "(string \<Rightarrow> string) \<Rightarrow> (string \<Rightarrow> string) \<Rightarrow> lmodules \<Rightarrow> lmodules" where
  "validate_round inflect sanitize ms =
     (let ms1 = validateModuleDeclarations inflect ms;
          ms2 = ValidateModelExtensions ms1;
          ms3 = ValidateEventSubscriptions ms2;
          ms4 = ValidateUsesConfig ms3;
          ms5 = ValidateUsesPermissions ms4;
          ms6 = snd (ValidateViewExtensions ms5)
      in validateModelReferences sanitize ms6)"

lemma demoted_join: "demoted x (snd (join_module models s n m ms) x)"
  by (auto simp: join_module_def Let_def split: option.splits)

lemma demoted_fold_Fail:
  "(\<And>x. demoted x (g x)) \<Longrightarrow> demoted x (fold (\<lambda>r g. case r of None \<Rightarrow> g | Some reason \<Rightarrow> Fail reason \<circ> g) rs g x)"
proof (induction rs arbitrary: g)
  case (Cons r rs)
  have "demoted y ((case r of None \<Rightarrow> g | Some reason \<Rightarrow> Fail reason \<circ> g) y)" for y
    using Cons.prems[of y] demoted_trans[OF _ demoted_Fail] by (auto split: option.splits)
  then show ?case using Cons.IH by simp
qed simp

lemma demoted_delegate: "demoted x (snd (delegate_module models s n m ms) x)"
  by (auto simp: delegate_module_def Let_def intro!: demoted_fold_Fail)

lemma demoted_reference: "demoted x (snd (reference_module sanitize models resolved s n m ms) x)"
  by (auto simp: reference_module_def split: option.splits)

lemma demoted_extension: "demoted x (snd (validate_extension s n m ms) x)"
  by (auto simp: validate_extension_def Let_def split: option.splits)

lemma extensions_demotes: "demotes ms (ValidateModelExtensions ms)"
  unfolding ValidateModelExtensions_def
  by (auto split: sum.splits intro!: demotes_map sweep_demotes demoted_extension)

lemma references_demotes: "demotes ms (validateModelReferences sanitize ms)"
proof (cases "Resolve ms")
  case (Inr resolved)
  let ?models = "effective_models resolved"
  have "demotes ms (validateMany2ManyModels ?models ms)"
    unfolding validateMany2ManyModels_def by (rule sweep_demotes[OF demoted_join])
  moreover have "demotes ms1 (validateDelegateModels ?models ms1)" for ms1
    unfolding validateDelegateModels_def by (rule sweep_demotes[OF demoted_delegate])
  moreover have "demotes ms2 (snd (sweep (reference_module sanitize ?models resolved) ns () ms2))" for ms2 ns
    by (rule sweep_demotes[OF demoted_reference])
  ultimately show ?thesis
    by (simp add: validateModelReferences_def Inr Let_def) (meson demotes_trans)
qed (simp add: validateModelReferences_def)

interpretation extensions: check_pass ValidateModelExtensions "\<lambda>_. True"
  by unfold_locales (simp_all add: extensions_demotes)

interpretation references: check_pass "validateModelReferences sanitize" "\<lambda>_. True" for sanitize
  by unfold_locales (simp_all add: references_demotes)

definition set_ok :: "(string \<Rightarrow> string) \<Rightarrow> lmodules \<Rightarrow> bool" where
  "set_ok inflect L \<longleftrightarrow> declared_ok inflect L \<and> subscriptions_ok L \<and> config_ok L \<and> permissions_ok L \<and> views_ok L"

interpretation rounds: check_pass "validate_round inflect sanitize" "set_ok inflect" for inflect sanitize
proof -
  note comps = check_pass_comp[OF check_pass_comp[OF check_pass_comp[OF check_pass_comp[OF check_pass_comp[OF check_pass_comp[OF
    declarations.check_pass_axioms extensions.check_pass_axioms] events.check_pass_axioms] config.check_pass_axioms]
    permissions.check_pass_axioms] views.check_pass_axioms] references.check_pass_axioms]
  have pass: "validate_round inflect sanitize = (\<lambda>ms. validateModelReferences sanitize (snd (ValidateViewExtensions
      (ValidateUsesPermissions (ValidateUsesConfig (ValidateEventSubscriptions (ValidateModelExtensions
        (validateModuleDeclarations inflect ms))))))))"
    by (simp add: validate_round_def fun_eq_iff)
  have ok: "set_ok inflect = (\<lambda>ms. (((((declared_ok inflect ms \<and> True) \<and> subscriptions_ok ms) \<and> config_ok ms) \<and>
      permissions_ok ms) \<and> views_ok ms) \<and> True)"
    by (auto simp: set_ok_def fun_eq_iff)
  show "check_pass (validate_round inflect sanitize) (set_ok inflect)"
    unfolding pass ok by (rule comps)
qed

function ValidateModuleSet :: "(string \<Rightarrow> string) \<Rightarrow> (string \<Rightarrow> string) \<Rightarrow> lmodules \<Rightarrow> lmodules" where
  "ValidateModuleSet inflect sanitize ms =
     (let ms' = validate_round inflect sanitize ms
      in if failedCount ms' = failedCount ms then ms' else ValidateModuleSet inflect sanitize ms')"
  by pat_completeness auto

termination
proof (relation "measure (\<lambda>(_, _, ms). length ms - failedCount ms)")
  fix inflect sanitize ms ms'
  assume ms': "ms' = validate_round inflect sanitize ms" and "failedCount ms' \<noteq> failedCount ms"
  have "demotes ms ms'" unfolding ms' by (rule rounds.pass_demotes)
  then have "failedCount ms < failedCount ms'" "length ms' = length ms"
    using demotes_failedCount[of ms ms'] demotes_length[of ms ms'] \<open>failedCount ms' \<noteq> failedCount ms\<close> by auto
  with failedCount_length[of ms']
  show "((inflect, sanitize, ms'), (inflect, sanitize, ms)) \<in> measure (\<lambda>(_, _, ms). length ms - failedCount ms)" by simp
qed simp

declare ValidateModuleSet.simps [simp del]

section \<open>Candidates\<close>

definition ValidateCandidate :: "(string \<Rightarrow> string) \<Rightarrow> (string \<Rightarrow> string) \<Rightarrow> lmodule \<Rightarrow> lmodules \<Rightarrow>
    (string \<times> load_failure option, lmodules) result" where
  "ValidateCandidate inflect sanitize candidate existing =
     (let name = mf_Name (lm_Manifest candidate);
          others = filter (\<lambda>(n, _). n \<noteq> name) existing;
          order = fold max (map (\<lambda>(_, m). lm_LoadOrder m + 1) others) (lm_LoadOrder candidate);
          validated = ValidateModuleSet inflect sanitize (others @ [(name, candidate\<lparr>lm_LoadOrder := order\<rparr>)])
      in case List.find (\<lambda>n. \<not> alive validated n \<and> (n = name \<or> alive existing n)) (sort (map fst validated)) of
           Some n \<Rightarrow> Inl (n, case map_of validated n of None \<Rightarrow> None | Some m \<Rightarrow> lm_FailureReason m)
         | None \<Rightarrow>
             (case map_of validated name of
                None \<Rightarrow> Inl (name, None)
              | Some c \<Rightarrow>
                  Inr (upd name (\<lambda>_. candidate\<lparr>lm_Diagnostics := lm_Diagnostics c, lm_UsesConfig := lm_UsesConfig c\<rparr>) validated)))"

section \<open>What validation leaves\<close>

lemma ValidateModuleSet_last:
  "\<exists>ms0. demotes ms ms0 \<and> ValidateModuleSet inflect sanitize ms = validate_round inflect sanitize ms0 \<and>
     quiet ms0 (validate_round inflect sanitize ms0)"
proof (induction inflect sanitize ms rule: ValidateModuleSet.induct)
  case (1 inflect sanitize ms)
  let ?ms' = "validate_round inflect sanitize ms"
  have d: "demotes ms ?ms'" by (rule rounds.pass_demotes)
  show ?case
  proof (cases "failedCount ?ms' = failedCount ms")
    case True
    then have "quiet ms ?ms'" using demotes_failedCount[OF d] by simp
    then show ?thesis using True by (intro exI[of _ ms]) (simp add: ValidateModuleSet.simps[of _ _ ms])
  next
    case False
    from "1.IH"[OF refl False] obtain ms0 where ms0: "demotes ?ms' ms0"
      "ValidateModuleSet inflect sanitize ?ms' = validate_round inflect sanitize ms0" "quiet ms0 (validate_round inflect sanitize ms0)"
      by blast
    from demotes_trans[OF d ms0(1)] ms0(2,3) False show ?thesis
      by (intro exI[of _ ms0]) (simp add: ValidateModuleSet.simps[of _ _ ms])
  qed
qed

lemma ValidateModuleSet_demotes: "demotes ms (ValidateModuleSet inflect sanitize ms)"
proof -
  obtain ms0 where "demotes ms ms0" "ValidateModuleSet inflect sanitize ms = validate_round inflect sanitize ms0"
    using ValidateModuleSet_last by blast
  then show ?thesis using demotes_trans rounds.pass_demotes by metis
qed

lemma ValidateModuleSet_set_ok:
  assumes "distinct (map fst ms)"
  shows "set_ok inflect (survivors (ValidateModuleSet inflect sanitize ms))"
proof -
  obtain ms0 where ms0: "demotes ms ms0" "ValidateModuleSet inflect sanitize ms = validate_round inflect sanitize ms0"
    "quiet ms0 (validate_round inflect sanitize ms0)"
    using ValidateModuleSet_last by blast
  have "distinct (map fst ms0)" using demotes_keys[OF ms0(1)] assms by simp
  from rounds.pass_ok[OF this ms0(3)] rounds.ok_quiet[OF ms0(3)] show ?thesis by (simp add: ms0(2))
qed

text \<open>
  (C5) Validation of a set of modules ends, changes nothing of a module but its status, failure,
  diagnostics and resolved configuration, never revives a failed module, and the modules that survive
  fit together: their dependencies survive, no two conflict or own a model, declare a permission or
  name a login provider in common, their routes register together, their event subscriptions,
  configuration references, permissions and view extensions resolve among the survivors or point to
  an absent soft dependency, and every permission they name anywhere they declare or list as used.
\<close>

theorem ValidateModuleSet_sound:
  assumes "distinct (map fst ms)"
  shows "demotes ms (ValidateModuleSet inflect sanitize ms) \<and>
    set_ok inflect (survivors (ValidateModuleSet inflect sanitize ms))"
  using ValidateModuleSet_demotes ValidateModuleSet_set_ok[OF assms] by blast

definition sample_set :: lmodules where
  "sample_set =
     [(''crm'', plain_module ((plain_manifest ''crm'' ''module'' [''contacts''])\<lparr>mf_UsesPermissions := [''contacts:contact:read'']\<rparr>)),
      (''contacts'', plain_module ((plain_manifest ''contacts'' ''module'' [])
         \<lparr>mf_Permissions := [\<lparr>perm_Name = ''contacts:contact:read'', perm_Description = [], perm_Category = [], perm_DefaultRoles = []\<rparr>]\<rparr>)),
      (''broken'', plain_module (plain_manifest ''broken'' ''module'' [''missing''])),
      (''follower'', plain_module (plain_manifest ''follower'' ''module'' [''broken'']))]"

theorem ValidateModuleSet_sound_witness:
  "map fst (survivors (ValidateModuleSet id id sample_set)) = [''crm'', ''contacts''] \<and>
   set_ok id (survivors (ValidateModuleSet id id sample_set))"
proof -
  have "map fst (survivors (ValidateModuleSet id id sample_set)) = [''crm'', ''contacts'']" by code_simp
  moreover have "distinct (map fst sample_set)" by code_simp
  ultimately show ?thesis using ValidateModuleSet_sound[of sample_set id id] by simp
qed

section \<open>What an accepted candidate keeps\<close>

lemma upd_face_quiet:
  "distinct (map fst ms) \<Longrightarrow> map_of ms n = Some c \<Longrightarrow> face c' = face c \<Longrightarrow> quiet ms (upd n (\<lambda>_. c') ms)"
proof (induction ms)
  case (Cons x ms)
  obtain k m where x: "x = (k, m)" by fastforce
  show ?case
  proof (cases "k = n")
    case True
    with Cons.prems x have "n \<notin> fst ` set ms" "m = c" by auto
    then have "upd n (\<lambda>_. c') ms = ms" by (induction ms) (auto simp: upd_def)
    with Cons.prems(3) True \<open>m = c\<close> show ?thesis by (simp add: x upd_def)
  next
    case False
    with Cons show ?thesis by (simp add: x upd_def)
  qed
qed simp

lemma demotes_map_of: "demotes ms ms' \<Longrightarrow> map_of ms n = Some m \<Longrightarrow> \<exists>m'. map_of ms' n = Some m' \<and> demoted m m'"
  unfolding demotes_def by (induction rule: list_all2_induct) (auto split: if_splits)

lemma upd_upd: "upd n f (upd n g ms) = upd n (\<lambda>m. f (g m)) ms"
  by (auto simp: upd_def)

text \<open>The set the candidate was validated in, and what its acceptance means there.\<close>

lemma ValidateCandidate_Inr:
  assumes dist: "distinct (map fst existing)" and ok: "ValidateCandidate inflect sanitize candidate existing = Inr ms'"
    and name: "name = mf_Name (lm_Manifest candidate)"
  obtains validated order c where "distinct (map fst validated)" "set_ok inflect (survivors validated)"
    "demotes (filter (\<lambda>(n, _). n \<noteq> name) existing @ [(name, candidate\<lparr>lm_LoadOrder := order\<rparr>)]) validated"
    "map_of validated name = Some c" "alive validated name"
    "\<forall>n. alive existing n \<longrightarrow> alive validated n"
    "ms' = upd name (\<lambda>_. candidate\<lparr>lm_Diagnostics := lm_Diagnostics c, lm_UsesConfig := lm_UsesConfig c\<rparr>) validated"
proof -
  let ?others = "filter (\<lambda>(n, _). n \<noteq> name) existing"
  define order where "order = fold max (map (\<lambda>(_, m). lm_LoadOrder m + 1) ?others) (lm_LoadOrder candidate)"
  let ?start = "?others @ [(name, candidate\<lparr>lm_LoadOrder := order\<rparr>)]"
  define validated where "validated = ValidateModuleSet inflect sanitize ?start"
  have start: "distinct (map fst ?start)" using dist by (auto simp: distinct_map inj_on_def)
  have dem: "demotes ?start validated" unfolding validated_def by (rule ValidateModuleSet_demotes)
  have none: "List.find (\<lambda>n. \<not> alive validated n \<and> (n = name \<or> alive existing n)) (sort (map fst validated)) = None"
    and "\<exists>c. map_of validated name = Some c \<and>
      ms' = upd name (\<lambda>_. candidate\<lparr>lm_Diagnostics := lm_Diagnostics c, lm_UsesConfig := lm_UsesConfig c\<rparr>) validated"
    using ok unfolding ValidateCandidate_def Let_def name[symmetric] order_def[symmetric] validated_def[symmetric]
    by (auto split: option.splits)
  then obtain c where c: "map_of validated name = Some c"
    "ms' = upd name (\<lambda>_. candidate\<lparr>lm_Diagnostics := lm_Diagnostics c, lm_UsesConfig := lm_UsesConfig c\<rparr>) validated" by blast
  have keys: "fst ` set validated = fst ` set ?start" using demotes_keys[OF dem] by (metis list.set_map)
  have all: "alive validated n" if "n \<in> fst ` set validated" "n = name \<or> alive existing n" for n
    using none that by (auto simp: find_None_iff)
  have "n \<in> fst ` set validated" if "alive existing n" for n
    using that unfolding keys by (auto simp: alive_def image_iff split: option.splits dest!: map_of_SomeD)
  then have "\<forall>n. alive existing n \<longrightarrow> alive validated n" using all by blast
  moreover have "alive validated name" using all keys by auto
  moreover have "set_ok inflect (survivors validated)"
    unfolding validated_def by (rule ValidateModuleSet_set_ok[OF start])
  moreover have "distinct (map fst validated)" using demotes_keys[OF dem] start by simp
  ultimately show thesis using that dem c by blast
qed

text \<open>
  (C12) A candidate is accepted only into a set that fits together with it: it survives, every other
  module that worked before still does and is otherwise unchanged, the candidate is published as it
  was loaded with only its diagnostics and resolved configuration renewed, and the survivors meet
  the conditions of validation with the candidate placed last in load order.
\<close>

theorem ValidateCandidate_safe:
  assumes "distinct (map fst existing)" "ValidateCandidate inflect sanitize candidate existing = Inr ms'"
    and "name = mf_Name (lm_Manifest candidate)"
  shows "alive ms' name \<and> (\<forall>n. alive existing n \<longrightarrow> alive ms' n) \<and>
    (\<forall>n m. n \<noteq> name \<and> map_of existing n = Some m \<longrightarrow> (\<exists>m'. map_of ms' n = Some m' \<and> demoted m m')) \<and>
    (\<exists>ds uc. map_of ms' name = Some (candidate\<lparr>lm_Diagnostics := ds, lm_UsesConfig := uc\<rparr>)) \<and>
    (\<exists>order. set_ok inflect (survivors (upd name (\<lambda>m. m\<lparr>lm_LoadOrder := order\<rparr>) ms')))"
proof -
  from assms obtain validated order c where v: "distinct (map fst validated)" "set_ok inflect (survivors validated)"
    "demotes (filter (\<lambda>(n, _). n \<noteq> name) existing @ [(name, candidate\<lparr>lm_LoadOrder := order\<rparr>)]) validated"
    "map_of validated name = Some c" "alive validated name" "\<forall>n. alive existing n \<longrightarrow> alive validated n"
    "ms' = upd name (\<lambda>_. candidate\<lparr>lm_Diagnostics := lm_Diagnostics c, lm_UsesConfig := lm_UsesConfig c\<rparr>) validated"
    by (rule ValidateCandidate_Inr)
  let ?start = "filter (\<lambda>(n, _). n \<noteq> name) existing @ [(name, candidate\<lparr>lm_LoadOrder := order\<rparr>)]"
  let ?new = "candidate\<lparr>lm_Diagnostics := lm_Diagnostics c, lm_UsesConfig := lm_UsesConfig c\<rparr>"
  have name: "map_of ?start name = Some (candidate\<lparr>lm_LoadOrder := order\<rparr>)"
    by (auto simp: map_add_def split: option.splits dest!: map_of_SomeD)
  have other: "map_of ?start n = map_of existing n" if "n \<noteq> name" for n
    using that by (induction existing) auto
  have dem: "demoted (candidate\<lparr>lm_LoadOrder := order\<rparr>) c" using demotes_map_of[OF v(3) name] v(4) by auto
  have "\<not> failed c" using v(4,5) by (simp add: alive_def)
  then have cand: "\<not> failed candidate" using demoted_failed[OF dem] by (auto simp: failed_def)
  then have "face c = face (candidate\<lparr>lm_LoadOrder := order\<rparr>)"
    using demoted_face[OF dem] \<open>\<not> failed c\<close> by (simp add: failed_def)
  then have "face (?new\<lparr>lm_LoadOrder := order\<rparr>) = face c" by (simp add: face_def failed_def)
  from upd_face_quiet[OF v(1,4) this]
  have "set_ok inflect (survivors (upd name (\<lambda>m. m\<lparr>lm_LoadOrder := order\<rparr>) ms'))"
    using rounds.ok_quiet v(2) by (simp add: v(7) upd_upd)
  moreover have "alive ms' n = alive validated n" for n
    using cand \<open>\<not> failed c\<close> v(4) by (auto simp: alive_def v(7) map_of_upd failed_def split: option.splits)
  moreover have "\<exists>m'. map_of ms' n = Some m' \<and> demoted m m'" if "n \<noteq> name" "map_of existing n = Some m" for n m
    using demotes_map_of[OF v(3), of n m] that other[OF that(1)] by (simp add: v(7) map_of_upd)
  moreover have "map_of ms' name = Some ?new" using v(4) by (simp add: v(7) map_of_upd)
  ultimately show ?thesis using v(5,6) by blast
qed

theorem ValidateCandidate_safe_witness:
  "\<exists>ms'. ValidateCandidate id id (plain_module (plain_manifest ''deals'' ''module'' [''crm''])) (take 2 sample_set) = Inr ms' \<and>
     alive ms' ''deals'' \<and> alive ms' ''crm'' \<and> alive ms' ''contacts''"
proof -
  let ?candidate = "plain_module (plain_manifest ''deals'' ''module'' [''crm'']) :: lmodule"
  have "case ValidateCandidate id id ?candidate (take 2 sample_set) of Inl _ \<Rightarrow> False | Inr _ \<Rightarrow> True" by code_simp
  then obtain ms' where ms': "ValidateCandidate id id ?candidate (take 2 sample_set) = Inr ms'" by (auto split: sum.splits)
  have dist: "distinct (map fst (take 2 sample_set))" by code_simp
  have name: "''deals'' = mf_Name (lm_Manifest ?candidate)" by code_simp
  have before: "alive (take 2 sample_set) ''crm''" "alive (take 2 sample_set) ''contacts''" by code_simp+
  note safe = ValidateCandidate_safe[OF dist ms' name]
  note keeps = safe[THEN conjunct2, THEN conjunct1, rule_format]
  show ?thesis
    by (intro exI[of _ ms'] conjI) (rule ms', rule safe[THEN conjunct1], rule keeps[OF before(1)], rule keeps[OF before(2)])
qed

end
