(* ===== verification/Spec2Isabelle.thy ===== *)
theory Spec2Isabelle
  imports Domain_Compile_Props Permcache_Props Route_Register_Props Orm_Sequence Authz_Props Model_Extension_Props Module_Set
begin

text \<open>
  Verification library for the goerp engine, a multi-tenant business application server written in
  Go (\<^verbatim>\<open>src/internal/engine\<close>). Modules compiled to WebAssembly declare models, routes, permissions, policies
  and events; the engine checks the declarations, publishes them in registries and enforces them on
  every request. The library models the parts that decide: the language of conditions, permissions
  and policies, routing, field access, and the checks a module passes before it is published.

  \<^bold>\<open>How the parts interact.\<close> A condition is text of the domain language; it is parsed, evaluated on a
  record, or compiled to SQL. A policy attaches a condition to a permission; the authorisation calls
  combine the permissions of the caller's roles with the policies of the record. A workflow transition
  attaches a condition and a permission to a route. A module is loaded when its declarations pass
  the checks of one module, and published when the set of modules passes the checks of a set.

  \<^bold>\<open>Theories and sources.\<close>
  \<^item> \<^verbatim>\<open>Go_Prelude\<close>, \<^verbatim>\<open>Go_Strings\<close>, \<^verbatim>\<open>Go_Values\<close>: results, loops with early exit, the string functions and the number
    formats of the Go standard library the code uses.
  \<^item> \<^verbatim>\<open>Domain_*\<close> (\<^verbatim>\<open>domain/\<close>): tokens, the parser, the evaluator, and the compilers \<^verbatim>\<open>CompileToRLS\<close>, \<^verbatim>\<open>CompileToSQL\<close> and
    \<^verbatim>\<open>CompileToFilter\<close>. Shown: parsing returns well-formed expressions and inverts printing, the parser always
    ends, the static check separates errors of construction from errors of data, evaluation reads only
    the fields it announces, and compiled SQL contains user data only as parameters or quoted literals.
  \<^item> \<^verbatim>\<open>Permission_Bits\<close>, \<^verbatim>\<open>Permcache*\<close> (\<^verbatim>\<open>permission/\<close>, \<^verbatim>\<open>permcache/\<close>): permission indices and bit fields, and the rebuild of
    the roles of a tenant with inheritance. Shown: bit fields implement sets, indices never change, a
    rebuilt role holds exactly the permissions granted to it and its ancestors, other tenants are kept.
  \<^item> \<^verbatim>\<open>Route_*\<close> (\<^verbatim>\<open>route/\<close>): the route tree and the registration of explicit, derived and workflow routes. Shown:
    lookup implements the declared patterns, registration keeps what is there, every route that fires
    a transition is guarded by its permission and condition.
  \<^item> \<^verbatim>\<open>Sdk_Model\<close> (\<^verbatim>\<open>sdk/go/model\<close>), \<^verbatim>\<open>Module_Context\<close>, \<^verbatim>\<open>Orm_Fields\<close>, \<^verbatim>\<open>Orm_Sequence\<close> (\<^verbatim>\<open>fieldsec/\<close>, \<^verbatim>\<open>orm/\<close>, \<^verbatim>\<open>wasm/host_orm*.go\<close>):
    model declarations, masking of fields on reads, the assignments of a write, sequence numbers.
  \<^item> \<^verbatim>\<open>Policies\<close>, \<^verbatim>\<open>Authz\<close>, \<^verbatim>\<open>Authz_Props\<close> (\<^verbatim>\<open>policy/\<close>, \<^verbatim>\<open>wasm/host_authz*.go\<close>): the policy registry and the calls that check
    a permission on a record, filter rows and check fields. Shown: a check allows exactly when the
    permission is held and the policies agree; a row filter never widens access.
  \<^item> \<^verbatim>\<open>Module_Model\<close>, \<^verbatim>\<open>Model_Extension*\<close> (\<^verbatim>\<open>module/\<close>, \<^verbatim>\<open>modelextension/\<close>): loaded modules, their order by dependencies and
    additive model extensions. Shown: orders are complete and topological, extensions only add.
  \<^item> \<^verbatim>\<open>Reserved_Names\<close>, \<^verbatim>\<open>Model_Meta\<close> (\<^verbatim>\<open>enginetables/\<close>, \<^verbatim>\<open>dbscope/\<close>, \<^verbatim>\<open>modelmeta/\<close>): names module SQL may not reach, relation
    metadata and fields composed through delegation.
  \<^item> \<^verbatim>\<open>Loader_Checks\<close>, \<^verbatim>\<open>Module_Sweep\<close>, \<^verbatim>\<open>Module_Checks*\<close>, \<^verbatim>\<open>Module_References\<close>, \<^verbatim>\<open>Module_Set\<close> (\<^verbatim>\<open>loader/\<close>): the checks of one module and of
    a set. \<^verbatim>\<open>Module_Sweep\<close> holds the frame every check of a set respects, as the locale \<^verbatim>\<open>check_pass\<close>.

  \<^bold>\<open>Conventions.\<close> A function that returns an error returns a sum, \<^const>\<open>Inl\<close> the error; error messages are
  constructors with the values they mention. Go maps are maps or association lists; where the code
  ranges over a map the model follows the list, and the results do not depend on its order. The
  database, the SQL parser, the inflection of plurals and the quoting of identifiers are parameters
  with the facts used of them as hypotheses.

  \<^bold>\<open>Bounds.\<close> Recursions over data are structural or have a measure. The depth-first order of modules runs
  with one level of fuel per module and one more, and the expression parser with as much as there are
  tokens; their theorems show that this is always enough. Integers are unbounded where the
  code only compares them and are reduced to 64 bits where it multiplies (route time limits).

  \<^bold>\<open>Not modelled.\<close> The WebAssembly runtime, HTTP, sessions and cryptography, the statements sent to the
  database and the schema synchronisation, queues, notifications, websockets, code generation, the
  command line, the business modules and the web shell: they are input and output, or text produced
  for other programs, and the decisions inside them that are modelled are listed above.
\<close>

end
